(* ===== verification/Prelude.thy ===== *)
theory Prelude
  imports Main "HOL-Library.Monad_Syntax" "HOL-Library.Multiset"
begin

text \<open>
  Shared vocabulary of the development. The source is Go, so the prelude fixes how Go's partial
  operations are read: a slice or array access \<open>s[i]\<close> with an index out of range panics, and a
  panic is the value \<^term>\<open>None\<close> of an option-valued operation; \<open>s[a:]\<close> and \<open>s[:b]\<close> behave the
  same way. Go's \<open>int\<close> is read as the unbounded \<^typ>\<open>int\<close> (log indices, terms, counters: none of
  the code depends on their wrap-around), its sized unsigned integers as words in the theories that
  use them. The theory also holds the generic list and counting lemmas the components share.
\<close>

named_theorems go_simps \<open>how Go's slice operations evaluate\<close>
named_theorems wf_intros \<open>preservation of the well-formedness invariants\<close>

section \<open>Slices\<close>

text \<open>\<open>s[i]\<close>: the element, or a panic when \<open>i\<close> is negative or not below \<open>len(s)\<close>.\<close>

definition go_index :: "'a list \<Rightarrow> int \<Rightarrow> 'a option" where
  "go_index xs i = (if 0 \<le> i \<and> i < int (length xs) then Some (xs ! nat i) else None)"

text \<open>\<open>s[i] = v\<close>.\<close>

definition go_store :: "'a list \<Rightarrow> int \<Rightarrow> 'a \<Rightarrow> 'a list option" where
  "go_store xs i v = (if 0 \<le> i \<and> i < int (length xs) then Some (xs[nat i := v]) else None)"

text \<open>\<open>s[a:]\<close>; the bound \<open>a = len(s)\<close> is legal and gives the empty slice.\<close>

definition go_from :: "'a list \<Rightarrow> int \<Rightarrow> 'a list option" where
  "go_from xs a = (if 0 \<le> a \<and> a \<le> int (length xs) then Some (drop (nat a) xs) else None)"

text \<open>
  \<open>s[:b]\<close>. Go admits \<open>b\<close> up to the capacity of the slice; the model panics beyond its length, so
  that no result depends on the spare capacity of a backing array.
\<close>

definition go_upto :: "'a list \<Rightarrow> int \<Rightarrow> 'a list option" where
  "go_upto xs b = (if 0 \<le> b \<and> b \<le> int (length xs) then Some (take (nat b) xs) else None)"

lemma go_index_eq_Some [go_simps]:
  "go_index xs i = Some x \<longleftrightarrow> 0 \<le> i \<and> i < int (length xs) \<and> x = xs ! nat i"
  by (auto simp: go_index_def)

lemma go_index_eq_None [go_simps]:
  "go_index xs i = None \<longleftrightarrow> i < 0 \<or> int (length xs) \<le> i"
  by (auto simp: go_index_def)

lemma go_index_nat [simp]: "k < length xs \<Longrightarrow> go_index xs (int k) = Some (xs ! k)"
  by (simp add: go_index_def)

lemma go_store_eq_Some [go_simps]:
  "go_store xs i v = Some ys \<longleftrightarrow> 0 \<le> i \<and> i < int (length xs) \<and> ys = xs[nat i := v]"
  by (auto simp: go_store_def)

lemma go_index_append:
  "go_index (xs @ ys) i =
     (if i < int (length xs) then go_index xs i else go_index ys (i - int (length xs)))"
  by (auto simp: go_index_def nth_append nat_diff_distrib)

lemma go_index_take:
  "go_index (take n xs) i = (if i < int n then go_index xs i else None)"
  by (auto simp: go_index_def)

lemma go_index_drop:
  "0 \<le> i \<Longrightarrow> n \<le> length xs \<Longrightarrow> go_index (drop n xs) i = go_index xs (i + int n)"
  by (auto simp: go_index_def nat_add_distrib algebra_simps)

lemma go_index_Cons:
  "go_index (x # xs) i = (if i = 0 then Some x else if i < 0 then None else go_index xs (i - 1))"
  by (auto simp: go_index_def nth_Cons' nat_diff_distrib)

lemma go_index_Some_in_set: "go_index xs i = Some x \<Longrightarrow> x \<in> set xs"
  by (auto simp: go_simps)

section \<open>Options\<close>

lemma bind_Some_iff: "Option.bind m f = Some y \<longleftrightarrow> (\<exists>x. m = Some x \<and> f x = Some y)"
  by (cases m) auto

section \<open>Counting and majorities\<close>

text \<open>Two sets of more than half of \<open>n\<close> peers share a peer.\<close>

lemma majorities_share:
  assumes "A \<subseteq> {..<n}" "B \<subseteq> {..<n}" "n div 2 < card A" "n div 2 < card B"
  obtains p where "p \<in> A" "p \<in> B" "p < n"
proof -
  have "finite A" "finite B" using assms(1,2) finite_subset by blast+
  have "A \<inter> B \<noteq> {}"
  proof
    assume "A \<inter> B = {}"
    then have "card (A \<union> B) = card A + card B"
      using \<open>finite A\<close> \<open>finite B\<close> by (intro card_Un_disjoint)
    moreover have "card (A \<union> B) \<le> card {..<n}"
      using assms(1,2) by (intro card_mono) auto
    ultimately show False using assms(3,4) by simp
  qed
  then obtain p where "p \<in> A" "p \<in> B" by blast
  moreover have "p < n" using \<open>p \<in> A\<close> assms(1) by auto
  ultimately show ?thesis by (rule that)
qed

lemma card_insert_le_Suc: "card (insert x A) \<le> Suc (card A)"
  by (cases "finite A") (auto simp: card_insert_if)

section \<open>Going round in a circle, waiting ever longer\<close>

text \<open>Counting on modulo \<open>n\<close> comes to every place within \<open>n\<close> steps.\<close>

lemma circle:
  assumes "k < (n :: nat)"
  obtains j where "1 \<le> j" "j \<le> n" "(s + j) mod n = k"
proof -
  define r where "r = s mod n"
  define j where "j = (if r < k then k - r else k + n - r)"
  have less: "r < n" using assms by (simp add: r_def)
  then have "1 \<le> j" "j \<le> n" using assms by (auto simp: j_def)
  moreover have "(s + j) mod n = k"
  proof -
    have "(r + j) mod n = k" using assms less by (auto simp: j_def)
    then show ?thesis by (simp add: r_def mod_add_left_eq)
  qed
  ultimately show ?thesis by (rule that)
qed

text \<open>The time of \<open>m\<close> sleeps in milliseconds, each twice as long as the one before up to about a second.\<close>

fun sleeps :: "nat \<Rightarrow> nat \<Rightarrow> nat" where
  "sleeps 0 to = 0"
| "sleeps (Suc m) to = to + sleeps m (if to < 1000 then to * 2 else to)"

lemma sleeps_numeral: "sleeps (numeral v) to = to + sleeps (pred_numeral v) (if to < 1000 then to * 2 else to)"
  by (simp add: numeral_eq_Suc)

lemma sleeps_30: "sleeps 30 10 = 30710"
  by (simp add: sleeps_numeral)

end
