(* ===== verification/RaftLog.thy ===== *)
theory RaftLog
  imports Prelude
begin

text \<open>
  The compacted Raft log of \<open>src/raft1/raftlog.go\<close>: a dummy entry at the snapshot index followed
  by the live entries, addressed by absolute index. Every method of the Go type is one definition;
  a method that can index out of range returns an option. The theory proves the log's invariant,
  what each operation does to the entry at every absolute index, and that the log is an instance
  of the interface \<open>compacted_log\<close> on which the AppendEntries handler relies.
\<close>

section \<open>Data\<close>

text \<open>A command is any Go value; \<^term>\<open>None\<close> is the \<open>nil\<close> command of the dummy entry.\<close>

record 'c LogEntry =
  Term :: int
  Command :: "'c option"

record 'c raftLog =
  entries :: "'c LogEntry list"
  snapIndex :: int
  snapTerm :: int

text \<open>The zero value \<open>LogEntry{Term: t}\<close>.\<close>

abbreviation dummy_entry :: "int \<Rightarrow> 'c LogEntry" where
  "dummy_entry t \<equiv> \<lparr>Term = t, Command = None\<rparr>"

section \<open>Operations\<close>

definition newRaftLog :: "'c raftLog" where
  "newRaftLog = \<lparr>entries = [dummy_entry 0], snapIndex = 0, snapTerm = 0\<rparr>"

definition restoreLog :: "'c LogEntry list \<Rightarrow> int \<Rightarrow> int \<Rightarrow> 'c raftLog" where
  "restoreLog es si st = \<lparr>entries = es, snapIndex = si, snapTerm = st\<rparr>"

definition log_len :: "'c raftLog \<Rightarrow> int" where
  "log_len l = snapIndex l + int (length (entries l))"

definition lastIndex :: "'c raftLog \<Rightarrow> int" where
  "lastIndex l = log_len l - 1"

definition log_entry :: "'c raftLog \<Rightarrow> int \<Rightarrow> 'c LogEntry option" where
  "log_entry l i = go_index (entries l) (i - snapIndex l)"

definition lastTerm :: "'c raftLog \<Rightarrow> int option" where
  "lastTerm l = map_option Term (log_entry l (lastIndex l))"

definition snapshotIndex :: "'c raftLog \<Rightarrow> int" where
  "snapshotIndex l = snapIndex l"

definition snapshotTerm :: "'c raftLog \<Rightarrow> int" where
  "snapshotTerm l = snapTerm l"

definition log_append :: "'c raftLog \<Rightarrow> 'c LogEntry list \<Rightarrow> 'c raftLog" where
  "log_append l es = l\<lparr>entries := entries l @ es\<rparr>"

definition truncateTo :: "'c raftLog \<Rightarrow> int \<Rightarrow> 'c raftLog option" where
  "truncateTo l i = do {
     es \<leftarrow> go_upto (entries l) (max (i - snapIndex l) 1);
     Some (l\<lparr>entries := es\<rparr>)
   }"

definition snapshotAt :: "'c raftLog \<Rightarrow> int \<Rightarrow> 'c raftLog option" where
  "snapshotAt l i = (let idx = i - snapIndex l in do {
     e \<leftarrow> go_index (entries l) idx;
     es \<leftarrow> (if int (length (entries l)) > idx + 1
            then map_option (\<lambda>tl. dummy_entry (Term e) # tl) (go_from (entries l) (idx + 1))
            else Some [dummy_entry (Term e)]);
     Some (l\<lparr>entries := es, snapIndex := i, snapTerm := Term e\<rparr>)
   })"

text \<open>Go's \<open>&&\<close>: the entry is read only when \<open>index < l.len()\<close>.\<close>

definition installSnapshot :: "'c raftLog \<Rightarrow> int \<Rightarrow> int \<Rightarrow> 'c raftLog option" where
  "installSnapshot l index term = do {
     keep \<leftarrow> (if index < log_len l
              then map_option (\<lambda>e. Term e = term) (log_entry l index) else Some False);
     if keep then snapshotAt l index
     else Some (l\<lparr>entries := [dummy_entry term], snapIndex := index, snapTerm := term\<rparr>)
   }"

fun matchPrefix_loop :: "'c raftLog \<Rightarrow> int \<Rightarrow> 'c LogEntry list \<Rightarrow> int \<Rightarrow> int option" where
  "matchPrefix_loop l prevIndex [] i = Some i"
| "matchPrefix_loop l prevIndex (e # es) i =
     (let idx = prevIndex + 1 + i in
      if idx \<ge> log_len l then Some i
      else do {
        mine \<leftarrow> log_entry l idx;
        if Term mine \<noteq> Term e then Some i else matchPrefix_loop l prevIndex es (i + 1)
      })"

definition matchPrefix :: "'c raftLog \<Rightarrow> int \<Rightarrow> 'c LogEntry list \<Rightarrow> int option" where
  "matchPrefix l prevIndex theirs = matchPrefix_loop l prevIndex theirs 0"

definition log_since :: "'c raftLog \<Rightarrow> int \<Rightarrow> 'c LogEntry list" where
  "log_since l i = (let rel = max (i - snapIndex l) 0 in
     if rel \<ge> int (length (entries l)) then [] else drop (nat rel) (entries l))"

definition persistEntries :: "'c raftLog \<Rightarrow> 'c LogEntry list" where
  "persistEntries l = entries l"

section \<open>The invariant\<close>

text \<open>
  The source's comment: the entry at the snapshot index is a synthetic dummy with no command whose
  term is the snapshot term. In particular the log is never empty.
\<close>

definition wf_log :: "'c raftLog \<Rightarrow> bool" where
  "wf_log l \<longleftrightarrow> entries l \<noteq> [] \<and> hd (entries l) = dummy_entry (snapTerm l)"

text \<open>The term stored at an absolute index, where the log has an entry there.\<close>

definition term_at :: "'c raftLog \<Rightarrow> int \<Rightarrow> int option" where
  "term_at l i = map_option Term (log_entry l i)"

lemmas log_defs = log_len_def lastIndex_def log_entry_def snapshotIndex_def snapshotTerm_def

lemma log_entry_iff: "log_entry l i = Some e \<longleftrightarrow>
    snapIndex l \<le> i \<and> i < log_len l \<and> e = entries l ! nat (i - snapIndex l)"
  by (auto simp: log_defs go_simps)

lemma log_entry_None_iff: "log_entry l i = None \<longleftrightarrow> i < snapIndex l \<or> log_len l \<le> i"
  by (auto simp: log_defs go_simps)

lemma log_entry_dom: "(\<exists>e. log_entry l i = Some e) \<longleftrightarrow> snapIndex l \<le> i \<and> i < log_len l"
  by (simp add: log_entry_iff)

lemma term_at_eq_Some: "term_at l i = Some t \<longleftrightarrow> (\<exists>e. log_entry l i = Some e \<and> Term e = t)"
  by (auto simp: term_at_def)

lemma term_at_None_iff: "term_at l i = None \<longleftrightarrow> i < snapIndex l \<or> log_len l \<le> i"
  by (simp add: term_at_def log_entry_None_iff)

lemma wf_log_length: "wf_log l \<Longrightarrow> 0 < length (entries l)"
  by (auto simp: wf_log_def)

lemma wf_log_bounds: "wf_log l \<Longrightarrow> snapIndex l < log_len l"
  using wf_log_length by (simp add: log_len_def)

lemma wf_log_snap_entry: "wf_log l \<Longrightarrow> log_entry l (snapIndex l) = Some (dummy_entry (snapTerm l))"
  by (cases "entries l") (auto simp: wf_log_def log_entry_def go_index_def)

lemma wf_log_lastTerm: "wf_log l \<Longrightarrow> lastTerm l = Some (Term (last (entries l)))"
  by (auto simp: lastTerm_def log_defs wf_log_def go_index_def last_conv_nth nat_diff_distrib'
      Suc_le_eq)

subsection \<open>Every operation keeps the invariant\<close>

lemma wf_newRaftLog [wf_intros]: "wf_log newRaftLog"
  by (simp add: wf_log_def newRaftLog_def)

lemma wf_log_append [wf_intros]: "wf_log l \<Longrightarrow> wf_log (log_append l es)"
  by (auto simp: wf_log_def log_append_def)

lemma wf_truncateTo [wf_intros]: "wf_log l \<Longrightarrow> truncateTo l i = Some l' \<Longrightarrow> wf_log l'"
  by (cases "entries l")
     (auto simp: wf_log_def truncateTo_def go_upto_def bind_Some_iff take_Cons' split: if_splits)

lemma wf_snapshotAt [wf_intros]: "wf_log l \<Longrightarrow> snapshotAt l i = Some l' \<Longrightarrow> wf_log l'"
  by (auto simp: wf_log_def snapshotAt_def go_from_def Let_def bind_Some_iff split: if_splits)

lemma wf_installSnapshot [wf_intros]: "wf_log l \<Longrightarrow> installSnapshot l i t = Some l' \<Longrightarrow> wf_log l'"
  using wf_snapshotAt [of l i l']
  by (auto simp: installSnapshot_def bind_Some_iff wf_log_def split: if_splits)

section \<open>What each operation does at every absolute index\<close>

lemma snapIndex_log_append [simp]: "snapIndex (log_append l es) = snapIndex l"
  and snapTerm_log_append [simp]: "snapTerm (log_append l es) = snapTerm l"
  and log_len_append [simp]: "log_len (log_append l es) = log_len l + int (length es)"
  by (simp_all add: log_append_def log_len_def)

lemma log_entry_append:
  "wf_log l \<Longrightarrow> log_entry (log_append l es) i =
     (if i < log_len l then log_entry l i else go_index es (i - log_len l))"
  by (auto simp: log_entry_def log_append_def log_len_def go_index_append algebra_simps)

text \<open>
  The call succeeds exactly when the cut lies inside the slice, and then the entries below the cut
  stay and the rest goes: the entry at \<open>i\<close> itself is dropped (the cut never reaches the dummy).
\<close>

lemma truncateTo_eq_Some:
  assumes "wf_log l"
  shows "truncateTo l i = Some l' \<longleftrightarrow>
    i \<le> log_len l \<and> l' = l\<lparr>entries := take (nat (max (i - snapIndex l) 1)) (entries l)\<rparr>"
  using wf_log_length [OF assms]
  by (auto simp: truncateTo_def go_upto_def bind_Some_iff log_len_def Suc_le_eq)

lemma truncateTo_exists: "wf_log l \<Longrightarrow> i \<le> log_len l \<Longrightarrow> \<exists>l'. truncateTo l i = Some l'"
  by (simp add: truncateTo_eq_Some)

lemma truncateTo_frame:
  assumes "wf_log l" "truncateTo l i = Some l'"
  shows "snapIndex l' = snapIndex l" "snapTerm l' = snapTerm l"
    "log_len l' = max i (snapIndex l + 1)"
  using assms wf_log_length [OF assms(1)]
  by (auto simp: truncateTo_eq_Some log_len_def min_def max_def Suc_le_eq le_Suc_eq)

lemma log_entry_truncateTo:
  assumes "wf_log l" "truncateTo l i = Some l'"
  shows "log_entry l' j = (if j < max i (snapIndex l + 1) then log_entry l j else None)"
  using assms wf_log_length [OF assms(1)]
  by (auto simp: truncateTo_eq_Some log_entry_def go_index_take)

lemma snapshotAt_eq_Some:
  assumes "wf_log l"
  shows "snapshotAt l i = Some l' \<longleftrightarrow> (\<exists>e. log_entry l i = Some e \<and>
    l' = l\<lparr>entries := dummy_entry (Term e) # drop (nat (i + 1 - snapIndex l)) (entries l),
           snapIndex := i, snapTerm := Term e\<rparr>)"
  by (auto simp: snapshotAt_def log_entry_def go_from_def Let_def bind_Some_iff go_index_def
                 algebra_simps)

lemma snapshotAt_exists:
  "wf_log l \<Longrightarrow> snapIndex l \<le> i \<Longrightarrow> i < log_len l \<Longrightarrow> \<exists>l'. snapshotAt l i = Some l'"
  by (simp add: snapshotAt_eq_Some log_entry_iff)

lemma snapshotAt_frame:
  assumes "wf_log l" "snapshotAt l i = Some l'"
  shows "snapIndex l' = i" "log_len l' = log_len l" "term_at l i = Some (snapTerm l')"
  using assms by (auto simp: snapshotAt_eq_Some log_entry_iff log_len_def term_at_def)

lemma log_entry_snapshotAt:
  assumes "wf_log l" "snapshotAt l i = Some l'"
  shows "log_entry l' j = (if j < i then None else if j = i then Some (dummy_entry (snapTerm l'))
                           else log_entry l j)"
proof -
  obtain e where e: "log_entry l i = Some e"
    and l': "l' = l\<lparr>entries := dummy_entry (Term e) # drop (nat (i + 1 - snapIndex l)) (entries l),
           snapIndex := i, snapTerm := Term e\<rparr>"
    using assms by (auto simp: snapshotAt_eq_Some)
  from e have "snapIndex l \<le> i" "i < log_len l" by (auto simp: log_entry_iff)
  then show ?thesis
    by (auto simp: l' log_entry_def go_index_Cons go_index_drop log_len_def)
qed

lemma term_at_snapshotAt:
  assumes "wf_log l" "snapshotAt l i = Some l'"
  shows "term_at l' j = (if j < i then None else term_at l j)"
  using snapshotAt_frame(3) [OF assms] by (auto simp: log_entry_snapshotAt [OF assms] term_at_def)

lemma installSnapshot_eq:
  assumes "wf_log l"
  shows "installSnapshot l i t =
    (if term_at l i = Some t then snapshotAt l i
     else if i < snapIndex l then None
     else Some (l\<lparr>entries := [dummy_entry t], snapIndex := i, snapTerm := t\<rparr>))"
proof (cases "log_entry l i")
  case None
  then show ?thesis
    using wf_log_bounds [OF assms] log_entry_None_iff [of l i]
    by (auto simp: installSnapshot_def term_at_def)
next
  case (Some e)
  moreover from this have "snapIndex l \<le> i" "i < log_len l" by (auto simp: log_entry_iff)
  ultimately show ?thesis by (simp add: installSnapshot_def term_at_def)
qed

lemma installSnapshot_exists:
  assumes "wf_log l" "snapIndex l \<le> i"
  shows "\<exists>l'. installSnapshot l i t = Some l'"
  using assms snapshotAt_exists [OF assms]
  by (auto simp: installSnapshot_eq term_at_eq_Some log_entry_iff)

lemma installSnapshot_frame:
  assumes "wf_log l" "installSnapshot l i t = Some l'"
  shows "snapIndex l' = i" "snapTerm l' = t"
proof -
  show "snapIndex l' = i"
    using assms snapshotAt_frame(1) [OF assms(1)] by (auto simp: installSnapshot_eq split: if_splits)
  show "snapTerm l' = t"
    using assms snapshotAt_frame(3) [OF assms(1)] by (auto simp: installSnapshot_eq split: if_splits)
qed

text \<open>
  Either the log already holds the snapshot's last entry and keeps everything after it, or the
  whole log is replaced by the dummy.
\<close>

lemma log_entry_installSnapshot:
  assumes "wf_log l" "installSnapshot l i t = Some l'"
  shows "log_entry l' j =
    (if j < i then None else if j = i then Some (dummy_entry t)
     else if term_at l i = Some t then log_entry l j else None)"
proof (cases "term_at l i = Some t")
  case True
  then have "snapshotAt l i = Some l'" using assms by (simp add: installSnapshot_eq)
  then show ?thesis
    using log_entry_snapshotAt [OF assms(1)] installSnapshot_frame [OF assms] True by auto
next
  case False
  then have "l' = l\<lparr>entries := [dummy_entry t], snapIndex := i, snapTerm := t\<rparr>"
    using assms by (auto simp: installSnapshot_eq split: if_splits)
  with False show ?thesis by (auto simp: log_entry_def go_index_Cons go_index_def)
qed

section \<open>Matching a leader's entries against the log\<close>

lemma matchPrefix_loop_spec:
  assumes "wf_log l" "snapIndex l \<le> prev" "0 \<le> i"
  shows "\<exists>m \<le> length theirs. matchPrefix_loop l prev theirs i = Some (i + int m)
    \<and> (\<forall>k < m. term_at l (prev + 1 + i + int k) = Some (Term (theirs ! k)))
    \<and> (m < length theirs \<longrightarrow> term_at l (prev + 1 + i + int m) \<noteq> Some (Term (theirs ! m)))"
  using assms(3)
proof (induction theirs arbitrary: i)
  case Nil
  then show ?case by simp
next
  case (Cons e es)
  let ?idx = "prev + 1 + i"
  show ?case
  proof (cases "term_at l ?idx = Some (Term e)")
    case True
    then obtain mine where mine: "log_entry l ?idx = Some mine" "Term mine = Term e"
      by (auto simp: term_at_eq_Some)
    from Cons.IH [of "i + 1"] Cons.prems obtain m where m: "m \<le> length es"
      "matchPrefix_loop l prev es (i + 1) = Some (i + 1 + int m)"
      "\<forall>k < m. term_at l (prev + 1 + (i + 1) + int k) = Some (Term (es ! k))"
      "m < length es \<longrightarrow> term_at l (prev + 1 + (i + 1) + int m) \<noteq> Some (Term (es ! m))"
      by auto
    have "?idx < log_len l" using mine by (simp add: log_entry_iff)
    moreover have "term_at l (?idx + int k) = Some (Term ((e # es) ! k))" if "k < Suc m" for k
      using that m(3) True by (cases k) (auto simp: algebra_simps)
    ultimately show ?thesis
      using m mine by (intro exI [of _ "Suc m"]) (auto simp: Let_def algebra_simps)
  next
    case False
    have "?idx < log_len l \<Longrightarrow> \<exists>mine. log_entry l ?idx = Some mine"
      using Cons.prems assms(2) by (simp add: log_entry_iff)
    with False show ?thesis
      by (intro exI [of _ 0]) (auto simp: Let_def term_at_def)
  qed
qed

lemma matchPrefix_spec:
  assumes "wf_log l" "snapIndex l \<le> prev"
  obtains m where "m \<le> length theirs" "matchPrefix l prev theirs = Some (int m)"
    "\<And>k. k < m \<Longrightarrow> term_at l (prev + 1 + int k) = Some (Term (theirs ! k))"
    "m < length theirs \<Longrightarrow> term_at l (prev + 1 + int m) \<noteq> Some (Term (theirs ! m))"
  using matchPrefix_loop_spec [OF assms, of 0 theirs] by (auto simp: matchPrefix_def)

section \<open>The log as an interface\<close>

text \<open>
  What the replication code relies on: a window \<open>[base, size)\<close> of addressable entries, appending
  at its end and cutting it back above its base. Cutting and then appending replaces a suffix.
\<close>

locale compacted_log =
  fixes invar :: "'l \<Rightarrow> bool"
    and at :: "'l \<Rightarrow> int \<Rightarrow> 'e option"
    and base :: "'l \<Rightarrow> int"
    and size_of :: "'l \<Rightarrow> int"
    and app :: "'l \<Rightarrow> 'e list \<Rightarrow> 'l"
    and cut :: "'l \<Rightarrow> int \<Rightarrow> 'l option"
  assumes at_dom: "invar l \<Longrightarrow> at l i = None \<longleftrightarrow> i < base l \<or> size_of l \<le> i"
    and base_less: "invar l \<Longrightarrow> base l < size_of l"
    and app_at: "invar l \<Longrightarrow> at (app l es) i =
          (if i < size_of l then at l i else go_index es (i - size_of l))"
    and app_frame: "invar l \<Longrightarrow> invar (app l es) \<and> base (app l es) = base l \<and>
          size_of (app l es) = size_of l + int (length es)"
    and cut_at: "invar l \<Longrightarrow> base l < i \<Longrightarrow> i \<le> size_of l \<Longrightarrow>
          \<exists>l'. cut l i = Some l' \<and> invar l' \<and> base l' = base l \<and> size_of l' = i \<and>
               (\<forall>j < i. at l' j = at l j)"
begin

lemma splice:
  assumes "invar l" "base l < i" "i \<le> size_of l"
  obtains l' where "Option.bind (cut l i) (\<lambda>l'. Some (app l' es)) = Some l'" "invar l'"
    "base l' = base l" "size_of l' = i + int (length es)"
    "\<And>j. at l' j = (if j < i then at l j else go_index es (j - i))"
proof -
  obtain c where c: "cut l i = Some c" "invar c" "base c = base l" "size_of c = i"
    "\<forall>j < i. at c j = at l j"
    using cut_at [OF assms] by blast
  show ?thesis
    by (rule that [of "app c es"]) (use c app_frame app_at in auto)
qed

lemma splice_window:
  assumes "invar l" "base l < i" "i \<le> size_of l" "0 \<le> k" "k < int (length es)"
    and "Option.bind (cut l i) (\<lambda>l'. Some (app l' es)) = Some l'"
  shows "at l' (i + k) = Some (es ! nat k)"
proof -
  obtain l'' where "Option.bind (cut l i) (\<lambda>l'. Some (app l' es)) = Some l''"
    and "\<And>j. at l'' j = (if j < i then at l j else go_index es (j - i))"
    using splice [OF assms(1-3), of es] by metis
  with assms(4-6) show ?thesis by (simp add: go_index_def)
qed

end

interpretation rlog: compacted_log wf_log log_entry snapIndex log_len log_append truncateTo
proof unfold_locales
  fix l :: "'a raftLog" and i and es :: "'a LogEntry list"
  assume wf: "wf_log l"
  show "log_entry l i = None \<longleftrightarrow> i < snapIndex l \<or> log_len l \<le> i" by (rule log_entry_None_iff)
  show "snapIndex l < log_len l" using wf by (rule wf_log_bounds)
  show "log_entry (log_append l es) i =
      (if i < log_len l then log_entry l i else go_index es (i - log_len l))"
    using wf by (rule log_entry_append)
  show "wf_log (log_append l es) \<and> snapIndex (log_append l es) = snapIndex l \<and>
      log_len (log_append l es) = log_len l + int (length es)"
    using wf by (simp add: wf_log_append)
  assume i: "snapIndex l < i" "i \<le> log_len l"
  obtain l' where l': "truncateTo l i = Some l'" using truncateTo_exists [OF wf i(2)] by blast
  then show "\<exists>l'. truncateTo l i = Some l' \<and> wf_log l' \<and> snapIndex l' = snapIndex l \<and>
      log_len l' = i \<and> (\<forall>j<i. log_entry l' j = log_entry l j)"
    using wf_truncateTo [OF wf l'] truncateTo_frame [OF wf l'] log_entry_truncateTo [OF wf l'] i
    by auto
qed

section \<open>Reading a suffix\<close>

lemma log_since_spec:
  assumes "wf_log l" "snapIndex l \<le> i"
  shows "go_index (log_since l i) k = (if k < 0 then None else log_entry l (i + k))"
  using assms
  by (auto simp: log_since_def log_entry_def Let_def go_index_drop max_def algebra_simps)
     (auto simp: go_index_def)

lemma length_log_since:
  "wf_log l \<Longrightarrow> snapIndex l \<le> i \<Longrightarrow> i \<le> log_len l \<Longrightarrow> int (length (log_since l i)) = log_len l - i"
  by (auto simp: log_since_def log_len_def Let_def)

end
