(* ===== verification/RaftRpc.thy ===== *)
theory RaftRpc
  imports RaftLog
begin

text \<open>
  The wire types of \<open>src/raft1/rpc.go\<close> and the messages of \<open>src/raftapi/raftapi.go\<close>. Snapshots are
  byte strings that Raft does not look into; the type parameter \<open>'b\<close> stands for a byte. A field
  is prefixed by the initials of its Go type, since Isabelle's record fields share a name space.
\<close>

record RequestVoteArgs =
  rva_Term :: int
  rva_CandidateID :: int
  rva_LastLogIndex :: int
  rva_LastLogTerm :: int

record RequestVoteReply =
  rvr_Term :: int
  rvr_VoteGranted :: bool

record 'c AppendEntriesArgs =
  aea_Term :: int
  aea_LeaderID :: int
  aea_PrevLogIndex :: int
  aea_PrevLogTerm :: int
  aea_Entries :: "'c LogEntry list"
  aea_LeaderCommit :: int

record AppendEntriesReply =
  aer_Term :: int
  aer_Success :: bool
  aer_XTerm :: int
  aer_XIndex :: int
  aer_XLen :: int

record 'b InstallSnapshotArgs =
  isa_Term :: int
  isa_LeaderID :: int
  isa_LastIncludedIndex :: int
  isa_LastIncludedTerm :: int
  isa_Data :: "'b list"

record InstallSnapshotReply =
  isr_Term :: int

record ('c, 'b) ApplyMsg =
  CommandValid :: bool
  am_Command :: "'c option"
  CommandIndex :: int
  SnapshotValid :: bool
  am_Snapshot :: "'b list option"
  SnapshotTerm :: int
  SnapshotIndex :: int

text \<open>The replies as the caller allocates them: Go's zero values.\<close>

definition zero_rvr :: RequestVoteReply where
  "zero_rvr = \<lparr>rvr_Term = 0, rvr_VoteGranted = False\<rparr>"

definition zero_aer :: AppendEntriesReply where
  "zero_aer = \<lparr>aer_Term = 0, aer_Success = False, aer_XTerm = 0, aer_XIndex = 0, aer_XLen = 0\<rparr>"

definition zero_isr :: InstallSnapshotReply where
  "zero_isr = \<lparr>isr_Term = 0\<rparr>"

end
