(* ===== verification/Conflict.thy ===== *)
theory Conflict
  imports RaftRpc
begin

text \<open>
  The two conflict-resolution decisions of \<open>src/raft1/conflict.go\<close>: the follower's
  \<open>checkAppend\<close> and the leader's \<open>backoffNextIndex\<close>. Both loops are recursive functions with their
  termination proofs. The lemmas say what a conflict report means, that a rejected leader always
  resumes strictly earlier, and that the accelerated back-off never jumps over an index at which
  the two logs agree, so that it finds the same place the entry-by-entry back-off would.
\<close>

record appendConflict =
  XLen :: int
  XTerm :: int
  XIndex :: int

definition no_conflict :: appendConflict where
  "no_conflict = \<lparr>XLen = 0, XTerm = 0, XIndex = 0\<rparr>"

section \<open>The follower: checkAppend\<close>

text \<open>The loop that walks \<open>c.XIndex\<close> back to the first index of the conflicting term.\<close>

function xindex_loop :: "'c raftLog \<Rightarrow> int \<Rightarrow> int \<Rightarrow> int option" where
  "xindex_loop l xterm xi =
     (if xi > snapshotIndex l + 1
      then (case log_entry l (xi - 1) of
              None \<Rightarrow> None
            | Some e \<Rightarrow> if Term e = xterm then xindex_loop l xterm (xi - 1) else Some xi)
      else Some xi)"
  by pat_completeness auto
termination
  by (relation "measure (\<lambda>(l, xterm, xi). nat (xi - snapshotIndex l))") auto

declare xindex_loop.simps [simp del]

definition checkAppend ::
  "'c raftLog \<Rightarrow> int \<Rightarrow> int \<Rightarrow> 'c LogEntry list \<Rightarrow> (int \<times> appendConflict) option" where
  "checkAppend l prevIndex prevTerm es =
     (if prevIndex < snapshotIndex l \<or> prevIndex \<ge> log_len l
      then Some (0, no_conflict\<lparr>XLen := log_len l\<rparr>)
      else do {
        e \<leftarrow> log_entry l prevIndex;
        if Term e \<noteq> prevTerm
        then do {
          xi \<leftarrow> xindex_loop l (Term e) prevIndex;
          Some (0, no_conflict\<lparr>XTerm := Term e, XIndex := xi\<rparr>)
        }
        else do {
          i \<leftarrow> matchPrefix l prevIndex es;
          Some (i, no_conflict)
        }
      })"

section \<open>The leader: backoffNextIndex\<close>

function backoff_loop :: "'c raftLog \<Rightarrow> int \<Rightarrow> int \<Rightarrow> int option" where
  "backoff_loop l xterm idx =
     (if idx > snapshotIndex l
      then (case log_entry l idx of
              None \<Rightarrow> None
            | Some e \<Rightarrow> if Term e > xterm then backoff_loop l xterm (idx - 1) else Some idx)
      else Some idx)"
  by pat_completeness auto
termination
  by (relation "measure (\<lambda>(l, xterm, idx). nat (idx - snapshotIndex l))") auto

declare backoff_loop.simps [simp del]

definition backoffNextIndex :: "int \<Rightarrow> 'c raftLog \<Rightarrow> AppendEntriesReply \<Rightarrow> int option" where
  "backoffNextIndex prevLogIndex l reply =
     (if aer_XLen reply > 0 \<and> prevLogIndex \<ge> aer_XLen reply then Some (max 1 (aer_XLen reply))
      else if aer_XTerm reply > 0
      then do {
        idx \<leftarrow> backoff_loop l (aer_XTerm reply)
                 (if prevLogIndex \<ge> log_len l then lastIndex l else prevLogIndex);
        hit \<leftarrow> (if idx > snapshotIndex l
                then map_option (\<lambda>e. Term e = aer_XTerm reply) (log_entry l idx) else Some False);
        Some (if hit then max 1 (idx + 1) else max 1 (aer_XIndex reply))
      }
      else Some (max 1 prevLogIndex))"

section \<open>What checkAppend reports\<close>

lemma xindex_loop_spec:
  assumes "wf_log l" "snapIndex l \<le> xi" "xi < log_len l" "term_at l xi = Some xterm"
  shows "\<exists>r. xindex_loop l xterm xi = Some r \<and> r \<le> xi \<and> min xi (snapIndex l + 1) \<le> r
    \<and> (\<forall>j. r \<le> j \<and> j \<le> xi \<longrightarrow> term_at l j = Some xterm)
    \<and> (r > snapIndex l + 1 \<longrightarrow> term_at l (r - 1) \<noteq> Some xterm)"
  using assms
proof (induction l xterm xi rule: xindex_loop.induct)
  case (1 l xterm xi)
  have here: "\<forall>j. xi \<le> j \<and> j \<le> xi \<longrightarrow> term_at l j = Some xterm"
    using "1.prems"(4) by (metis order.antisym)
  show ?case
  proof (cases "xi > snapIndex l + 1")
    case False
    with here show ?thesis
      by (intro exI [of _ xi]) (auto simp: xindex_loop.simps [of l xterm xi] snapshotIndex_def)
  next
    case True
    then obtain e where e: "log_entry l (xi - 1) = Some e"
      using "1.prems" by (auto simp: log_entry_iff)
    show ?thesis
    proof (cases "Term e = xterm")
      case False
      with here e True show ?thesis
        by (intro exI [of _ xi])
           (auto simp: xindex_loop.simps [of l xterm xi] snapshotIndex_def term_at_def)
    next
      case same: True
      have "term_at l (xi - 1) = Some xterm" using e same by (simp add: term_at_def)
      with "1.IH" [OF _ e same] True "1.prems" obtain r where r: "xindex_loop l xterm (xi - 1) = Some r"
        "r \<le> xi - 1" "min (xi - 1) (snapIndex l + 1) \<le> r"
        "\<forall>j. r \<le> j \<and> j \<le> xi - 1 \<longrightarrow> term_at l j = Some xterm"
        "r > snapIndex l + 1 \<longrightarrow> term_at l (r - 1) \<noteq> Some xterm"
        by (auto simp: snapshotIndex_def)
      have "term_at l j = Some xterm" if "r \<le> j \<and> j \<le> xi" for j
        using that r(4) "1.prems"(4) by (cases "j = xi") auto
      with r e same True show ?thesis
        by (intro exI [of _ r]) (auto simp: xindex_loop.simps [of l xterm xi] snapshotIndex_def)
    qed
  qed
qed

text \<open>The three outcomes of \<open>checkAppend\<close>; it never panics on a well-formed log.\<close>

lemma checkAppend_out_of_window:
  "prev < snapIndex l \<or> log_len l \<le> prev \<Longrightarrow>
   checkAppend l prev pt es = Some (0, no_conflict\<lparr>XLen := log_len l\<rparr>)"
  by (auto simp: checkAppend_def snapshotIndex_def)

lemma checkAppend_mismatch:
  assumes "wf_log l" "term_at l prev = Some t" "t \<noteq> pt"
  obtains xi where "checkAppend l prev pt es = Some (0, no_conflict\<lparr>XTerm := t, XIndex := xi\<rparr>)"
    "xi \<le> prev" "min prev (snapIndex l + 1) \<le> xi"
    "\<And>j. xi \<le> j \<Longrightarrow> j \<le> prev \<Longrightarrow> term_at l j = Some t"
    "xi > snapIndex l + 1 \<Longrightarrow> term_at l (xi - 1) \<noteq> Some t"
proof -
  obtain e where e: "log_entry l prev = Some e" "Term e = t"
    using assms(2) by (auto simp: term_at_eq_Some)
  then have "snapIndex l \<le> prev" "prev < log_len l" by (auto simp: log_entry_iff)
  with xindex_loop_spec [OF assms(1) this assms(2)] e assms(3) show ?thesis
    by (auto intro!: that simp: checkAppend_def snapshotIndex_def)
qed

lemma checkAppend_match:
  assumes "wf_log l" "term_at l prev = Some pt"
  obtains m where "m \<le> length es" "checkAppend l prev pt es = Some (int m, no_conflict)"
    "\<And>k. k < m \<Longrightarrow> term_at l (prev + 1 + int k) = Some (Term (es ! k))"
    "m < length es \<Longrightarrow> term_at l (prev + 1 + int m) \<noteq> Some (Term (es ! m))"
proof -
  obtain e where e: "log_entry l prev = Some e" "Term e = pt"
    using assms(2) by (auto simp: term_at_eq_Some)
  then have w: "snapIndex l \<le> prev" "prev < log_len l" by (auto simp: log_entry_iff)
  obtain m where "m \<le> length es" "matchPrefix l prev es = Some (int m)"
    "\<And>k. k < m \<Longrightarrow> term_at l (prev + 1 + int k) = Some (Term (es ! k))"
    "m < length es \<Longrightarrow> term_at l (prev + 1 + int m) \<noteq> Some (Term (es ! m))"
    using matchPrefix_spec [OF assms(1) w(1), of es] by metis
  with e w show ?thesis
    by (auto intro!: that simp: checkAppend_def snapshotIndex_def)
qed

lemma checkAppend_total: "wf_log l \<Longrightarrow> \<exists>r. checkAppend l prev pt es = Some r"
  by (metis checkAppend_out_of_window checkAppend_mismatch checkAppend_match term_at_None_iff
      option.exhaust)

text \<open>What is known of a reported conflict.\<close>

lemma checkAppend_conflictE:
  assumes "wf_log f" "checkAppend f prev pt es = Some (i, c)" "c \<noteq> no_conflict"
  obtains (window) "term_at f prev = None" "c = no_conflict\<lparr>XLen := log_len f\<rparr>"
  | (differs) s xi where "term_at f prev = Some s" "s \<noteq> pt"
      "c = no_conflict\<lparr>XTerm := s, XIndex := xi\<rparr>" "xi \<le> prev"
      "\<And>j. xi \<le> j \<Longrightarrow> j \<le> prev \<Longrightarrow> term_at f j = Some s"
proof (cases "term_at f prev")
  case None
  with assms(2) show ?thesis by (auto intro!: window simp: checkAppend_out_of_window term_at_None_iff)
next
  case (Some s)
  have "s \<noteq> pt"
  proof
    assume "s = pt"
    with Some assms(2,3) show False
      by (metis checkAppend_match [OF assms(1)] option.inject prod.inject)
  qed
  with Some assms(2) show ?thesis
    by (metis checkAppend_mismatch [OF assms(1) Some] differs option.inject prod.inject)
qed

text \<open>
  The handler recognises success by an all-zero conflict. A successful check therefore means that
  the previous entry matched, with one exception: a mismatch at index 0 against the dummy of term 0
  is reported by the all-zero conflict too.
\<close>

lemma checkAppend_successD:
  assumes "wf_log f" "0 \<le> snapIndex f" "checkAppend f prev pt es = Some (i, no_conflict)"
  shows "term_at f prev = Some pt \<or> prev = 0 \<and> term_at f 0 = Some 0"
proof (cases "term_at f prev")
  case None
  then have "no_conflict = no_conflict\<lparr>XLen := log_len f\<rparr>"
    using assms(3) by (auto simp: checkAppend_out_of_window term_at_None_iff)
  then have "log_len f = 0" by (simp add: no_conflict_def)
  with wf_log_bounds [OF assms(1)] assms(2) show ?thesis by simp
next
  case (Some s)
  show ?thesis
  proof (cases "s = pt")
    case False
    then obtain xi where "no_conflict = no_conflict\<lparr>XTerm := s, XIndex := xi\<rparr>"
      "xi \<le> prev" "min prev (snapIndex f + 1) \<le> xi"
      using assms(3) by (metis checkAppend_mismatch [OF assms(1) Some] option.inject prod.inject)
    moreover have "snapIndex f \<le> prev" using Some by (auto simp: term_at_eq_Some log_entry_iff)
    ultimately have "s = 0" "prev = 0" using assms(2) by (auto simp: no_conflict_def)
    with Some show ?thesis by simp
  qed (use Some in simp)
qed

section \<open>Where the leader resumes\<close>

text \<open>Raft's terms never decrease along a log.\<close>

definition terms_sorted :: "'c raftLog \<Rightarrow> bool" where
  "terms_sorted l \<longleftrightarrow> sorted (map Term (entries l))"

lemma terms_sortedD:
  assumes "terms_sorted l" "term_at l i = Some s" "term_at l j = Some t" "i \<le> j"
  shows "s \<le> t"
proof -
  from assms(2,3) have b: "snapIndex l \<le> i" "j < log_len l" "i < log_len l" "snapIndex l \<le> j"
    and st: "s = Term (entries l ! nat (i - snapIndex l))" "t = Term (entries l ! nat (j - snapIndex l))"
    by (auto simp: term_at_eq_Some log_entry_iff)
  have "nat (i - snapIndex l) \<le> nat (j - snapIndex l)" "nat (j - snapIndex l) < length (entries l)"
    using b assms(4) by (auto simp: log_len_def)
  then show ?thesis
    using assms(1) st by (simp add: terms_sorted_def sorted_iff_nth_mono)
qed

lemma backoff_loop_spec:
  assumes "wf_log l" "idx < log_len l"
  shows "\<exists>r. backoff_loop l xterm idx = Some r \<and> r \<le> idx
    \<and> (\<forall>j. r < j \<and> j \<le> idx \<longrightarrow> (\<exists>t. term_at l j = Some t \<and> xterm < t))
    \<and> (r > snapIndex l \<longrightarrow> (\<exists>t. term_at l r = Some t \<and> t \<le> xterm))"
  using assms
proof (induction l xterm idx rule: backoff_loop.induct)
  case (1 l xterm idx)
  show ?case
  proof (cases "idx > snapIndex l")
    case False
    then show ?thesis
      by (intro exI [of _ idx]) (auto simp: backoff_loop.simps [of l xterm idx] snapshotIndex_def)
  next
    case True
    then obtain e where e: "log_entry l idx = Some e"
      using "1.prems" by (auto simp: log_entry_iff)
    show ?thesis
    proof (cases "Term e > xterm")
      case False
      with e True show ?thesis
        by (intro exI [of _ idx])
           (auto simp: backoff_loop.simps [of l xterm idx] snapshotIndex_def term_at_def)
    next
      case bigger: True
      with "1.IH" [OF _ e bigger] True "1.prems" obtain r where r: "backoff_loop l xterm (idx - 1) = Some r"
        "r \<le> idx - 1" "\<forall>j. r < j \<and> j \<le> idx - 1 \<longrightarrow> (\<exists>t. term_at l j = Some t \<and> xterm < t)"
        "r > snapIndex l \<longrightarrow> (\<exists>t. term_at l r = Some t \<and> t \<le> xterm)"
        by (auto simp: snapshotIndex_def)
      have "\<exists>t. term_at l j = Some t \<and> xterm < t" if "r < j \<and> j \<le> idx" for j
        using that r(3) e bigger by (cases "j = idx") (auto simp: term_at_def)
      with r e bigger True show ?thesis
        by (intro exI [of _ r]) (auto simp: backoff_loop.simps [of l xterm idx] snapshotIndex_def)
    qed
  qed
qed

text \<open>The reply fields the handler copies from a conflict.\<close>

definition conflict_reply :: "int \<Rightarrow> appendConflict \<Rightarrow> AppendEntriesReply" where
  "conflict_reply term c = zero_aer\<lparr>aer_Term := term, aer_Success := False,
     aer_XLen := XLen c, aer_XTerm := XTerm c, aer_XIndex := XIndex c\<rparr>"

lemma conflict_reply_simps [simp]:
  "aer_Term (conflict_reply t c) = t" "\<not> aer_Success (conflict_reply t c)"
  "aer_XLen (conflict_reply t c) = XLen c" "aer_XTerm (conflict_reply t c) = XTerm c"
  "aer_XIndex (conflict_reply t c) = XIndex c"
  by (simp_all add: conflict_reply_def)

lemma no_conflict_simps [simp]:
  "XLen no_conflict = 0" "XTerm no_conflict = 0" "XIndex no_conflict = 0"
  by (simp_all add: no_conflict_def)

text \<open>
  The back-off against a reported conflicting term: the leader resumes right after its last entry
  whose term does not exceed the conflicting one, if that entry has exactly that term, and at the
  follower's first entry of the conflicting term otherwise.
\<close>

lemma backoff_term_spec:
  assumes "wf_log l" "snapIndex l \<le> prev" "prev < log_len l" "0 < XTerm c" "XLen c = 0"
  obtains idx where "idx \<le> prev"
    "\<And>j. idx < j \<Longrightarrow> j \<le> prev \<Longrightarrow> \<exists>t. term_at l j = Some t \<and> XTerm c < t"
    "backoffNextIndex prev l (conflict_reply t c) =
       Some (if snapIndex l < idx \<and> term_at l idx = Some (XTerm c)
             then max 1 (idx + 1) else max 1 (XIndex c))"
    "snapIndex l < idx \<Longrightarrow> \<exists>t. term_at l idx = Some t \<and> t \<le> XTerm c"
proof -
  obtain idx where idx: "backoff_loop l (XTerm c) prev = Some idx" "idx \<le> prev"
    "\<forall>j. idx < j \<and> j \<le> prev \<longrightarrow> (\<exists>t. term_at l j = Some t \<and> XTerm c < t)"
    "idx > snapIndex l \<longrightarrow> (\<exists>t. term_at l idx = Some t \<and> t \<le> XTerm c)"
    using backoff_loop_spec [OF assms(1,3)] by blast
  show ?thesis
    by (rule that [of idx])
       (use idx assms in \<open>auto simp: backoffNextIndex_def snapshotIndex_def term_at_def bind_Some_iff\<close>)
qed

text \<open>A rejected leader resumes at a positive index that lies strictly below the one it probed.\<close>

lemma backoff_progress:
  assumes "wf_log f" "wf_log l" "term_at l prev = Some pt"
    and "checkAppend f prev pt es = Some (i, c)" "c \<noteq> no_conflict"
  shows "\<exists>n. backoffNextIndex prev l (conflict_reply t c) = Some n \<and> 1 \<le> n \<and> n \<le> max 1 prev"
proof -
  from assms(3) have w: "snapIndex l \<le> prev" "prev < log_len l"
    by (auto simp: term_at_eq_Some log_entry_iff)
  from assms(1,4,5) show ?thesis
  proof (cases rule: checkAppend_conflictE)
    case window
    then show ?thesis by (auto simp: backoffNextIndex_def)
  next
    case (differs s xi)
    then have c: "c = no_conflict\<lparr>XTerm := s, XIndex := xi\<rparr>" and xi: "xi \<le> prev" by simp_all
    show ?thesis
    proof (cases "0 < s")
      case False
      with c show ?thesis by (auto simp: backoffNextIndex_def)
    next
      case True
      have xs: "XTerm c = s" "XIndex c = xi" "XLen c = 0" using c by simp_all
      obtain idx where "idx \<le> prev" "backoffNextIndex prev l (conflict_reply t c) =
         Some (if snapIndex l < idx \<and> term_at l idx = Some s then max 1 (idx + 1) else max 1 xi)"
        using backoff_term_spec [OF assms(2) w, of c t] True unfolding xs by metis
      moreover have "idx < prev" if "term_at l idx = Some s"
        using that assms(3) differs \<open>idx \<le> prev\<close> by (cases "idx = prev") auto
      ultimately show ?thesis using xi by auto
    qed
  qed
qed

text \<open>Every index the accelerated back-off passes over is one where the two logs disagree.\<close>

lemma backoff_skips_only_conflicts:
  assumes "wf_log f" "wf_log l" "terms_sorted f" "terms_sorted l" "term_at l prev = Some pt"
    and "checkAppend f prev pt es = Some (i, c)" "c \<noteq> no_conflict"
    and "backoffNextIndex prev l (conflict_reply t c) = Some n"
    and j: "n \<le> j" "snapIndex l < j" "j \<le> prev"
  shows "term_at f j \<noteq> term_at l j"
proof -
  from assms(5) have w: "snapIndex l \<le> prev" "prev < log_len l"
    by (auto simp: term_at_eq_Some log_entry_iff)
  have lj: "term_at l j \<noteq> None" using j w by (simp add: term_at_None_iff)
  from assms(1,6,7) show ?thesis
  proof (cases rule: checkAppend_conflictE)
    case window
    with assms(8) have "n = (if 0 < log_len f \<and> log_len f \<le> prev then max 1 (log_len f) else max 1 prev)"
      by (auto simp: backoffNextIndex_def split: if_splits)
    with window(1) j have "term_at f j = None"
      by (cases "j = prev") (auto simp: term_at_None_iff split: if_splits)
    with lj show ?thesis by force
  next
    case (differs s xi)
    note c = differs(3) and xi = differs(5)
    show ?thesis
    proof (cases "0 < s")
      case False
      with c assms(8) have "n = max 1 prev" by (simp add: backoffNextIndex_def)
      with j differs assms(5) show ?thesis by (cases "j = prev") auto
    next
      case True
      have xs: "XTerm c = s" "XIndex c = xi" "XLen c = 0" using c by simp_all
      obtain idx where idx: "idx \<le> prev"
        "\<And>j. idx < j \<Longrightarrow> j \<le> prev \<Longrightarrow> \<exists>t. term_at l j = Some t \<and> s < t"
        "backoffNextIndex prev l (conflict_reply t c) =
         Some (if snapIndex l < idx \<and> term_at l idx = Some s then max 1 (idx + 1) else max 1 xi)"
        "snapIndex l < idx \<Longrightarrow> \<exists>t. term_at l idx = Some t \<and> t \<le> s"
        using backoff_term_spec [OF assms(2) w, of c t] True unfolding xs by metis
      show ?thesis
      proof (cases "idx < j")
        case True
        then obtain u where u: "term_at l j = Some u" "s < u" using idx(2) j by blast
        have "v \<le> s" if "term_at f j = Some v" for v
          using terms_sortedD [OF assms(3) that differs(1)] j by simp
        with u show ?thesis by force
      next
        case False
        with j have "snapIndex l < idx" by simp
        then obtain u where u: "term_at l idx = Some u" "u \<le> s" using idx(4) by blast
        from False assms(8) idx(3) j have "n = max 1 xi" "u \<noteq> s"
          using u \<open>snapIndex l < idx\<close> by (auto split: if_splits)
        then have "term_at f j = Some s" using xi j by auto
        moreover have "v \<le> u" if "term_at l j = Some v" for v
          using terms_sortedD [OF assms(4) that u(1)] False by simp
        ultimately show ?thesis using u \<open>u \<noteq> s\<close> by force
      qed
    qed
  qed
qed

section \<open>Catching a follower up\<close>

text \<open>
  The exchange the two decisions form, for a leader log and a follower log that do not change in
  the meantime: probe at \<open>nextIndex - 1\<close>, back off on a conflict, until the probe succeeds or the
  leader falls back on its snapshot. The first argument bounds the number of rounds.
\<close>

fun catch_up :: "nat \<Rightarrow> 'c raftLog \<Rightarrow> 'c raftLog \<Rightarrow> int \<Rightarrow> int option" where
  "catch_up 0 l f ni = None"
| "catch_up (Suc n) l f ni =
     (if ni \<le> snapshotIndex l then Some ni
      else do {
        pt \<leftarrow> term_at l (ni - 1);
        (i, c) \<leftarrow> checkAppend f (ni - 1) pt (log_since l ni);
        if c = no_conflict then Some ni
        else do {
          ni' \<leftarrow> backoffNextIndex (ni - 1) l (conflict_reply 0 c);
          catch_up n l f ni'
        }
      })"

text \<open>
  A follower whose log starts at index 0 accepts after at most \<open>nextIndex\<close> probes (or is handed the
  snapshot), because both logs carry the same dummy at index 0.
\<close>

lemma catch_up_terminates:
  assumes "wf_log l" "wf_log f" "snapIndex f = 0" "snapTerm f = 0"
    and "0 \<le> snapIndex l" "snapIndex l = 0 \<longrightarrow> snapTerm l = 0"
    and "1 \<le> ni" "ni \<le> log_len l" "ni \<le> int n"
  shows "\<exists>k. catch_up n l f ni = Some k \<and> 1 \<le> k \<and> k \<le> ni \<and>
    (snapIndex l < k \<longrightarrow> term_at f (k - 1) = term_at l (k - 1))"
  using assms(7-9)
proof (induction n arbitrary: ni)
  case 0
  then show ?case by simp
next
  case (Suc n)
  show ?case
  proof (cases "ni \<le> snapIndex l")
    case True
    with Suc.prems show ?thesis by (auto simp: snapshotIndex_def)
  next
    case False
    then obtain pt where pt: "term_at l (ni - 1) = Some pt"
      using Suc.prems by (auto simp: term_at_eq_Some log_entry_iff)
    have base: "pt = 0 \<and> term_at f 0 = Some 0" if "ni = 1"
    proof -
      from that False assms(5) have "snapIndex l = 0" by simp
      with that pt assms wf_log_snap_entry [OF assms(1)] wf_log_snap_entry [OF assms(2)]
      show ?thesis by (auto simp: term_at_def)
    qed
    obtain i c where chk: "checkAppend f (ni - 1) pt (log_since l ni) = Some (i, c)"
      using checkAppend_total [OF assms(2)] by fastforce
    show ?thesis
    proof (cases "c = no_conflict")
      case True
      then have "term_at f (ni - 1) = Some pt"
        using checkAppend_successD [OF assms(2) _ chk [unfolded True]] assms(3) base by auto
      with True chk pt False Suc.prems show ?thesis by (auto simp: snapshotIndex_def)
    next
      case conflict: False
      then have "ni \<noteq> 1" using base chk
        by (metis checkAppend_match [OF assms(2)] diff_self option.inject prod.inject)
      moreover obtain n' where "backoffNextIndex (ni - 1) l (conflict_reply 0 c) = Some n'"
        "1 \<le> n'" "n' \<le> max 1 (ni - 1)"
        using backoff_progress [OF assms(2,1) pt chk conflict] by blast
      ultimately show ?thesis
        using Suc.IH [of n'] Suc.prems chk pt conflict False by (auto simp: snapshotIndex_def)
    qed
  qed
qed

text \<open>
  A follower that has compacted its log beyond the probed index never accepts: the report carries
  its length, the probe lies below that length, and the back-off by one is stuck at index 1.
\<close>

lemma catch_up_stuck_below_snapshot:
  assumes "wf_log l" "wf_log f" "snapIndex l = 0" "0 < snapIndex f"
  shows "catch_up n l f 1 = None"
proof (induction n)
  case (Suc n)
  have "log_len f \<noteq> 0" using wf_log_bounds [OF assms(2)] assms(4) by simp
  then have "no_conflict\<lparr>XLen := log_len f\<rparr> \<noteq> no_conflict" by (simp add: no_conflict_def)
  moreover have "checkAppend f 0 pt es = Some (0, no_conflict\<lparr>XLen := log_len f\<rparr>)" for pt es
    using assms(4) by (rule checkAppend_out_of_window [OF disjI1])
  moreover have "backoffNextIndex 0 l (conflict_reply 0 (no_conflict\<lparr>XLen := log_len f\<rparr>)) = Some 1"
    using wf_log_bounds [OF assms(2)] assms(4) by (auto simp: backoffNextIndex_def)
  ultimately show ?case
    using Suc.IH assms(3) by (auto simp: snapshotIndex_def split: bind_splits)
qed simp

end
