(* ===== verification/Persister.thy ===== *)
theory Persister
  imports Prelude
begin

text \<open>
  The stable storage of \<open>src/tester1/persister.go\<close>: one byte string for Raft's state and one for
  the service's snapshot, replaced together. The Go type guards both with a mutex, so each method
  is one atomic operation. The two type parameters are the units of the two byte strings. \<open>clone\<close>
  copies a slice, so what a caller later does to its own slice cannot reach the stored one; in the
  model, where lists are values, it is the identity (and it turns a \<open>nil\<close> slice into an empty one,
  which the model does not distinguish).
\<close>

record ('r, 'b) Persister =
  raftstate :: "'r list"
  snapshot :: "'b list"

definition MakePersister :: "('r, 'b) Persister" where
  "MakePersister = \<lparr>raftstate = [], snapshot = []\<rparr>"

definition clone :: "'a list \<Rightarrow> 'a list" where
  "clone orig = map (\<lambda>i. orig ! i) [0..<length orig]"

definition Checkpoint :: "('r, 'b) Persister \<Rightarrow> ('r, 'b) Persister" where
  "Checkpoint ps = MakePersister\<lparr>raftstate := clone (raftstate ps), snapshot := clone (snapshot ps)\<rparr>"

definition ReadRaftState :: "('r, 'b) Persister \<Rightarrow> 'r list" where
  "ReadRaftState ps = clone (raftstate ps)"

definition RaftStateSize :: "('r, 'b) Persister \<Rightarrow> nat" where
  "RaftStateSize ps = length (raftstate ps)"

definition Save :: "'r list \<Rightarrow> 'b list \<Rightarrow> ('r, 'b) Persister \<Rightarrow> ('r, 'b) Persister" where
  "Save rs sn ps = ps\<lparr>raftstate := clone rs, snapshot := clone sn\<rparr>"

definition ReadSnapshot :: "('r, 'b) Persister \<Rightarrow> 'b list" where
  "ReadSnapshot ps = clone (snapshot ps)"

definition SnapshotSize :: "('r, 'b) Persister \<Rightarrow> nat" where
  "SnapshotSize ps = length (snapshot ps)"

lemma clone_id [simp]: "clone xs = xs"
  by (simp add: clone_def map_nth)

lemma Persister_laws [simp]:
  "ReadRaftState (Save rs sn ps) = rs" "ReadSnapshot (Save rs sn ps) = sn"
  "Checkpoint ps = ps" "Save rs' sn' (Save rs sn ps) = Save rs' sn' ps"
  "Save (ReadRaftState ps) (ReadSnapshot ps) ps = ps"
  "ReadRaftState MakePersister = []" "ReadSnapshot MakePersister = []"
  by (simp_all add: ReadRaftState_def ReadSnapshot_def Save_def Checkpoint_def MakePersister_def)

section \<open>Stable storage as an interface\<close>

text \<open>
  What Raft relies on: a saved pair is read back, both halves belong to the same save, and copying
  the storage for a restarted server changes neither.
\<close>

locale stable_storage =
  fixes save :: "'x \<Rightarrow> 'y \<Rightarrow> 'p \<Rightarrow> 'p"
    and read_state :: "'p \<Rightarrow> 'x"
    and read_snap :: "'p \<Rightarrow> 'y"
    and copy :: "'p \<Rightarrow> 'p"
  assumes read_state_save: "read_state (save x y p) = x"
    and read_snap_save: "read_snap (save x y p) = y"
    and save_save: "save x' y' (save x y p) = save x' y' p"
    and read_copy: "read_state (copy p) = read_state p" "read_snap (copy p) = read_snap p"
begin

text \<open>Re-saving only one half keeps the other one, whatever happened before.\<close>

lemma resave_state: "read_snap (save x (read_snap p) p) = read_snap p"
  by (rule read_snap_save)

text \<open>After any sequence of saves a restarted server reads the pair of the last one.\<close>

lemma last_save_wins:
  "read_state (copy (fold (\<lambda>(x, y). save x y) (ss @ [(x, y)]) p)) = x \<and>
   read_snap (copy (fold (\<lambda>(x, y). save x y) (ss @ [(x, y)]) p)) = y"
  by (simp add: read_copy read_state_save read_snap_save)

end

interpretation persister: stable_storage Save ReadRaftState ReadSnapshot Checkpoint
  by unfold_locales simp_all

end
