(* ===== verification/RaftNode.thy ===== *)
theory RaftNode
  imports Conflict Persister
begin

text \<open>
  One Raft peer: \<open>raft.go\<close>, \<open>handlers.go\<close>, \<open>election.go\<close>, \<open>replication.go\<close>, \<open>apply.go\<close> and
  \<open>callPeer\<close> of \<open>rpc.go\<close> under \<open>src/raft1/\<close>. Every critical section of the mutex \<open>rf.mu\<close> is one
  definition from the state before to the state after it, together with what it sends; \<open>None\<close> is a
  panic (an index out of range). The clock and the random part of the election timeout are
  arguments. The buffered channel \<open>rf.commit\<close> is the number of signals pending in it; its capacity
  is not modelled, so a send never waits. Messages for \<open>rf.applyCh\<close> are results.
\<close>

section \<open>State\<close>

datatype Role = Follower | Candidate | Leader

text \<open>
  The persisted byte string is modelled by the sequence of values a \<open>labgob\<close> encoder wrote: Raft
  writes integers and one slice of log entries, and decoding a value of another type, or past the
  end, is an error.
\<close>

datatype 'c gobval = GobInt int | GobEntries "'c LogEntry list"

fun Decode_int :: "'c gobval list \<Rightarrow> (int \<times> 'c gobval list) option" where
  "Decode_int (GobInt i # r) = Some (i, r)"
| "Decode_int _ = None"

fun Decode_entries :: "'c gobval list \<Rightarrow> ('c LogEntry list \<times> 'c gobval list) option" where
  "Decode_entries (GobEntries es # r) = Some (es, r)"
| "Decode_entries _ = None"

record ('c, 'b) Raft =
  me :: nat
  npeers :: nat
  CurrentTerm :: int
  VotedFor :: int
  rf_Role :: Role
  rf_log :: "'c raftLog"
  commitIndex :: int
  lastApplied :: int
  nextIndex :: "int list"
  matchIndex :: "int list"
  lastReset :: int
  electionTimeout :: int
  persister :: "('c gobval, 'b) Persister"
  commit :: nat

section \<open>raft.go\<close>

definition GetState :: "('c, 'b) Raft \<Rightarrow> int \<times> bool" where
  "GetState rf = (CurrentTerm rf, rf_Role rf = Leader)"

definition encodeRaftState :: "('c, 'b) Raft \<Rightarrow> 'c gobval list" where
  "encodeRaftState rf =
     [GobInt (CurrentTerm rf), GobInt (VotedFor rf), GobEntries (persistEntries (rf_log rf)),
      GobInt (snapshotIndex (rf_log rf)), GobInt (snapshotTerm (rf_log rf))]"

definition persist :: "('c, 'b) Raft \<Rightarrow> ('c, 'b) Raft" where
  "persist rf = rf\<lparr>persister := Save (encodeRaftState rf) (ReadSnapshot (persister rf)) (persister rf)\<rparr>"

definition readPersist :: "'c gobval list \<Rightarrow> ('c, 'b) Raft \<Rightarrow> ('c, 'b) Raft option" where
  "readPersist data rf =
     (if data = [] then Some rf
      else do {
        (currentTerm, d1) \<leftarrow> Decode_int data;
        (votedFor, d2) \<leftarrow> Decode_int d1;
        (es, d3) \<leftarrow> Decode_entries d2;
        let (snapIdx, snapTrm) =
          (case Decode_int d3 of
             None \<Rightarrow> (0, 0)
           | Some (si, d4) \<Rightarrow> (si, case Decode_int d4 of None \<Rightarrow> 0 | Some (st, _) \<Rightarrow> st));
        let rf1 = rf\<lparr>CurrentTerm := currentTerm, VotedFor := votedFor,
                     rf_log := restoreLog es snapIdx snapTrm\<rparr>;
        Some (if snapshotIndex (rf_log rf1) > 0
              then rf1\<lparr>commitIndex := snapshotIndex (rf_log rf1),
                       lastApplied := snapshotIndex (rf_log rf1)\<rparr>
              else rf1)
      })"

text \<open>The size function says how many bytes the encoder uses for a value.\<close>

definition PersistBytes :: "('c gobval \<Rightarrow> nat) \<Rightarrow> ('c, 'b) Raft \<Rightarrow> nat" where
  "PersistBytes bytes rf = sum_list (map bytes (ReadRaftState (persister rf)))"

definition raft_Snapshot :: "int \<Rightarrow> 'b list \<Rightarrow> ('c, 'b) Raft \<Rightarrow> ('c, 'b) Raft option" where
  "raft_Snapshot index snap rf =
     (if index \<le> snapshotIndex (rf_log rf) then Some rf
      else do {
        l \<leftarrow> snapshotAt (rf_log rf) index;
        let rf1 = rf\<lparr>rf_log := l\<rparr>;
        Some (rf1\<lparr>persister := Save (encodeRaftState rf1) snap (persister rf1)\<rparr>)
      })"

definition raft_Start :: "'c \<Rightarrow> ('c, 'b) Raft \<Rightarrow> ('c, 'b) Raft \<times> int \<times> int \<times> bool" where
  "raft_Start command rf =
     (if rf_Role rf \<noteq> Leader then (rf, -1, -1, False)
      else let rf1 = persist (rf\<lparr>rf_log := log_append (rf_log rf)
                                    [\<lparr>Term = CurrentTerm rf, Command = Some command\<rparr>]\<rparr>)
           in (rf1, lastIndex (rf_log rf1), CurrentTerm rf1, True))"

text \<open>\<open>rand.Intn(250)\<close> is the argument \<open>r\<close>.\<close>

definition resetElectionTimeout :: "int \<Rightarrow> ('c, 'b) Raft \<Rightarrow> ('c, 'b) Raft" where
  "resetElectionTimeout r rf = rf\<lparr>electionTimeout := 300 + r\<rparr>"

definition raft_Make ::
  "nat \<Rightarrow> nat \<Rightarrow> ('c gobval, 'b) Persister \<Rightarrow> int \<Rightarrow> int \<Rightarrow> ('c, 'b) Raft option" where
  "raft_Make n i ps now r =
     readPersist (ReadRaftState ps)
       (resetElectionTimeout r
         \<lparr>me = i, npeers = n, CurrentTerm = 0, VotedFor = -1, rf_Role = Follower,
          rf_log = newRaftLog, commitIndex = 0, lastApplied = 0, nextIndex = [], matchIndex = [],
          lastReset = now, electionTimeout = 0, persister = ps, commit = 0\<rparr>)"

section \<open>handlers.go\<close>

definition becomeFollower :: "int \<Rightarrow> ('c, 'b) Raft \<Rightarrow> ('c, 'b) Raft" where
  "becomeFollower term rf =
     persist (rf\<lparr>CurrentTerm := term, rf_Role := Follower, VotedFor := -1\<rparr>)"

definition RequestVote ::
  "int \<Rightarrow> RequestVoteArgs \<Rightarrow> ('c, 'b) Raft \<Rightarrow> (('c, 'b) Raft \<times> RequestVoteReply) option" where
  "RequestVote now args rf =
     (if rva_Term args < CurrentTerm rf
      then Some (rf, zero_rvr\<lparr>rvr_Term := CurrentTerm rf\<rparr>)
      else do {
        let rf1 = (if rva_Term args > CurrentTerm rf then becomeFollower (rva_Term args) rf else rf);
        granted \<leftarrow>
          (if VotedFor rf1 = -1 \<or> VotedFor rf1 = rva_CandidateID args
           then do {
             lt \<leftarrow> lastTerm (rf_log rf1);
             Some (rva_LastLogTerm args > lt \<or>
                   (rva_LastLogTerm args = lt \<and> rva_LastLogIndex args \<ge> lastIndex (rf_log rf1)))
           }
           else Some False);
        let rf2 = (if granted
                   then rf1\<lparr>VotedFor := rva_CandidateID args, lastReset := now\<rparr> else rf1);
        Some (persist rf2, \<lparr>rvr_Term = CurrentTerm rf1, rvr_VoteGranted = granted\<rparr>)
      })"

definition AppendEntries ::
  "int \<Rightarrow> 'c AppendEntriesArgs \<Rightarrow> ('c, 'b) Raft \<Rightarrow> (('c, 'b) Raft \<times> AppendEntriesReply) option" where
  "AppendEntries now args rf =
     (if aea_Term args < CurrentTerm rf
      then Some (rf, zero_aer\<lparr>aer_Term := CurrentTerm rf, aer_Success := False\<rparr>)
      else do {
        let rf1 = (if aea_Term args > CurrentTerm rf then becomeFollower (aea_Term args) rf else rf);
        let rf2 = rf1\<lparr>rf_Role := Follower, lastReset := now\<rparr>;
        let reply = zero_aer\<lparr>aer_Term := CurrentTerm rf1\<rparr>;
        (i, conflict) \<leftarrow> checkAppend (rf_log rf2) (aea_PrevLogIndex args) (aea_PrevLogTerm args)
                          (aea_Entries args);
        if conflict \<noteq> no_conflict
        then Some (rf2, reply\<lparr>aer_Success := False, aer_XLen := XLen conflict,
                              aer_XTerm := XTerm conflict, aer_XIndex := XIndex conflict\<rparr>)
        else do {
          let logChanged = (i < int (length (aea_Entries args)));
          rf3 \<leftarrow>
            (if logChanged
             then do {
               l \<leftarrow> truncateTo (rf_log rf2) (aea_PrevLogIndex args + 1 + i);
               new \<leftarrow> go_from (aea_Entries args) i;
               Some (rf2\<lparr>rf_log := log_append l new\<rparr>)
             }
             else Some rf2);
          let rf4 =
            (if aea_LeaderCommit args > commitIndex rf3
             then rf3\<lparr>commitIndex := max (snapshotIndex (rf_log rf3))
                        (min (aea_LeaderCommit args)
                             (aea_PrevLogIndex args + int (length (aea_Entries args)))),
                      commit := commit rf3 + 1\<rparr>
             else rf3);
          let rf5 = (if logChanged then persist rf4 else rf4);
          Some (rf5, reply\<lparr>aer_Success := True\<rparr>)
        }
      })"

text \<open>The third result is the message of the goroutine the handler starts, if it starts one.\<close>

definition InstallSnapshot ::
  "int \<Rightarrow> 'b InstallSnapshotArgs \<Rightarrow> ('c, 'b) Raft \<Rightarrow>
   (('c, 'b) Raft \<times> InstallSnapshotReply \<times> ('c, 'b) ApplyMsg list) option" where
  "InstallSnapshot now args rf =
     (if isa_Term args < CurrentTerm rf
      then Some (rf, \<lparr>isr_Term = CurrentTerm rf\<rparr>, [])
      else do {
        let rf1 = (if isa_Term args > CurrentTerm rf then becomeFollower (isa_Term args) rf else rf);
        let rf2 = rf1\<lparr>rf_Role := Follower, lastReset := now\<rparr>;
        let reply = \<lparr>isr_Term = CurrentTerm rf1\<rparr>;
        if isa_LastIncludedIndex args \<le> snapshotIndex (rf_log rf2) then Some (rf2, reply, [])
        else do {
          l \<leftarrow> installSnapshot (rf_log rf2) (isa_LastIncludedIndex args) (isa_LastIncludedTerm args);
          let rf3 = rf2\<lparr>rf_log := l,
                        commitIndex := max (commitIndex rf2) (isa_LastIncludedIndex args),
                        lastApplied := max (lastApplied rf2) (isa_LastIncludedIndex args)\<rparr>;
          let rf4 = rf3\<lparr>persister := Save (encodeRaftState rf3) (isa_Data args) (persister rf3)\<rparr>;
          let rf5 = rf4\<lparr>commit := commit rf4 + 1\<rparr>;
          Some (rf5, reply,
            [\<lparr>CommandValid = False, am_Command = None, CommandIndex = -1, SnapshotValid = True,
              am_Snapshot = Some (isa_Data args), SnapshotTerm = isa_LastIncludedTerm args,
              SnapshotIndex = isa_LastIncludedIndex args\<rparr>])
        }
      })"

section \<open>callPeer of rpc.go\<close>

text \<open>
  An outbound call is two critical sections with the RPC between them. The first returns
  \<open>Some None\<close> when the peer is not in the wanted role, the second leaves the state alone when the
  role or the term has changed since. \<open>v\<close> stands for the variables the callback captures besides
  the peer.
\<close>

definition callPeer_begin ::
  "Role \<Rightarrow> (('c, 'b) Raft \<Rightarrow> 'a option) \<Rightarrow> ('c, 'b) Raft \<Rightarrow> ('a \<times> int) option option" where
  "callPeer_begin want build rf =
     (if rf_Role rf \<noteq> want then Some None
      else do { args \<leftarrow> build rf; Some (Some (args, CurrentTerm rf)) })"

definition callPeer_finish ::
  "Role \<Rightarrow> int \<Rightarrow> (('c, 'b) Raft \<Rightarrow> 'v \<Rightarrow> (('c, 'b) Raft \<times> 'v) option) \<Rightarrow>
   ('c, 'b) Raft \<Rightarrow> 'v \<Rightarrow> (('c, 'b) Raft \<times> 'v) option" where
  "callPeer_finish want term apply rf v =
     (if rf_Role rf \<noteq> want \<or> CurrentTerm rf \<noteq> term then Some (rf, v) else apply rf v)"

section \<open>election.go\<close>

definition ticker_fires :: "int \<Rightarrow> ('c, 'b) Raft \<Rightarrow> bool" where
  "ticker_fires now rf \<longleftrightarrow> rf_Role rf \<noteq> Leader \<and> now - lastReset rf \<ge> electionTimeout rf"

text \<open>The first critical section of \<open>startElection\<close>; the local variable \<open>votes\<close> then starts at 1.\<close>

definition startElection :: "int \<Rightarrow> int \<Rightarrow> ('c, 'b) Raft \<Rightarrow> ('c, 'b) Raft" where
  "startElection now r rf =
     persist (resetElectionTimeout r
       (rf\<lparr>CurrentTerm := CurrentTerm rf + 1, VotedFor := int (me rf), lastReset := now,
           rf_Role := Candidate\<rparr>))"

definition build_RequestVote :: "('c, 'b) Raft \<Rightarrow> RequestVoteArgs option" where
  "build_RequestVote rf = do {
     lt \<leftarrow> lastTerm (rf_log rf);
     Some \<lparr>rva_Term = CurrentTerm rf, rva_CandidateID = int (me rf),
           rva_LastLogIndex = lastIndex (rf_log rf), rva_LastLogTerm = lt\<rparr>
   }"

text \<open>
  The reply callback. \<open>votes\<close> is the variable its election shares with the callbacks of the other
  peers; the result holds its new value.
\<close>

definition apply_RequestVote ::
  "nat \<Rightarrow> RequestVoteReply \<Rightarrow> ('c, 'b) Raft \<Rightarrow> ('c, 'b) Raft \<times> nat" where
  "apply_RequestVote votes reply rf =
     (if rvr_Term reply > CurrentTerm rf then (becomeFollower (rvr_Term reply) rf, votes)
      else if rvr_VoteGranted reply
      then let votes' = votes + 1 in
        (if votes' > npeers rf div 2
         then rf\<lparr>rf_Role := Leader,
                 nextIndex := replicate (npeers rf) (log_len (rf_log rf)),
                 matchIndex := replicate (npeers rf) (snapshotIndex (rf_log rf))\<rparr>
         else rf, votes')
      else (rf, votes))"

section \<open>replication.go\<close>

definition needs_snapshot :: "nat \<Rightarrow> ('c, 'b) Raft \<Rightarrow> bool option" where
  "needs_snapshot p rf = do {
     ni \<leftarrow> go_index (nextIndex rf) (int p);
     Some (ni \<le> snapshotIndex (rf_log rf))
   }"

definition build_AppendEntries :: "nat \<Rightarrow> ('c, 'b) Raft \<Rightarrow> 'c AppendEntriesArgs option" where
  "build_AppendEntries p rf = do {
     ni \<leftarrow> go_index (nextIndex rf) (int p);
     let prevLogIndex = ni - 1;
     e \<leftarrow> log_entry (rf_log rf) prevLogIndex;
     let es = (if log_len (rf_log rf) > ni then log_since (rf_log rf) ni else []);
     Some \<lparr>aea_Term = CurrentTerm rf, aea_LeaderID = int (me rf), aea_PrevLogIndex = prevLogIndex,
           aea_PrevLogTerm = Term e, aea_Entries = es, aea_LeaderCommit = commitIndex rf\<rparr>
   }"

text \<open>How many peers hold index \<open>n\<close> according to \<open>matchIndex\<close>, the leader included.\<close>

definition replica_count :: "int \<Rightarrow> ('c, 'b) Raft \<Rightarrow> nat" where
  "replica_count n rf =
     1 + length (filter (\<lambda>(p, m). p \<noteq> me rf \<and> m \<ge> n) (enumerate 0 (matchIndex rf)))"

function updateCommitIndex_loop :: "int \<Rightarrow> ('c, 'b) Raft \<Rightarrow> ('c, 'b) Raft option" where
  "updateCommitIndex_loop n rf =
     (if n > commitIndex rf \<and> n > snapshotIndex (rf_log rf)
      then (case log_entry (rf_log rf) n of
              None \<Rightarrow> None
            | Some e \<Rightarrow>
                if Term e \<noteq> CurrentTerm rf then updateCommitIndex_loop (n - 1) rf
                else if replica_count n rf > npeers rf div 2
                then Some (rf\<lparr>commitIndex := n, commit := commit rf + 1\<rparr>)
                else updateCommitIndex_loop (n - 1) rf)
      else Some rf)"
  by pat_completeness auto
termination
  by (relation "measure (\<lambda>(n, rf). nat (n - snapshotIndex (rf_log rf)))") auto

declare updateCommitIndex_loop.simps [simp del]

definition updateCommitIndex :: "('c, 'b) Raft \<Rightarrow> ('c, 'b) Raft option" where
  "updateCommitIndex rf = updateCommitIndex_loop (lastIndex (rf_log rf)) rf"

definition apply_AppendEntries ::
  "nat \<Rightarrow> 'c AppendEntriesArgs \<Rightarrow> AppendEntriesReply \<Rightarrow> ('c, 'b) Raft \<Rightarrow> ('c, 'b) Raft option" where
  "apply_AppendEntries p args reply rf =
     (if aer_Term reply > CurrentTerm rf then Some (becomeFollower (aer_Term reply) rf)
      else if aer_Success reply
      then do {
        let newMatch = aea_PrevLogIndex args + int (length (aea_Entries args));
        m \<leftarrow> go_index (matchIndex rf) (int p);
        if newMatch > m
        then do {
          mi \<leftarrow> go_store (matchIndex rf) (int p) newMatch;
          ni \<leftarrow> go_store (nextIndex rf) (int p) (newMatch + 1);
          updateCommitIndex (rf\<lparr>matchIndex := mi, nextIndex := ni\<rparr>)
        }
        else Some rf
      }
      else do {
        n \<leftarrow> backoffNextIndex (aea_PrevLogIndex args) (rf_log rf) reply;
        ni \<leftarrow> go_store (nextIndex rf) (int p) n;
        Some (rf\<lparr>nextIndex := ni\<rparr>)
      })"

definition build_InstallSnapshot :: "('c, 'b) Raft \<Rightarrow> 'b InstallSnapshotArgs option" where
  "build_InstallSnapshot rf =
     Some \<lparr>isa_Term = CurrentTerm rf, isa_LeaderID = int (me rf),
           isa_LastIncludedIndex = snapshotIndex (rf_log rf),
           isa_LastIncludedTerm = snapshotTerm (rf_log rf),
           isa_Data = ReadSnapshot (persister rf)\<rparr>"

definition apply_InstallSnapshot ::
  "nat \<Rightarrow> 'b InstallSnapshotArgs \<Rightarrow> InstallSnapshotReply \<Rightarrow> ('c, 'b) Raft \<Rightarrow> ('c, 'b) Raft option" where
  "apply_InstallSnapshot p args reply rf =
     (if isr_Term reply > CurrentTerm rf then Some (becomeFollower (isr_Term reply) rf)
      else do {
        n \<leftarrow> go_index (nextIndex rf) (int p);
        ni \<leftarrow> go_store (nextIndex rf) (int p) (max n (isa_LastIncludedIndex args + 1));
        m \<leftarrow> go_index (matchIndex rf) (int p);
        mi \<leftarrow> go_store (matchIndex rf) (int p) (max m (isa_LastIncludedIndex args));
        Some (rf\<lparr>nextIndex := ni, matchIndex := mi\<rparr>)
      })"

section \<open>apply.go\<close>

definition command_msg :: "int \<Rightarrow> 'c LogEntry \<Rightarrow> ('c, 'b) ApplyMsg" where
  "command_msg i e = \<lparr>CommandValid = True, am_Command = Command e, CommandIndex = i,
     SnapshotValid = False, am_Snapshot = None, SnapshotTerm = 0, SnapshotIndex = 0\<rparr>"

function apply_loop ::
  "int \<Rightarrow> ('c, 'b) Raft \<Rightarrow> ('c, 'b) ApplyMsg list \<Rightarrow> (('c, 'b) Raft \<times> ('c, 'b) ApplyMsg list) option" where
  "apply_loop i rf msgs =
     (if i \<le> commitIndex rf
      then (case log_entry (rf_log rf) i of
              None \<Rightarrow> None
            | Some e \<Rightarrow> apply_loop (i + 1) (rf\<lparr>lastApplied := lastApplied rf + 1\<rparr>)
                         (msgs @ [command_msg i e]))
      else Some (rf, msgs))"
  by pat_completeness auto
termination
  by (relation "measure (\<lambda>(i, rf, msgs). nat (commitIndex rf + 1 - i))") auto

declare apply_loop.simps [simp del]

text \<open>One wake-up of the apply loop: it takes a signal and returns the messages it then sends.\<close>

definition applyCommand :: "('c, 'b) Raft \<Rightarrow> (('c, 'b) Raft \<times> ('c, 'b) ApplyMsg list) option" where
  "applyCommand rf =
     (let rf1 = rf\<lparr>commit := commit rf - 1\<rparr> in apply_loop (lastApplied rf1 + 1) rf1 [])"

end
