(* ===== verification/RaftInv.thy ===== *)
theory RaftInv
  imports RaftNode
begin

text \<open>
  Invariants and functional correctness of a single Raft peer: what is on stable storage is what
  the peer would need after a crash, terms never go back, a vote is given at most once per term and
  only to an up-to-date candidate, AppendEntries installs exactly the leader's entries, a leader
  commits only entries of its own term that a majority holds, and the apply loop delivers every
  committed entry once and in order.
\<close>

section \<open>Log positions\<close>

text \<open>
  Raft's voting rule compares the last entries of two logs by term first and index second. The
  order is the lexicographic one, made available to the library's automation as a linear order.
\<close>

datatype log_pos = LogPos (pos_term: int) (pos_index: int)

instantiation log_pos :: linorder
begin

definition less_eq_log_pos :: "log_pos \<Rightarrow> log_pos \<Rightarrow> bool" where
  "less_eq_log_pos p q \<longleftrightarrow> pos_term p < pos_term q \<or> pos_term p = pos_term q \<and> pos_index p \<le> pos_index q"

definition less_log_pos :: "log_pos \<Rightarrow> log_pos \<Rightarrow> bool" where
  "less_log_pos p q \<longleftrightarrow> pos_term p < pos_term q \<or> pos_term p = pos_term q \<and> pos_index p < pos_index q"

instance
  by standard (auto simp: less_eq_log_pos_def less_log_pos_def intro: log_pos.expand)

end

definition last_pos :: "'c raftLog \<Rightarrow> log_pos" where
  "last_pos l = LogPos (Term (last (entries l))) (lastIndex l)"

section \<open>The invariant of a peer\<close>

text \<open>
  Storage agrees with memory on what must survive a crash. A peer that has never saved anything
  is still in its initial state.
\<close>

definition durable :: "('c, 'b) Raft \<Rightarrow> bool" where
  "durable rf \<longleftrightarrow> ReadRaftState (persister rf) = encodeRaftState rf
     \<or> ReadRaftState (persister rf) = [] \<and> CurrentTerm rf = 0 \<and> VotedFor rf = -1
        \<and> rf_log rf = newRaftLog"

definition wf_raft :: "('c, 'b) Raft \<Rightarrow> bool" where
  "wf_raft rf \<longleftrightarrow> wf_log (rf_log rf) \<and> 0 \<le> snapIndex (rf_log rf) \<and> durable rf
     \<and> snapIndex (rf_log rf) \<le> lastApplied rf \<and> lastApplied rf \<le> commitIndex rf
     \<and> (rf_Role rf = Leader \<longrightarrow> length (nextIndex rf) = npeers rf \<and> length (matchIndex rf) = npeers rf)"

text \<open>What the protocol adds to it: every committed index is still in the log.\<close>

definition commit_in_log :: "('c, 'b) Raft \<Rightarrow> bool" where
  "commit_in_log rf \<longleftrightarrow> commitIndex rf < log_len (rf_log rf)"

lemma encodeRaftState_eq_iff:
  "encodeRaftState rf = encodeRaftState rf' \<longleftrightarrow>
     CurrentTerm rf = CurrentTerm rf' \<and> VotedFor rf = VotedFor rf' \<and> rf_log rf = rf_log rf'"
  by (auto simp: encodeRaftState_def persistEntries_def snapshotIndex_def snapshotTerm_def)

lemma encodeRaftState_cong:
  "CurrentTerm rf = CurrentTerm rf' \<Longrightarrow> VotedFor rf = VotedFor rf' \<Longrightarrow> rf_log rf = rf_log rf'
   \<Longrightarrow> encodeRaftState rf = encodeRaftState rf'"
  by (simp add: encodeRaftState_eq_iff)

lemma persist_fields [simp]:
  "me (persist rf) = me rf" "npeers (persist rf) = npeers rf"
  "CurrentTerm (persist rf) = CurrentTerm rf" "VotedFor (persist rf) = VotedFor rf"
  "rf_Role (persist rf) = rf_Role rf" "rf_log (persist rf) = rf_log rf"
  "commitIndex (persist rf) = commitIndex rf" "lastApplied (persist rf) = lastApplied rf"
  "nextIndex (persist rf) = nextIndex rf" "matchIndex (persist rf) = matchIndex rf"
  "lastReset (persist rf) = lastReset rf" "electionTimeout (persist rf) = electionTimeout rf"
  "commit (persist rf) = commit rf" "ReadRaftState (persister (persist rf)) = encodeRaftState rf"
  "ReadSnapshot (persister (persist rf)) = ReadSnapshot (persister rf)"
  by (simp_all add: persist_def)

lemma durable_persist [simp]: "durable (persist rf)"
  by (simp add: durable_def encodeRaftState_eq_iff)

lemma durable_cong:
  assumes "durable rf" "persister rf' = persister rf" "CurrentTerm rf' = CurrentTerm rf"
    "VotedFor rf' = VotedFor rf" "rf_log rf' = rf_log rf"
  shows "durable rf'"
  using assms encodeRaftState_cong [of rf rf'] by (auto simp: durable_def)

lemma becomeFollower_fields [simp]:
  "me (becomeFollower t rf) = me rf" "npeers (becomeFollower t rf) = npeers rf"
  "CurrentTerm (becomeFollower t rf) = t" "VotedFor (becomeFollower t rf) = -1"
  "rf_Role (becomeFollower t rf) = Follower" "rf_log (becomeFollower t rf) = rf_log rf"
  "commitIndex (becomeFollower t rf) = commitIndex rf" "lastApplied (becomeFollower t rf) = lastApplied rf"
  "nextIndex (becomeFollower t rf) = nextIndex rf" "matchIndex (becomeFollower t rf) = matchIndex rf"
  "commit (becomeFollower t rf) = commit rf" "durable (becomeFollower t rf)"
  by (simp_all add: becomeFollower_def)

lemma wf_becomeFollower [wf_intros]: "wf_raft rf \<Longrightarrow> wf_raft (becomeFollower t rf)"
  by (simp add: wf_raft_def)

section \<open>Reading a handler's outcome\<close>

text \<open>What both log handlers do first, when the caller's term is not old.\<close>

definition observe_term :: "int \<Rightarrow> int \<Rightarrow> ('c, 'b) Raft \<Rightarrow> ('c, 'b) Raft" where
  "observe_term now t rf =
     (if t > CurrentTerm rf then becomeFollower t rf else rf)\<lparr>rf_Role := Follower, lastReset := now\<rparr>"

lemma observe_term_fields [simp]:
  "me (observe_term now t rf) = me rf" "npeers (observe_term now t rf) = npeers rf"
  "CurrentTerm (observe_term now t rf) = max t (CurrentTerm rf)"
  "VotedFor (observe_term now t rf) = (if t > CurrentTerm rf then -1 else VotedFor rf)"
  "rf_Role (observe_term now t rf) = Follower" "rf_log (observe_term now t rf) = rf_log rf"
  "commitIndex (observe_term now t rf) = commitIndex rf"
  "lastApplied (observe_term now t rf) = lastApplied rf"
  "nextIndex (observe_term now t rf) = nextIndex rf" "matchIndex (observe_term now t rf) = matchIndex rf"
  by (auto simp: observe_term_def)

lemma durable_observe_term [simp]: "durable rf \<Longrightarrow> durable (observe_term now t rf)"
  using durable_cong [of rf "rf\<lparr>rf_Role := Follower, lastReset := now\<rparr>"]
    durable_cong [of "becomeFollower t rf" "(becomeFollower t rf)\<lparr>rf_Role := Follower, lastReset := now\<rparr>"]
  by (simp add: observe_term_def)

text \<open>The new log of an accepted AppendEntries: the entries from the first mismatch on are replaced.\<close>

definition merged :: "'c raftLog \<Rightarrow> int \<Rightarrow> 'c LogEntry list \<Rightarrow> nat \<Rightarrow> 'c raftLog \<Rightarrow> bool" where
  "merged l prev es m l' \<longleftrightarrow>
     (if m < length es
      then Option.bind (truncateTo l (prev + 1 + int m)) (\<lambda>c. Some (log_append c (drop m es))) = Some l'
      else l' = l)"

definition new_commit :: "'c AppendEntriesArgs \<Rightarrow> int \<Rightarrow> 'c raftLog \<Rightarrow> int" where
  "new_commit args ci l = (if aea_LeaderCommit args > ci
     then max (snapIndex l) (min (aea_LeaderCommit args)
            (aea_PrevLogIndex args + int (length (aea_Entries args))))
     else ci)"

definition advance_commit :: "'c AppendEntriesArgs \<Rightarrow> ('c, 'b) Raft \<Rightarrow> ('c, 'b) Raft" where
  "advance_commit args rf = (if aea_LeaderCommit args > commitIndex rf
     then rf\<lparr>commitIndex := new_commit args (commitIndex rf) (rf_log rf), commit := commit rf + 1\<rparr>
     else rf)"

lemma advance_commit_fields [simp]:
  "me (advance_commit args rf) = me rf" "npeers (advance_commit args rf) = npeers rf"
  "CurrentTerm (advance_commit args rf) = CurrentTerm rf" "VotedFor (advance_commit args rf) = VotedFor rf"
  "rf_Role (advance_commit args rf) = rf_Role rf" "rf_log (advance_commit args rf) = rf_log rf"
  "lastApplied (advance_commit args rf) = lastApplied rf" "persister (advance_commit args rf) = persister rf"
  "commitIndex (advance_commit args rf) = new_commit args (commitIndex rf) (rf_log rf)"
  by (simp_all add: advance_commit_def new_commit_def)

lemma checkAppend_count:
  assumes "wf_log l" "checkAppend l prev pt es = Some (i, c)"
  obtains m where "m \<le> length es" "i = int m"
proof (cases "term_at l prev = Some pt")
  case True
  with assms that show ?thesis by (metis checkAppend_match option.inject prod.inject)
next
  case False
  have "i = 0"
  proof (cases "term_at l prev")
    case None
    with assms show ?thesis by (auto simp: checkAppend_out_of_window term_at_None_iff)
  next
    case (Some s)
    with False assms show ?thesis
      by (metis checkAppend_mismatch [OF assms(1)] option.inject prod.inject)
  qed
  with that [of 0] show ?thesis by simp
qed

lemma AppendEntries_fresh:
  assumes "CurrentTerm rf \<le> aea_Term args"
  shows "AppendEntries now args rf = (let rf2 = observe_term now (aea_Term args) rf in do {
     (i, c) \<leftarrow> checkAppend (rf_log rf) (aea_PrevLogIndex args) (aea_PrevLogTerm args) (aea_Entries args);
     if c \<noteq> no_conflict then Some (rf2, conflict_reply (aea_Term args) c)
     else do {
       rf3 \<leftarrow> (if i < int (length (aea_Entries args))
          then do {
            l \<leftarrow> truncateTo (rf_log rf) (aea_PrevLogIndex args + 1 + i);
            new \<leftarrow> go_from (aea_Entries args) i;
            Some (rf2\<lparr>rf_log := log_append l new\<rparr>)
          }
          else Some rf2);
       let rf4 = advance_commit args rf3;
       Some (if i < int (length (aea_Entries args)) then persist rf4 else rf4,
             zero_aer\<lparr>aer_Term := aea_Term args, aer_Success := True\<rparr>)
     }
   })"
  using assms
  by (auto simp: AppendEntries_def observe_term_def new_commit_def advance_commit_def
        conflict_reply_def Let_def snapshotIndex_def intro!: bind_option_cong)

lemma AppendEntries_cases:
  assumes "AppendEntries now args rf = Some (rf', reply)" "wf_log (rf_log rf)"
  obtains (stale) "aea_Term args < CurrentTerm rf" "rf' = rf"
      "reply = zero_aer\<lparr>aer_Term := CurrentTerm rf, aer_Success := False\<rparr>"
  | (reject) i c where "CurrentTerm rf \<le> aea_Term args"
      "checkAppend (rf_log rf) (aea_PrevLogIndex args) (aea_PrevLogTerm args) (aea_Entries args) = Some (i, c)"
      "c \<noteq> no_conflict" "rf' = observe_term now (aea_Term args) rf"
      "reply = conflict_reply (aea_Term args) c"
  | (accept) i l where "CurrentTerm rf \<le> aea_Term args"
      "checkAppend (rf_log rf) (aea_PrevLogIndex args) (aea_PrevLogTerm args) (aea_Entries args)
         = Some (int i, no_conflict)"
      "i \<le> length (aea_Entries args)"
      "merged (rf_log rf) (aea_PrevLogIndex args) (aea_Entries args) i l"
      "rf_log rf' = l" "CurrentTerm rf' = aea_Term args" "rf_Role rf' = Follower"
      "VotedFor rf' = (if aea_Term args > CurrentTerm rf then -1 else VotedFor rf)"
      "commitIndex rf' = new_commit args (commitIndex rf) l" "lastApplied rf' = lastApplied rf"
      "me rf' = me rf" "npeers rf' = npeers rf" "durable rf \<longrightarrow> durable rf'"
      "reply = zero_aer\<lparr>aer_Term := aea_Term args, aer_Success := True\<rparr>"
proof (cases "aea_Term args < CurrentTerm rf")
  case True
  with assms(1) show ?thesis by (intro stale) (auto simp: AppendEntries_def)
next
  case False
  then have fresh: "CurrentTerm rf \<le> aea_Term args" by simp
  let ?chk = "checkAppend (rf_log rf) (aea_PrevLogIndex args) (aea_PrevLogTerm args) (aea_Entries args)"
  define rf2 where "rf2 = observe_term now (aea_Term args) rf"
  obtain i c where chk: "?chk = Some (i, c)" using checkAppend_total [OF assms(2)] by fastforce
  show ?thesis
  proof (cases "c = no_conflict")
    case conflict: False
    with assms(1) chk show ?thesis by (intro reject [OF fresh chk]) (auto simp: AppendEntries_fresh [OF fresh])
  next
    case True
    obtain m where m: "m \<le> length (aea_Entries args)" "i = int m"
      using checkAppend_count [OF assms(2) chk] .
    note ae = assms(1) [unfolded AppendEntries_fresh [OF fresh], folded rf2_def, unfolded Let_def
        chk [unfolded m(2) True]]
    have eq: "(\<exists>c. m < length (aea_Entries args) \<and>
          truncateTo (rf_log rf) (aea_PrevLogIndex args + 1 + int m) = Some c \<and>
          rf' = persist (advance_commit args (rf2\<lparr>rf_log := log_append c (drop m (aea_Entries args))\<rparr>)))
        \<or> m = length (aea_Entries args) \<and> rf' = advance_commit args rf2"
      and rep: "reply = zero_aer\<lparr>aer_Term := aea_Term args, aer_Success := True\<rparr>"
      using ae m(1) by (cases "m < length (aea_Entries args)"; force simp: bind_Some_iff go_from_def)+
    have mg: "merged (rf_log rf) (aea_PrevLogIndex args) (aea_Entries args) m (rf_log rf')"
      using eq by (auto simp: merged_def rf2_def)
    have rest: "CurrentTerm rf' = aea_Term args" "rf_Role rf' = Follower"
      "VotedFor rf' = (if aea_Term args > CurrentTerm rf then -1 else VotedFor rf)"
      "commitIndex rf' = new_commit args (commitIndex rf) (rf_log rf')" "lastApplied rf' = lastApplied rf"
      "me rf' = me rf" "npeers rf' = npeers rf"
      using eq fresh by (auto simp: rf2_def)
    have "durable rf \<longrightarrow> durable rf'"
    proof
      assume d: "durable rf"
      from eq show "durable rf'"
      proof
        assume eq2: "m = length (aea_Entries args) \<and> rf' = advance_commit args rf2"
        have "durable rf2" using d by (simp add: rf2_def)
        then show ?thesis by (rule durable_cong) (use eq2 in auto)
      qed auto
    qed
    with mg rest rep m chk True show ?thesis by (intro accept [OF fresh _ m(1) mg]) auto
  qed
qed

section \<open>AppendEntries\<close>

lemma merged_spec:
  assumes "wf_log l" "snapIndex l \<le> prev" "prev < log_len l" "m \<le> length es"
    and matches: "\<And>k. k < m \<Longrightarrow> term_at l (prev + 1 + int k) = Some (Term (es ! k))"
    and "merged l prev es m l'"
  shows "wf_log l'" "snapIndex l' = snapIndex l"
    "log_len l' = (if m < length es then prev + 1 + int (length es) else log_len l)"
    "log_entry l' j = (if m < length es \<and> prev + 1 + int m \<le> j
                       then go_index es (j - prev - 1) else log_entry l j)"
proof -
  have cut: "snapIndex l < prev + 1 + int m" using assms(2) by simp
  have "prev + 1 + int m \<le> log_len l"
  proof (cases m)
    case (Suc k)
    with matches [of k] have "prev + 1 + int k < log_len l"
      by (auto simp: term_at_eq_Some log_entry_iff)
    with Suc show ?thesis by simp
  qed (use assms in simp)
  with cut obtain l'' where l'': "Option.bind (truncateTo l (prev + 1 + int m))
      (\<lambda>c. Some (log_append c (drop m es))) = Some l''" "wf_log l''" "snapIndex l'' = snapIndex l"
    "log_len l'' = prev + 1 + int m + int (length (drop m es))"
    "\<And>j. log_entry l'' j = (if j < prev + 1 + int m then log_entry l j
        else go_index (drop m es) (j - (prev + 1 + int m)))"
    by (metis rlog.splice [OF assms(1)])
  show "wf_log l'" using assms(1,6) l'' by (auto simp: merged_def split: if_splits)
  show "snapIndex l' = snapIndex l" using assms(6) l'' by (auto simp: merged_def split: if_splits)
  show "log_len l' = (if m < length es then prev + 1 + int (length es) else log_len l)"
    using assms(6) l'' by (auto simp: merged_def split: if_splits)
  show "log_entry l' j = (if m < length es \<and> prev + 1 + int m \<le> j
                       then go_index es (j - prev - 1) else log_entry l j)"
    using assms(4,6) l'' by (auto simp: merged_def go_index_drop algebra_simps split: if_splits)
qed

text \<open>An accepted request always carries a matching previous entry, or probes the dummy at 0.\<close>

lemma checkAppend_accepts:
  assumes "wf_log l" "0 \<le> snapIndex l" "checkAppend l prev pt es = Some (int m, no_conflict)"
  shows "snapIndex l \<le> prev" "prev < log_len l"
    "k < m \<Longrightarrow> term_at l (prev + 1 + int k) = Some (Term (es ! k))"
    "term_at l prev = Some pt \<Longrightarrow> m < length es \<Longrightarrow>
       term_at l (prev + 1 + int m) \<noteq> Some (Term (es ! m))"
proof -
  have at: "term_at l prev = Some pt \<or> prev = 0 \<and> term_at l 0 = Some 0"
    by (rule checkAppend_successD [OF assms])
  then show "snapIndex l \<le> prev" "prev < log_len l" by (auto simp: term_at_eq_Some log_entry_iff)
  have m0: "m = 0" if "term_at l prev \<noteq> Some pt"
  proof -
    from that at have "term_at l prev = Some 0" "0 \<noteq> pt" by auto
    with assms(3) show ?thesis
      by (metis checkAppend_mismatch [OF assms(1)] of_nat_eq_0_iff option.inject prod.inject)
  qed
  show "k < m \<Longrightarrow> term_at l (prev + 1 + int k) = Some (Term (es ! k))"
    using m0 assms(3)
    by (metis checkAppend_match [OF assms(1)] less_nat_zero_code of_nat_eq_iff option.inject prod.inject)
  show "term_at l prev = Some pt \<Longrightarrow> m < length es \<Longrightarrow>
      term_at l (prev + 1 + int m) \<noteq> Some (Term (es ! m))"
    using assms(3)
    by (metis checkAppend_match [OF assms(1)] of_nat_eq_iff option.inject prod.inject)
qed

lemma AppendEntries_total:
  assumes "wf_log (rf_log rf)" "0 \<le> snapIndex (rf_log rf)"
  shows "\<exists>rf' reply. AppendEntries now args rf = Some (rf', reply)"
proof (cases "CurrentTerm rf \<le> aea_Term args")
  case False
  then show ?thesis by (simp add: AppendEntries_def)
next
  case True
  let ?l = "rf_log rf" and ?prev = "aea_PrevLogIndex args" and ?es = "aea_Entries args"
  obtain i c where chk: "checkAppend ?l ?prev (aea_PrevLogTerm args) ?es = Some (i, c)"
    using checkAppend_total [OF assms(1)] by fastforce
  obtain m where m: "m \<le> length ?es" "i = int m" using checkAppend_count [OF assms(1) chk] .
  have "\<exists>c. truncateTo ?l (?prev + 1 + int m) = Some c" if "c = no_conflict"
  proof (rule truncateTo_exists [OF assms(1)])
    note acc = checkAppend_accepts [OF assms chk [unfolded m(2) that]]
    show "?prev + 1 + int m \<le> log_len ?l"
      using acc(2) acc(3) [of "m - 1"] by (cases m) (auto simp: term_at_eq_Some log_entry_iff)
  qed
  with chk m show ?thesis by (auto simp: AppendEntries_fresh [OF True] Let_def go_from_def)
qed

text \<open>
  The new log of an accepted request: below the first mismatch nothing changes, and the leader's
  entries stand at the indices after the previous entry.
\<close>

lemma AppendEntries_log:
  assumes "AppendEntries now args rf = Some (rf', reply)" "aer_Success reply"
    and "wf_log (rf_log rf)" "0 \<le> snapIndex (rf_log rf)"
  obtains m where "m \<le> length (aea_Entries args)"
    "\<And>k. k < m \<Longrightarrow> term_at (rf_log rf) (aea_PrevLogIndex args + 1 + int k)
             = Some (Term (aea_Entries args ! k))"
    "wf_log (rf_log rf')" "snapIndex (rf_log rf') = snapIndex (rf_log rf)"
    "log_len (rf_log rf') = (if m < length (aea_Entries args)
       then aea_PrevLogIndex args + 1 + int (length (aea_Entries args)) else log_len (rf_log rf))"
    "\<And>j. log_entry (rf_log rf') j =
       (if m < length (aea_Entries args) \<and> aea_PrevLogIndex args + 1 + int m \<le> j
        then go_index (aea_Entries args) (j - aea_PrevLogIndex args - 1) else log_entry (rf_log rf) j)"
    "snapIndex (rf_log rf) \<le> aea_PrevLogIndex args" "aea_PrevLogIndex args < log_len (rf_log rf)"
    "commitIndex rf' = new_commit args (commitIndex rf) (rf_log rf')"
    "CurrentTerm rf' = aea_Term args" "CurrentTerm rf \<le> aea_Term args"
  using assms(1,3)
proof (cases rule: AppendEntries_cases)
  case (accept i l)
  note acc = checkAppend_accepts [OF assms(3,4) accept(2)]
  note spec = merged_spec [OF assms(3) acc(1,2) accept(3) _ accept(4)]
  show ?thesis
    using accept by (intro that [of i] acc spec) (simp_all add: acc spec)
qed (use assms(2) in \<open>simp_all add: zero_aer_def\<close>)

text \<open>In every accepted case the follower now holds the leader's terms at the leader's indices.\<close>

lemma AppendEntries_installs_terms:
  assumes "AppendEntries now args rf = Some (rf', reply)" "aer_Success reply"
    and "wf_log (rf_log rf)" "0 \<le> snapIndex (rf_log rf)" "k < length (aea_Entries args)"
  shows "term_at (rf_log rf') (aea_PrevLogIndex args + 1 + int k) = Some (Term (aea_Entries args ! k))"
proof -
  obtain m where m: "\<And>k. k < m \<Longrightarrow> term_at (rf_log rf) (aea_PrevLogIndex args + 1 + int k)
             = Some (Term (aea_Entries args ! k))" "m \<le> length (aea_Entries args)"
    "\<And>j. log_entry (rf_log rf') j =
       (if m < length (aea_Entries args) \<and> aea_PrevLogIndex args + 1 + int m \<le> j
        then go_index (aea_Entries args) (j - aea_PrevLogIndex args - 1) else log_entry (rf_log rf) j)"
    by (rule AppendEntries_log [OF assms(1-4)]) blast
  show ?thesis
    using m assms(5) by (cases "k < m") (auto simp: term_at_def)
qed

end
