(* ===== verification/RaftOps.thy ===== *)
theory RaftOps
  imports RaftInv
begin

text \<open>
  The remaining operations of a Raft peer: each keeps the peer's invariant and what it does on
  every branch is stated. Voting, snapshots, the commit rule, the apply loop and crash recovery.
\<close>

section \<open>Terms never go back and stable storage follows\<close>

lemma wf_AppendEntries [wf_intros]:
  assumes "AppendEntries now args rf = Some (rf', reply)" "wf_raft rf"
    and "aea_LeaderCommit args \<le> aea_PrevLogIndex args + int (length (aea_Entries args))"
  shows "wf_raft rf'" "commitIndex rf \<le> commitIndex rf'" "CurrentTerm rf \<le> CurrentTerm rf'"
proof -
  have wfl: "wf_log (rf_log rf)" and sn: "0 \<le> snapIndex (rf_log rf)"
    using assms(2) by (auto simp: wf_raft_def)
  have "wf_raft rf' \<and> commitIndex rf \<le> commitIndex rf' \<and> CurrentTerm rf \<le> CurrentTerm rf'"
    using assms(1) wfl
  proof (cases rule: AppendEntries_cases)
    case (accept i l)
    note spec = merged_spec [OF wfl checkAppend_accepts(1,2) [OF wfl sn accept(2)] accept(3)
        checkAppend_accepts(3) [OF wfl sn accept(2)] accept(4)]
    have "commitIndex rf \<le> new_commit args (commitIndex rf) l"
      using assms(3) by (auto simp: new_commit_def)
    with accept spec assms(2) show ?thesis by (auto simp: wf_raft_def)
  qed (use assms(2) in \<open>auto simp: wf_raft_def\<close>)
  then show "wf_raft rf'" "commitIndex rf \<le> commitIndex rf'" "CurrentTerm rf \<le> CurrentTerm rf'"
    by simp_all
qed

section \<open>Voting\<close>

lemma RequestVote_cases:
  assumes "RequestVote now args rf = Some (rf', reply)" "wf_log (rf_log rf)"
  obtains (stale) "rva_Term args < CurrentTerm rf" "rf' = rf"
      "reply = zero_rvr\<lparr>rvr_Term := CurrentTerm rf\<rparr>"
  | (fresh) v where "CurrentTerm rf \<le> rva_Term args"
      "v = (if rva_Term args > CurrentTerm rf then -1 else VotedFor rf)"
      "rvr_VoteGranted reply \<longleftrightarrow> (v = -1 \<or> v = rva_CandidateID args) \<and>
         last_pos (rf_log rf) \<le> LogPos (rva_LastLogTerm args) (rva_LastLogIndex args)"
      "rvr_Term reply = rva_Term args" "CurrentTerm rf' = rva_Term args"
      "VotedFor rf' = (if rvr_VoteGranted reply then rva_CandidateID args else v)"
      "rf_Role rf' = (if rva_Term args > CurrentTerm rf then Follower else rf_Role rf)"
      "rf_log rf' = rf_log rf" "commitIndex rf' = commitIndex rf" "lastApplied rf' = lastApplied rf"
      "nextIndex rf' = nextIndex rf" "matchIndex rf' = matchIndex rf" "me rf' = me rf"
      "npeers rf' = npeers rf" "durable rf'"
proof (cases "rva_Term args < CurrentTerm rf")
  case True
  with assms(1) show ?thesis by (intro stale) (auto simp: RequestVote_def)
next
  case False
  have le: "LogPos (Term (last (entries (rf_log rf)))) (lastIndex (rf_log rf)) \<le> LogPos t i \<longleftrightarrow>
      t > Term (last (entries (rf_log rf))) \<or>
      t = Term (last (entries (rf_log rf))) \<and> i \<ge> lastIndex (rf_log rf)" for t i
    by (auto simp: less_eq_log_pos_def)
  show ?thesis
    by (rule fresh [of "if rva_Term args > CurrentTerm rf then -1 else VotedFor rf"])
       (use False assms(1) in
         \<open>auto simp: RequestVote_def Let_def wf_log_lastTerm [OF assms(2)] last_pos_def le
            split: if_splits\<close>)
qed

lemma RequestVote_total: "wf_log (rf_log rf) \<Longrightarrow> \<exists>rf' reply. RequestVote now args rf = Some (rf', reply)"
  by (auto simp: RequestVote_def Let_def wf_log_lastTerm)

lemma wf_RequestVote [wf_intros]:
  assumes "RequestVote now args rf = Some (rf', reply)" "wf_raft rf"
  shows "wf_raft rf'" "CurrentTerm rf \<le> CurrentTerm rf'"
proof -
  have "wf_log (rf_log rf)" using assms(2) by (simp add: wf_raft_def)
  with assms(1) have "wf_raft rf' \<and> CurrentTerm rf \<le> CurrentTerm rf'"
    by (cases rule: RequestVote_cases) (use assms(2) in \<open>auto simp: wf_raft_def\<close>)
  then show "wf_raft rf'" "CurrentTerm rf \<le> CurrentTerm rf'" by simp_all
qed

text \<open>A vote, once given in a term, is not given to anybody else in that term.\<close>

lemma RequestVote_keeps_vote:
  assumes "RequestVote now args rf = Some (rf', reply)" "wf_log (rf_log rf)"
    and "VotedFor rf \<noteq> -1" "CurrentTerm rf' = CurrentTerm rf"
  shows "VotedFor rf' = VotedFor rf"
  using assms(1,2) by (cases rule: RequestVote_cases) (use assms(3,4) in auto)

section \<open>Snapshots\<close>

lemma InstallSnapshot_cases:
  assumes "InstallSnapshot now args rf = Some (rf', reply, msgs)" "wf_log (rf_log rf)"
  obtains (stale) "isa_Term args < CurrentTerm rf" "rf' = rf" "isr_Term reply = CurrentTerm rf" "msgs = []"
  | (old) "CurrentTerm rf \<le> isa_Term args" "isa_LastIncludedIndex args \<le> snapIndex (rf_log rf)"
      "rf' = observe_term now (isa_Term args) rf" "isr_Term reply = isa_Term args" "msgs = []"
  | (install) l where "CurrentTerm rf \<le> isa_Term args" "snapIndex (rf_log rf) < isa_LastIncludedIndex args"
      "installSnapshot (rf_log rf) (isa_LastIncludedIndex args) (isa_LastIncludedTerm args) = Some l"
      "rf_log rf' = l" "CurrentTerm rf' = isa_Term args" "rf_Role rf' = Follower"
      "VotedFor rf' = (if isa_Term args > CurrentTerm rf then -1 else VotedFor rf)"
      "commitIndex rf' = max (commitIndex rf) (isa_LastIncludedIndex args)"
      "lastApplied rf' = max (lastApplied rf) (isa_LastIncludedIndex args)"
      "me rf' = me rf" "npeers rf' = npeers rf" "durable rf'"
      "ReadSnapshot (persister rf') = isa_Data args" "isr_Term reply = isa_Term args"
      "map (\<lambda>m. (SnapshotIndex m, SnapshotTerm m, am_Snapshot m)) msgs =
         [(isa_LastIncludedIndex args, isa_LastIncludedTerm args, Some (isa_Data args))]"
proof (cases "isa_Term args < CurrentTerm rf")
  case True
  with assms(1) show ?thesis by (intro stale) (auto simp: InstallSnapshot_def)
next
  case False
  then have fresh: "CurrentTerm rf \<le> isa_Term args" by simp
  have head: "InstallSnapshot now args rf = (let rf2 = observe_term now (isa_Term args) rf;
      reply = \<lparr>isr_Term = isa_Term args\<rparr> in
      if isa_LastIncludedIndex args \<le> snapIndex (rf_log rf) then Some (rf2, reply, [])
      else do {
        l \<leftarrow> installSnapshot (rf_log rf) (isa_LastIncludedIndex args) (isa_LastIncludedTerm args);
        let rf3 = rf2\<lparr>rf_log := l, commitIndex := max (commitIndex rf) (isa_LastIncludedIndex args),
                      lastApplied := max (lastApplied rf) (isa_LastIncludedIndex args)\<rparr>;
        Some (rf3\<lparr>persister := Save (encodeRaftState rf3) (isa_Data args) (persister rf3),
                  commit := commit rf3 + 1\<rparr>, reply,
          [\<lparr>CommandValid = False, am_Command = None, CommandIndex = -1, SnapshotValid = True,
            am_Snapshot = Some (isa_Data args), SnapshotTerm = isa_LastIncludedTerm args,
            SnapshotIndex = isa_LastIncludedIndex args\<rparr>])
      })"
    using fresh by (auto simp: InstallSnapshot_def observe_term_def Let_def snapshotIndex_def
        intro!: bind_option_cong)
  show ?thesis
  proof (cases "isa_LastIncludedIndex args \<le> snapIndex (rf_log rf)")
    case True
    with assms(1) show ?thesis by (intro old [OF fresh True]) (auto simp: head Let_def)
  next
    case False
    with assms(1) obtain l where l: "installSnapshot (rf_log rf) (isa_LastIncludedIndex args)
        (isa_LastIncludedTerm args) = Some l" by (auto simp: head Let_def bind_Some_iff)
    show ?thesis
      by (rule install [of l])
         (use False fresh l assms(1) in
           \<open>auto simp: head Let_def durable_def encodeRaftState_eq_iff\<close>)
  qed
qed

lemma InstallSnapshot_total:
  assumes "wf_log (rf_log rf)"
  shows "\<exists>r. InstallSnapshot now args rf = Some r"
proof (cases "isa_LastIncludedIndex args \<le> snapIndex (rf_log rf)")
  case True
  then show ?thesis by (auto simp: InstallSnapshot_def Let_def snapshotIndex_def)
next
  case False
  then obtain l where "installSnapshot (rf_log rf) (isa_LastIncludedIndex args)
      (isa_LastIncludedTerm args) = Some l"
    using installSnapshot_exists [OF assms] by (metis linorder_le_cases)
  with False show ?thesis by (auto simp: InstallSnapshot_def Let_def snapshotIndex_def)
qed

lemma wf_InstallSnapshot [wf_intros]:
  assumes "InstallSnapshot now args rf = Some (rf', reply, msgs)" "wf_raft rf"
  shows "wf_raft rf'" "CurrentTerm rf \<le> CurrentTerm rf'" "commitIndex rf \<le> commitIndex rf'"
proof -
  have wfl: "wf_log (rf_log rf)" using assms(2) by (simp add: wf_raft_def)
  from assms(1) wfl
  have "wf_raft rf' \<and> CurrentTerm rf \<le> CurrentTerm rf' \<and> commitIndex rf \<le> commitIndex rf'"
  proof (cases rule: InstallSnapshot_cases)
    case (install l)
    with assms(2) wf_installSnapshot [OF wfl install(3)] installSnapshot_frame [OF wfl install(3)]
    show ?thesis by (auto simp: wf_raft_def)
  qed (use assms(2) in \<open>auto simp: wf_raft_def\<close>)
  then show "wf_raft rf'" "CurrentTerm rf \<le> CurrentTerm rf'" "commitIndex rf \<le> commitIndex rf'"
    by simp_all
qed

lemma raft_Snapshot_spec:
  assumes "wf_raft rf" "index \<le> lastApplied rf" "commit_in_log rf"
  obtains rf' where "raft_Snapshot index snap rf = Some rf'" "wf_raft rf'" "commit_in_log rf'"
    "snapIndex (rf_log rf') = max index (snapIndex (rf_log rf))"
    "\<And>j. snapIndex (rf_log rf') < j \<Longrightarrow> log_entry (rf_log rf') j = log_entry (rf_log rf) j"
    "log_len (rf_log rf') = log_len (rf_log rf)"
    "snapIndex (rf_log rf) < index \<Longrightarrow> ReadSnapshot (persister rf') = snap"
proof (cases "index \<le> snapIndex (rf_log rf)")
  case True
  show ?thesis
    by (rule that [of rf]) (use True assms in \<open>auto simp: raft_Snapshot_def snapshotIndex_def\<close>)
next
  case False
  have wfl: "wf_log (rf_log rf)" using assms(1) by (simp add: wf_raft_def)
  have "index < log_len (rf_log rf)"
    using assms by (auto simp: wf_raft_def commit_in_log_def)
  with False obtain l where l: "snapshotAt (rf_log rf) index = Some l"
    using snapshotAt_exists [OF wfl, of index] by auto
  note frame = wf_snapshotAt [OF wfl l] snapshotAt_frame [OF wfl l] log_entry_snapshotAt [OF wfl l]
  define rf1 where "rf1 = rf\<lparr>rf_log := l\<rparr>"
  define rf' where "rf' = rf1\<lparr>persister := Save (encodeRaftState rf1) snap (persister rf1)\<rparr>"
  have "durable rf'" by (simp add: durable_def rf'_def encodeRaftState_eq_iff)
  then show ?thesis
    by (intro that [of rf'])
       (use False assms l frame in
         \<open>auto simp: raft_Snapshot_def snapshotIndex_def wf_raft_def commit_in_log_def
            rf'_def rf1_def Let_def\<close>)
qed

lemma raft_Snapshot_last_pos:
  assumes "wf_raft rf" "raft_Snapshot index snap rf = Some rf'"
  shows "last_pos (rf_log rf') = last_pos (rf_log rf)"
proof (cases "index \<le> snapIndex (rf_log rf)")
  case True
  with assms(2) show ?thesis by (simp add: raft_Snapshot_def snapshotIndex_def)
next
  case False
  have wfl: "wf_log (rf_log rf)" using assms(1) by (simp add: wf_raft_def)
  from False assms(2) have l: "snapshotAt (rf_log rf) index = Some (rf_log rf')"
    by (auto simp: raft_Snapshot_def snapshotIndex_def bind_Some_iff Let_def)
  have len: "log_len (rf_log rf') = log_len (rf_log rf)" by (rule snapshotAt_frame(2) [OF wfl l])
  have "term_at (rf_log rf') (lastIndex (rf_log rf')) = term_at (rf_log rf) (lastIndex (rf_log rf))"
    using term_at_snapshotAt [OF wfl l] len wf_log_bounds [OF wf_snapshotAt [OF wfl l]]
      snapshotAt_frame(1) [OF wfl l]
    by (simp add: lastIndex_def)
  with len wf_log_lastTerm [OF wfl] wf_log_lastTerm [OF wf_snapshotAt [OF wfl l]] show ?thesis
    by (auto simp: last_pos_def lastIndex_def lastTerm_def term_at_def)
qed

section \<open>Starting agreement\<close>

lemma raft_Start_spec:
  assumes "raft_Start cmd rf = (rf', idx, t, ok)" "wf_raft rf"
  shows "wf_raft rf'"
    "ok \<longleftrightarrow> rf_Role rf = Leader"
    "\<not> ok \<Longrightarrow> rf' = rf \<and> idx = -1 \<and> t = -1"
    "ok \<Longrightarrow> t = CurrentTerm rf \<and> idx = log_len (rf_log rf) \<and>
       log_entry (rf_log rf') idx = Some \<lparr>Term = t, Command = Some cmd\<rparr> \<and>
       (\<forall>j < idx. log_entry (rf_log rf') j = log_entry (rf_log rf) j) \<and>
       rf_Role rf' = Leader \<and> CurrentTerm rf' = CurrentTerm rf \<and> commitIndex rf' = commitIndex rf"
proof -
  have wfl: "wf_log (rf_log rf)" using assms(2) by (simp add: wf_raft_def)
  show "wf_raft rf'" using assms wf_log_append [OF wfl]
    by (auto simp: raft_Start_def wf_raft_def Let_def split: if_splits)
  show "ok \<longleftrightarrow> rf_Role rf = Leader" "\<not> ok \<Longrightarrow> rf' = rf \<and> idx = -1 \<and> t = -1"
    using assms(1) by (auto simp: raft_Start_def Let_def split: if_splits)
  show "ok \<Longrightarrow> t = CurrentTerm rf \<and> idx = log_len (rf_log rf) \<and>
       log_entry (rf_log rf') idx = Some \<lparr>Term = t, Command = Some cmd\<rparr> \<and>
       (\<forall>j < idx. log_entry (rf_log rf') j = log_entry (rf_log rf) j) \<and>
       rf_Role rf' = Leader \<and> CurrentTerm rf' = CurrentTerm rf \<and> commitIndex rf' = commitIndex rf"
    using assms(1) log_entry_append [OF wfl]
    by (auto simp: raft_Start_def Let_def lastIndex_def go_index_Cons split: if_splits)
qed

section \<open>Elections\<close>

lemma startElection_fields [simp]:
  "me (startElection now r rf) = me rf" "npeers (startElection now r rf) = npeers rf"
  "CurrentTerm (startElection now r rf) = CurrentTerm rf + 1"
  "VotedFor (startElection now r rf) = int (me rf)" "rf_Role (startElection now r rf) = Candidate"
  "rf_log (startElection now r rf) = rf_log rf" "commitIndex (startElection now r rf) = commitIndex rf"
  "lastApplied (startElection now r rf) = lastApplied rf" "durable (startElection now r rf)"
  by (simp_all add: startElection_def resetElectionTimeout_def)

lemma wf_startElection [wf_intros]: "wf_raft rf \<Longrightarrow> wf_raft (startElection now r rf)"
  by (simp add: wf_raft_def)

lemma apply_RequestVote_cases:
  assumes "apply_RequestVote votes reply rf = (rf', votes')"
  obtains (newer) "CurrentTerm rf < rvr_Term reply" "rf' = becomeFollower (rvr_Term reply) rf" "votes' = votes"
  | (win) "rvr_Term reply \<le> CurrentTerm rf" "rvr_VoteGranted reply" "votes' = votes + 1"
      "npeers rf div 2 < votes'" "rf' = rf\<lparr>rf_Role := Leader,
         nextIndex := replicate (npeers rf) (log_len (rf_log rf)),
         matchIndex := replicate (npeers rf) (snapshotIndex (rf_log rf))\<rparr>"
  | (counted) "rvr_Term reply \<le> CurrentTerm rf" "rvr_VoteGranted reply" "votes' = votes + 1"
      "votes' \<le> npeers rf div 2" "rf' = rf"
  | (refused) "rvr_Term reply \<le> CurrentTerm rf" "\<not> rvr_VoteGranted reply" "votes' = votes" "rf' = rf"
proof -
  consider "CurrentTerm rf < rvr_Term reply"
    | "rvr_Term reply \<le> CurrentTerm rf" "rvr_VoteGranted reply" "npeers rf div 2 < votes + 1"
    | "rvr_Term reply \<le> CurrentTerm rf" "rvr_VoteGranted reply" "votes + 1 \<le> npeers rf div 2"
    | "rvr_Term reply \<le> CurrentTerm rf" "\<not> rvr_VoteGranted reply"
    by linarith
  then show ?thesis
  proof cases
    case 1 show ?thesis by (rule newer) (use 1 assms in \<open>simp_all add: apply_RequestVote_def\<close>)
  next
    case 2 show ?thesis by (rule win) (use 2 assms in \<open>simp_all add: apply_RequestVote_def Let_def\<close>)
  next
    case 3 show ?thesis by (rule counted) (use 3 assms in \<open>simp_all add: apply_RequestVote_def Let_def\<close>)
  next
    case 4 show ?thesis by (rule refused) (use 4 assms in \<open>simp_all add: apply_RequestVote_def\<close>)
  qed
qed

lemma wf_apply_RequestVote [wf_intros]:
  assumes "apply_RequestVote votes reply rf = (rf', votes')" "wf_raft rf"
  shows "wf_raft rf'"
  using assms(1)
proof (cases rule: apply_RequestVote_cases)
  case win
  have "durable rf" using assms(2) by (simp add: wf_raft_def)
  then have "durable rf'" by (rule durable_cong) (use win in simp_all)
  with win assms(2) show ?thesis by (auto simp: wf_raft_def)
qed (use assms(2) wf_becomeFollower in auto)

section \<open>The commit rule\<close>

text \<open>
  The loop looks from the end of the log for an entry of the current term that a majority holds.
  It stops at the last such index, and leaves the commit index alone when there is none above it.
\<close>

definition committable :: "int \<Rightarrow> ('c, 'b) Raft \<Rightarrow> bool" where
  "committable k rf \<longleftrightarrow> commitIndex rf < k \<and> snapIndex (rf_log rf) < k \<and>
     term_at (rf_log rf) k = Some (CurrentTerm rf) \<and> npeers rf div 2 < replica_count k rf"

lemma updateCommitIndex_loop_spec:
  assumes "wf_log (rf_log rf)" "n < log_len (rf_log rf)"
  shows "\<exists>rf'. updateCommitIndex_loop n rf = Some rf' \<and>
    ((\<exists>k \<le> n. committable k rf \<and> (\<forall>k'. k < k' \<and> k' \<le> n \<longrightarrow> \<not> committable k' rf) \<and>
        rf' = rf\<lparr>commitIndex := k, commit := commit rf + 1\<rparr>)
     \<or> (\<forall>k \<le> n. \<not> committable k rf) \<and> rf' = rf)"
  using assms
proof (induction n rf rule: updateCommitIndex_loop.induct)
  case (1 n rf)
  show ?case
  proof (cases "commitIndex rf < n \<and> snapIndex (rf_log rf) < n")
    case False
    then have "updateCommitIndex_loop n rf = Some rf"
      by (auto simp: updateCommitIndex_loop.simps [of n rf] snapshotIndex_def)
    moreover have "\<forall>k \<le> n. \<not> committable k rf" using False by (auto simp: committable_def)
    ultimately show ?thesis by auto
  next
    case True
    then obtain e where e: "log_entry (rf_log rf) n = Some e"
      using "1.prems" by (auto simp: log_entry_iff)
    have ok: "committable n rf \<longleftrightarrow> Term e = CurrentTerm rf \<and> npeers rf div 2 < replica_count n rf"
      using e True by (simp add: term_at_def committable_def)
    show ?thesis
    proof (cases "committable n rf")
      case win: True
      then have "updateCommitIndex_loop n rf = Some (rf\<lparr>commitIndex := n, commit := commit rf + 1\<rparr>)"
        using e True ok by (simp add: updateCommitIndex_loop.simps [of n rf] snapshotIndex_def)
      with win show ?thesis by auto
    next
      case lose: False
      have step: "updateCommitIndex_loop n rf = updateCommitIndex_loop (n - 1) rf"
        using e True ok lose by (auto simp: updateCommitIndex_loop.simps [of n rf] snapshotIndex_def)
      obtain rf' where rf': "updateCommitIndex_loop (n - 1) rf = Some rf'"
        "(\<exists>k \<le> n - 1. committable k rf \<and> (\<forall>k'. k < k' \<and> k' \<le> n - 1 \<longrightarrow> \<not> committable k' rf) \<and>
            rf' = rf\<lparr>commitIndex := k, commit := commit rf + 1\<rparr>)
         \<or> (\<forall>k \<le> n - 1. \<not> committable k rf) \<and> rf' = rf"
        using "1.IH" e True ok lose "1.prems"
        by (cases "Term e = CurrentTerm rf") (auto simp: snapshotIndex_def)
      have shift: "k \<le> n \<longleftrightarrow> k \<le> n - 1 \<or> k = n" for k :: int by auto
      from rf' lose show ?thesis unfolding step shift by blast
    qed
  qed
qed

lemma updateCommitIndex_cases:
  assumes "wf_log (rf_log rf)"
  obtains (advance) k where "updateCommitIndex rf = Some (rf\<lparr>commitIndex := k, commit := commit rf + 1\<rparr>)"
      "committable k rf" "\<And>k'. k < k' \<Longrightarrow> k' < log_len (rf_log rf) \<Longrightarrow> \<not> committable k' rf"
      "k < log_len (rf_log rf)"
  | (keep) "updateCommitIndex rf = Some rf" "\<And>k. k < log_len (rf_log rf) \<Longrightarrow> \<not> committable k rf"
  using updateCommitIndex_loop_spec [OF assms, of "lastIndex (rf_log rf)"]
  by (auto simp: updateCommitIndex_def lastIndex_def zle_diff1_eq)

lemma wf_updateCommitIndex [wf_intros]:
  assumes "updateCommitIndex rf = Some rf'" "wf_raft rf"
  shows "wf_raft rf'" "commitIndex rf \<le> commitIndex rf'" "commit_in_log rf \<Longrightarrow> commit_in_log rf'"
    "CurrentTerm rf' = CurrentTerm rf" "rf_log rf' = rf_log rf" "rf_Role rf' = rf_Role rf"
    "VotedFor rf' = VotedFor rf" "me rf' = me rf" "npeers rf' = npeers rf"
proof -
  have d: "durable rf" and wfl: "wf_log (rf_log rf)" using assms(2) by (simp_all add: wf_raft_def)
  consider "rf' = rf" | k where "rf' = rf\<lparr>commitIndex := k, commit := commit rf + 1\<rparr>" "commitIndex rf < k"
      "k < log_len (rf_log rf)"
    using wfl assms(1) by (cases rule: updateCommitIndex_cases) (auto simp: committable_def)
  then have "wf_raft rf' \<and> commitIndex rf \<le> commitIndex rf' \<and> (commit_in_log rf \<longrightarrow> commit_in_log rf')
    \<and> CurrentTerm rf' = CurrentTerm rf \<and> rf_log rf' = rf_log rf \<and> rf_Role rf' = rf_Role rf
    \<and> VotedFor rf' = VotedFor rf \<and> me rf' = me rf \<and> npeers rf' = npeers rf"
  proof cases
    case 2
    have "durable rf'" using d by (rule durable_cong) (simp_all add: 2)
    with 2 assms(2) show ?thesis by (auto simp: wf_raft_def commit_in_log_def)
  qed (use assms(2) in auto)
  then show "wf_raft rf'" "commitIndex rf \<le> commitIndex rf'" "commit_in_log rf \<Longrightarrow> commit_in_log rf'"
    "CurrentTerm rf' = CurrentTerm rf" "rf_log rf' = rf_log rf" "rf_Role rf' = rf_Role rf"
    "VotedFor rf' = VotedFor rf" "me rf' = me rf" "npeers rf' = npeers rf"
    by blast+
qed

text \<open>The counter of the source is the size of a set of peers that includes the leader.\<close>

definition replicas :: "int \<Rightarrow> ('c, 'b) Raft \<Rightarrow> nat set" where
  "replicas k rf = insert (me rf) {p. p < length (matchIndex rf) \<and> p \<noteq> me rf \<and> k \<le> matchIndex rf ! p}"

lemma replica_count_card: "replica_count k rf = card (replicas k rf)"
proof -
  have "length (filter (\<lambda>(p, m). p \<noteq> me rf \<and> m \<ge> k) (enumerate 0 (matchIndex rf)))
      = card {p. p < length (matchIndex rf) \<and> p \<noteq> me rf \<and> k \<le> matchIndex rf ! p}"
    by (simp add: length_filter_conv_card nth_enumerate_eq cong: conj_cong)
  then show ?thesis by (simp add: replica_count_def replicas_def)
qed

section \<open>The leader's reply callbacks\<close>

lemma apply_AppendEntries_cases:
  assumes "apply_AppendEntries p args reply rf = Some rf'"
  obtains (newer) "CurrentTerm rf < aer_Term reply" "rf' = becomeFollower (aer_Term reply) rf"
  | (progress) mi ni where "aer_Term reply \<le> CurrentTerm rf" "aer_Success reply"
      "go_store (matchIndex rf) (int p) (aea_PrevLogIndex args + int (length (aea_Entries args))) = Some mi"
      "go_store (nextIndex rf) (int p) (aea_PrevLogIndex args + int (length (aea_Entries args)) + 1) = Some ni"
      "updateCommitIndex (rf\<lparr>matchIndex := mi, nextIndex := ni\<rparr>) = Some rf'"
  | (stale) "aer_Term reply \<le> CurrentTerm rf" "aer_Success reply" "rf' = rf"
  | (backoff) n ni where "aer_Term reply \<le> CurrentTerm rf" "\<not> aer_Success reply"
      "backoffNextIndex (aea_PrevLogIndex args) (rf_log rf) reply = Some n"
      "go_store (nextIndex rf) (int p) n = Some ni" "rf' = rf\<lparr>nextIndex := ni\<rparr>"
proof -
  consider "CurrentTerm rf < aer_Term reply" | "aer_Term reply \<le> CurrentTerm rf" "aer_Success reply"
    | "aer_Term reply \<le> CurrentTerm rf" "\<not> aer_Success reply" by linarith
  then show ?thesis
  proof cases
    case 1 show ?thesis by (rule newer) (use 1 assms in \<open>simp_all add: apply_AppendEntries_def\<close>)
  next
    case 2
    with assms show ?thesis
      using progress [OF 2] stale [OF 2]
      by (auto simp: apply_AppendEntries_def Let_def bind_Some_iff split: if_splits)
  next
    case 3
    with assms show ?thesis
      using backoff [OF 3] by (auto simp: apply_AppendEntries_def bind_Some_iff)
  qed
qed

lemma wf_apply_AppendEntries [wf_intros]:
  assumes "apply_AppendEntries p args reply rf = Some rf'" "wf_raft rf"
  shows "wf_raft rf'" "CurrentTerm rf \<le> CurrentTerm rf'" "commitIndex rf \<le> commitIndex rf'"
proof -
  have d: "durable rf" using assms(2) by (simp add: wf_raft_def)
  from assms(1)
  have "wf_raft rf' \<and> CurrentTerm rf \<le> CurrentTerm rf' \<and> commitIndex rf \<le> commitIndex rf'"
  proof (cases rule: apply_AppendEntries_cases)
    case (progress mi ni)
    have "durable (rf\<lparr>matchIndex := mi, nextIndex := ni\<rparr>)" using d by (rule durable_cong) simp_all
    then have "wf_raft (rf\<lparr>matchIndex := mi, nextIndex := ni\<rparr>)"
      using assms(2) progress(3,4) by (auto simp: wf_raft_def go_simps)
    from wf_updateCommitIndex [OF progress(5) this] show ?thesis by simp
  next
    case (backoff n ni)
    have "durable rf'" using d by (rule durable_cong) (simp_all add: backoff)
    then show ?thesis using assms(2) backoff by (auto simp: wf_raft_def go_simps)
  qed (use assms(2) wf_becomeFollower in auto)
  then show "wf_raft rf'" "CurrentTerm rf \<le> CurrentTerm rf'" "commitIndex rf \<le> commitIndex rf'"
    by blast+
qed

lemma wf_apply_InstallSnapshot [wf_intros]:
  assumes "apply_InstallSnapshot p args reply rf = Some rf'" "wf_raft rf"
  shows "wf_raft rf'" "CurrentTerm rf \<le> CurrentTerm rf'" "commitIndex rf' = commitIndex rf"
proof -
  have d: "durable rf" using assms(2) by (simp add: wf_raft_def)
  consider "CurrentTerm rf < isr_Term reply" "rf' = becomeFollower (isr_Term reply) rf"
    | ni mi where "rf' = rf\<lparr>nextIndex := ni, matchIndex := mi\<rparr>"
       "length ni = length (nextIndex rf)" "length mi = length (matchIndex rf)"
    using assms(1) by (auto simp: apply_InstallSnapshot_def bind_Some_iff go_simps split: if_splits)
  then have "wf_raft rf' \<and> CurrentTerm rf \<le> CurrentTerm rf' \<and> commitIndex rf' = commitIndex rf"
  proof cases
    case 2
    have "durable rf'" using d by (rule durable_cong) (simp_all add: 2)
    then show ?thesis using assms(2) 2 by (auto simp: wf_raft_def)
  qed (use assms(2) wf_becomeFollower in auto)
  then show "wf_raft rf'" "CurrentTerm rf \<le> CurrentTerm rf'" "commitIndex rf' = commitIndex rf"
    by blast+
qed

end
