(* ===== verification/RaftApply.thy ===== *)
theory RaftApply
  imports RaftOps
begin

text \<open>
  What a Raft peer shows to the outside over time: the apply loop of \<open>apply.go\<close> delivers every
  committed entry once and in index order, a restarted peer is what its persister says
  (\<open>readPersist\<close> and \<open>Make\<close> of \<open>raft.go\<close>), and the requests the leader's builders of
  \<open>replication.go\<close> produce are the ones the follower's handlers accept without a panic.
\<close>

section \<open>The apply loop\<close>

definition applied_msgs :: "int \<Rightarrow> int \<Rightarrow> 'c raftLog \<Rightarrow> ('c, 'b) ApplyMsg list" where
  "applied_msgs i j l = map (\<lambda>k. command_msg k (the (log_entry l k))) [i..j]"

lemma applied_msgs_Cons: "i \<le> j \<Longrightarrow> log_entry l i = Some e \<Longrightarrow>
  applied_msgs i j l = command_msg i e # applied_msgs (i + 1) j l"
  by (simp add: applied_msgs_def upto_rec1)

lemma apply_loop_spec:
  assumes "snapIndex (rf_log rf) \<le> i" "commitIndex rf < log_len (rf_log rf)"
  shows "apply_loop i rf msgs =
    Some (rf\<lparr>lastApplied := lastApplied rf + max 0 (commitIndex rf + 1 - i)\<rparr>,
          msgs @ applied_msgs i (commitIndex rf) (rf_log rf))"
  using assms
proof (induction i rf msgs rule: apply_loop.induct)
  case (1 i rf msgs)
  show ?case
  proof (cases "i \<le> commitIndex rf")
    case False
    then show ?thesis by (simp add: apply_loop.simps [of i rf] applied_msgs_def)
  next
    case True
    then obtain e where e: "log_entry (rf_log rf) i = Some e"
      using "1.prems" by (meson log_entry_dom order_le_less_trans)
    have "max 0 (commitIndex rf + 1 - i) = 1 + max 0 (commitIndex rf + 1 - (i + 1))" using True by simp
    with "1.IH" [OF True e] True e "1.prems" show ?thesis
      by (simp add: apply_loop.simps [of i rf] applied_msgs_Cons add.assoc)
  qed
qed

lemma applyCommand_spec:
  assumes "wf_raft rf" "commit_in_log rf"
  shows "applyCommand rf = Some (rf\<lparr>commit := commit rf - 1, lastApplied := commitIndex rf\<rparr>,
           applied_msgs (lastApplied rf + 1) (commitIndex rf) (rf_log rf))"
  using assms
  by (auto simp: applyCommand_def apply_loop_spec wf_raft_def commit_in_log_def Let_def)

lemma wf_applyCommand [wf_intros]:
  assumes "applyCommand rf = Some (rf', msgs)" "wf_raft rf" "commit_in_log rf"
  shows "wf_raft rf'" "commit_in_log rf'"
proof -
  have eq: "rf' = rf\<lparr>commit := commit rf - 1, lastApplied := commitIndex rf\<rparr>"
    using assms(1) by (simp add: applyCommand_spec [OF assms(2,3)])
  have "durable rf" using assms(2) by (simp add: wf_raft_def)
  then have "durable rf'" by (rule durable_cong) (simp_all add: eq)
  with assms(2,3) show "wf_raft rf'" "commit_in_log rf'"
    by (auto simp: wf_raft_def commit_in_log_def eq)
qed

section \<open>Crash recovery\<close>

lemma readPersist_encode:
  assumes "entries (rf_log rf) \<noteq> []"
  shows "readPersist (encodeRaftState rf) rf0 =
     Some ((rf0\<lparr>CurrentTerm := CurrentTerm rf, VotedFor := VotedFor rf, rf_log := rf_log rf\<rparr>)
       \<lparr>commitIndex := (if snapIndex (rf_log rf) > 0 then snapIndex (rf_log rf) else commitIndex rf0),
        lastApplied := (if snapIndex (rf_log rf) > 0 then snapIndex (rf_log rf) else lastApplied rf0)\<rparr>)"
  using assms
  by (auto simp: readPersist_def encodeRaftState_def persistEntries_def snapshotIndex_def
      snapshotTerm_def restoreLog_def)


text \<open>
  A restart rebuilds term, vote and log from storage; everything else starts over, and what the
  snapshot covers counts as committed and applied.
\<close>

lemma raft_Make_restores:
  assumes wfl: "wf_log (rf_log rf)" and sn: "0 \<le> snapIndex (rf_log rf)" and d: "durable rf"
    and ps: "persister rf = ps"
  obtains rf' where "raft_Make n i ps now r = Some rf'" "wf_raft rf'" "commit_in_log rf'"
    "CurrentTerm rf' = CurrentTerm rf" "VotedFor rf' = VotedFor rf" "rf_log rf' = rf_log rf"
    "rf_Role rf' = Follower" "me rf' = i" "npeers rf' = n" "persister rf' = ps"
    "commitIndex rf' = snapIndex (rf_log rf)" "lastApplied rf' = snapIndex (rf_log rf)"
proof -
  have ne: "entries (rf_log rf) \<noteq> []" using wfl by (simp add: wf_log_def)
  define rf0 where "rf0 = \<lparr>me = i, npeers = n, CurrentTerm = 0, VotedFor = -1, rf_Role = Follower,
    rf_log = newRaftLog, commitIndex = 0, lastApplied = 0, nextIndex = [], matchIndex = [],
    lastReset = now, electionTimeout = 300 + r, persister = ps, commit = 0\<rparr>"
  define rf' where "rf' = rf0\<lparr>CurrentTerm := CurrentTerm rf, VotedFor := VotedFor rf,
    rf_log := rf_log rf, commitIndex := snapIndex (rf_log rf), lastApplied := snapIndex (rf_log rf)\<rparr>"
  have "raft_Make n i ps now r = readPersist (ReadRaftState ps) rf0"
    by (simp add: raft_Make_def rf0_def resetElectionTimeout_def)
  also have "\<dots> = Some rf'"
    using d
  proof (cases "ReadRaftState ps = []")
    case True
    with d have "CurrentTerm rf = 0 \<and> VotedFor rf = -1 \<and> rf_log rf = newRaftLog"
      by (auto simp: durable_def ps encodeRaftState_def)
    with True show ?thesis by (simp add: readPersist_def rf0_def rf'_def newRaftLog_def)
  next
    case False
    with d have "ReadRaftState ps = encodeRaftState rf" by (auto simp: durable_def ps)
    with sn show ?thesis by (auto simp: readPersist_encode [OF ne] rf0_def rf'_def)
  qed
  finally have made: "raft_Make n i ps now r = Some rf'" .
  have "durable rf'" using d ps
    by (auto simp: durable_def rf'_def rf0_def encodeRaftState_eq_iff)
  then show ?thesis
    by (intro that [OF made]) (use wfl sn wf_log_bounds [OF wfl] in
      \<open>auto simp: wf_raft_def commit_in_log_def rf'_def rf0_def\<close>)
qed

section \<open>The leader's requests\<close>

text \<open>
  The builder needs the previous entry in the live window: with \<open>nextIndex\<close> above the snapshot and
  not beyond the log it never panics, and what it sends reaches exactly to the end of the log.
\<close>

lemma build_AppendEntries_spec:
  assumes "wf_log (rf_log rf)" "p < length (nextIndex rf)"
    and "snapIndex (rf_log rf) < nextIndex rf ! p" "nextIndex rf ! p \<le> log_len (rf_log rf)"
  obtains args where "build_AppendEntries p rf = Some args" "aea_Term args = CurrentTerm rf"
    "aea_LeaderID args = int (me rf)"
    "aea_PrevLogIndex args = nextIndex rf ! p - 1" "aea_LeaderCommit args = commitIndex rf"
    "term_at (rf_log rf) (aea_PrevLogIndex args) = Some (aea_PrevLogTerm args)"
    "aea_PrevLogIndex args + int (length (aea_Entries args)) = lastIndex (rf_log rf)"
    "\<And>k. k < length (aea_Entries args) \<Longrightarrow>
        log_entry (rf_log rf) (aea_PrevLogIndex args + 1 + int k) = Some (aea_Entries args ! k)"
proof -
  let ?l = "rf_log rf" and ?ni = "nextIndex rf ! p"
  obtain e where e: "log_entry ?l (?ni - 1) = Some e"
    using assms(3,4) by (metis log_entry_dom diff_add_cancel zle_diff1_eq zless_imp_add1_zle add_le_cancel_right)
  define args where "args = \<lparr>aea_Term = CurrentTerm rf, aea_LeaderID = int (me rf),
    aea_PrevLogIndex = ?ni - 1, aea_PrevLogTerm = Term e,
    aea_Entries = (if log_len ?l > ?ni then log_since ?l ?ni else []), aea_LeaderCommit = commitIndex rf\<rparr>"
  have "build_AppendEntries p rf = Some args"
    using assms(2) e by (simp add: build_AppendEntries_def args_def Let_def)
  then show ?thesis
  proof (rule that)
    show "term_at ?l (aea_PrevLogIndex args) = Some (aea_PrevLogTerm args)"
      using e by (simp add: args_def term_at_def)
    show "aea_PrevLogIndex args + int (length (aea_Entries args)) = lastIndex ?l"
      using assms(1,3,4) length_log_since [of ?l ?ni] by (auto simp: args_def lastIndex_def)
    show "log_entry ?l (aea_PrevLogIndex args + 1 + int k) = Some (aea_Entries args ! k)"
      if "k < length (aea_Entries args)" for k
      using that assms(3) log_since_spec [OF assms(1), of ?ni "int k"]
      by (auto simp: args_def split: if_splits)
  qed (simp_all add: args_def)
qed

end
