(* ===== verification/RaftTester.thy ===== *)
theory RaftTester
  imports RaftApply
begin

text \<open>
  The service on top of a Raft peer in the tests and the checks of the tester: \<open>src/raft1/server.go\<close>
  (\<open>rfsrv\<close> reads the apply channel, takes a snapshot every ten entries and ingests the snapshots the
  peer sends up), \<open>src/raft1/proxy.go\<close> (the calls to the tester, which may fail) and the checks of
  \<open>src/raft1/test.go\<close> (\<open>CheckLogs\<close> compares what the servers apply; the leader, term and agreement
  checks). The error strings are a datatype, \<open>Fatalf\<close> is \<^term>\<open>None\<close>; the encoding of a snapshot is a
  pair of arguments.
\<close>

datatype apply_err =
    ErrRPC
  | Differs int nat nat
  | OutOfOrder int
  | Expected int int
  | NilSnapshot
  | DecodeFailed
  | WrongSnapshotIndex

section \<open>test.go: what the tester records\<close>

record 'c raftServer =
  applyErr :: "apply_err option"
  logs :: "int \<rightharpoonup> 'c option"

definition newRaftServer :: "'c raftServer" where
  "newRaftServer = \<lparr>applyErr = None, logs = Map.empty\<rparr>"

record 'c Test =
  srvs :: "'c raftServer list"
  maxIndex :: int

definition makeTest :: "nat \<Rightarrow> 'c Test" where
  "makeTest n = \<lparr>srvs = replicate n newRaftServer, maxIndex = 0\<rparr>"

text \<open>The last server that has another value at the index decides the message.\<close>

fun CheckLogs_loop :: "nat \<Rightarrow> ('c, 'b) ApplyMsg \<Rightarrow> nat \<Rightarrow> 'c raftServer list \<Rightarrow> apply_err option \<Rightarrow> apply_err option" where
  "CheckLogs_loop i m j [] err = err"
| "CheckLogs_loop i m j (rs # rest) err =
     CheckLogs_loop i m (j + 1) rest
       (case logs rs (CommandIndex m) of
          Some old \<Rightarrow> if old \<noteq> am_Command m then Some (Differs (CommandIndex m) i j) else err
        | None \<Rightarrow> err)"

definition CheckLogs :: "nat \<Rightarrow> ('c, 'b) ApplyMsg \<Rightarrow> 'c Test \<Rightarrow> ('c Test \<times> apply_err option \<times> bool) option" where
  "CheckLogs i m ts =
     (if i < length (srvs ts)
      then let rs = srvs ts ! i;
               err_msg = CheckLogs_loop i m 0 (srvs ts) None;
               prevok = (logs rs (CommandIndex m - 1) \<noteq> None)
           in Some (ts\<lparr>srvs := (srvs ts)[i := rs\<lparr>logs := (logs rs)(CommandIndex m \<mapsto> am_Command m)\<rparr>],
                       maxIndex := max (maxIndex ts) (CommandIndex m)\<rparr>, err_msg, prevok)
      else None)"

definition IngestLog :: "nat \<Rightarrow> (int \<rightharpoonup> 'c option) \<Rightarrow> 'c Test \<Rightarrow> 'c Test option" where
  "IngestLog i xlog ts =
     (if i < length (srvs ts) then Some (ts\<lparr>srvs := (srvs ts)[i := (srvs ts ! i)\<lparr>logs := xlog\<rparr>]\<rparr>) else None)"

definition ApplyErr :: "nat \<Rightarrow> apply_err \<Rightarrow> 'c Test \<Rightarrow> 'c Test option" where
  "ApplyErr i err ts =
     (if i < length (srvs ts)
      then Some (ts\<lparr>srvs := (srvs ts)[i := (srvs ts ! i)\<lparr>applyErr := Some err\<rparr>]\<rparr>) else None)"

text \<open>\<open>nCommitted\<close> fails the test on an apply error and on two different committed values.\<close>

fun nCommitted_loop :: "int \<Rightarrow> 'c raftServer list \<Rightarrow> nat \<Rightarrow> 'c option \<Rightarrow> (nat \<times> 'c option) option" where
  "nCommitted_loop index [] cnt cmd = Some (cnt, cmd)"
| "nCommitted_loop index (rs # rest) cnt cmd =
     (if applyErr rs \<noteq> None then None
      else case logs rs index of
        None \<Rightarrow> nCommitted_loop index rest cnt cmd
      | Some cmd1 \<Rightarrow> if 0 < cnt \<and> cmd \<noteq> cmd1 then None else nCommitted_loop index rest (cnt + 1) cmd1)"

definition nCommitted :: "int \<Rightarrow> 'c Test \<Rightarrow> (nat \<times> 'c option) option" where
  "nCommitted index ts = nCommitted_loop index (srvs ts) 0 None"

definition checkNoAgreement :: "int \<Rightarrow> 'c Test \<Rightarrow> unit option" where
  "checkNoAgreement index ts = do { (n, _) \<leftarrow> nCommitted index ts; if n > 0 then None else Some () }"

text \<open>
  The checks of leaders and terms take what the connected servers answered to \<open>GetState\<close>, in order:
  (server, term, is leader).
\<close>

type_synonym states = "(nat \<times> int \<times> bool) list"

definition leaders :: "states \<Rightarrow> int \<Rightarrow> nat list" where
  "leaders sts t = map fst (filter (\<lambda>(_, t', l). l \<and> t' = t) sts)"

text \<open>One round of \<open>checkOneLeader\<close>: \<^term>\<open>Some None\<close> when there is no leader yet.\<close>

definition checkOneLeader_round :: "states \<Rightarrow> nat option option" where
  "checkOneLeader_round sts =
     (let terms = map (fst \<circ> snd) (filter (snd \<circ> snd) sts) in
      if \<exists>t \<in> set terms. length (leaders sts t) > 1 then None
      else if terms = [] then Some None
      else Some (Some (hd (leaders sts (fold max terms (-1))))))"

fun checkOneLeader :: "states list \<Rightarrow> nat option" where
  "checkOneLeader [] = None"
| "checkOneLeader (sts # rounds) = do {
     r \<leftarrow> checkOneLeader_round sts;
     case r of Some l \<Rightarrow> Some l | None \<Rightarrow> checkOneLeader rounds
   }"

fun checkTerms_loop :: "states \<Rightarrow> int \<Rightarrow> int option" where
  "checkTerms_loop [] term = Some term"
| "checkTerms_loop ((_, xterm, _) # sts) term =
     (if term = -1 then checkTerms_loop sts xterm
      else if term \<noteq> xterm then None else checkTerms_loop sts term)"

definition checkTerms :: "states \<Rightarrow> int option" where
  "checkTerms sts = checkTerms_loop sts (-1)"

fun checkNoLeader :: "states \<Rightarrow> unit option" where
  "checkNoLeader [] = Some ()"
| "checkNoLeader ((_, _, is_leader) # sts) = (if is_leader then None else checkNoLeader sts)"

section \<open>proxy.go\<close>

text \<open>A call from the server to the tester: it may get lost, or its reply may.\<close>

datatype call_outcome = Lost | ReplyLost | Fine

definition TesterProxy_CheckLogs ::
  "call_outcome \<Rightarrow> nat \<Rightarrow> ('c, 'b) ApplyMsg \<Rightarrow> 'c Test \<Rightarrow> ('c Test \<times> apply_err option \<times> bool) option" where
  "TesterProxy_CheckLogs out index m ts =
     (case out of
        Lost \<Rightarrow> Some (ts, Some ErrRPC, False)
      | ReplyLost \<Rightarrow> map_option (\<lambda>(ts', _, _). (ts', Some ErrRPC, False)) (CheckLogs index m ts)
      | Fine \<Rightarrow> CheckLogs index m ts)"

definition TesterProxy_IngestLog :: "call_outcome \<Rightarrow> nat \<Rightarrow> (int \<rightharpoonup> 'c option) \<Rightarrow> 'c Test \<Rightarrow> 'c Test option" where
  "TesterProxy_IngestLog out index xlog ts = (if out = Lost then Some ts else IngestLog index xlog ts)"

definition TesterProxy_ApplyErr :: "call_outcome \<Rightarrow> nat \<Rightarrow> apply_err \<Rightarrow> 'c Test \<Rightarrow> 'c Test option" where
  "TesterProxy_ApplyErr out index err ts = (if out = Lost then Some ts else ApplyErr index err ts)"

section \<open>server.go\<close>

definition SnapShotInterval :: int where
  "SnapShotInterval = 10"

record 'c rfsrv =
  rs_me :: nat
  rs_lastApplied :: int
  rs_log :: "int \<rightharpoonup> 'c option"

definition report :: "call_outcome \<Rightarrow> nat \<Rightarrow> apply_err option \<Rightarrow> 'c Test \<Rightarrow> 'c Test option" where
  "report out i err ts = (case err of None \<Rightarrow> Some ts | Some e \<Rightarrow> TesterProxy_ApplyErr out i e ts)"

text \<open>One message read by \<open>applier\<close>; the outcomes are those of its calls to the tester.\<close>

definition applier ::
  "call_outcome \<Rightarrow> call_outcome \<Rightarrow> ('c, 'b) ApplyMsg \<Rightarrow> 'c rfsrv \<Rightarrow> 'c Test \<Rightarrow> ('c Test \<times> apply_err option) option" where
  "applier out1 out2 m rs ts =
     (if \<not> CommandValid m then Some (ts, None)
      else do {
        (ts1, err_msg, prevok) \<leftarrow> TesterProxy_CheckLogs out1 (rs_me rs) m ts;
        let err_msg = (if CommandIndex m > 1 \<and> \<not> prevok then Some (OutOfOrder (CommandIndex m)) else err_msg);
        ts2 \<leftarrow> report out2 (rs_me rs) err_msg ts1;
        Some (ts2, err_msg)
      })"

definition ingestSnap ::
  "('b list \<Rightarrow> (int \<times> 'c option list) option) \<Rightarrow> 'b list option \<Rightarrow> int \<Rightarrow> 'c rfsrv \<Rightarrow> 'c rfsrv \<times> apply_err option" where
  "ingestSnap sdec snap index rs =
     (case snap of
        None \<Rightarrow> (rs, Some NilSnapshot)
      | Some b \<Rightarrow>
          (case sdec b of
             None \<Rightarrow> (rs, Some DecodeFailed)
           | Some (lastIncludedIndex, xlog) \<Rightarrow>
               if index \<noteq> -1 \<and> index \<noteq> lastIncludedIndex then (rs, Some WrongSnapshotIndex)
               else (rs\<lparr>rs_log := (\<lambda>j. go_index xlog j), rs_lastApplied := lastIncludedIndex\<rparr>, None)))"

text \<open>The snapshot of the commands up to \<open>index\<close>; a command the map does not have is \<open>nil\<close>.\<close>

definition make_snapshot :: "(int \<times> 'c option list \<Rightarrow> 'b list) \<Rightarrow> int \<Rightarrow> 'c rfsrv \<Rightarrow> 'b list" where
  "make_snapshot senc index rs = senc (index, map (\<lambda>j. case rs_log rs j of None \<Rightarrow> None | Some v \<Rightarrow> v) [0..index])"

record ('c, 'b) snap_server =
  sv :: "'c rfsrv"
  tst :: "'c Test"
  rft :: "('c, 'b) Raft"
  sv_errs :: "apply_err list"

text \<open>One message read by \<open>applierSnap\<close>.\<close>

definition applierSnap ::
  "(int \<times> 'c option list \<Rightarrow> 'b list) \<Rightarrow> ('b list \<Rightarrow> (int \<times> 'c option list) option) \<Rightarrow> call_outcome \<Rightarrow> call_outcome \<Rightarrow>
   ('c, 'b) ApplyMsg \<Rightarrow> ('c, 'b) snap_server \<Rightarrow> ('c, 'b) snap_server option" where
  "applierSnap senc sdec out1 out2 m s =
     (if SnapshotValid m then do {
        let (rs, err_msg) = ingestSnap sdec (am_Snapshot m) (SnapshotIndex m) (sv s);
        ts1 \<leftarrow> TesterProxy_IngestLog out1 (rs_me rs) (rs_log rs) (tst s);
        ts2 \<leftarrow> report out2 (rs_me rs) err_msg ts1;
        Some (s\<lparr>sv := rs, tst := ts2, sv_errs := sv_errs s @ (case err_msg of None \<Rightarrow> [] | Some e \<Rightarrow> [e])\<rparr>)
      }
      else if CommandValid m then do {
        let rs = sv s;
        (ts1, err_msg) \<leftarrow>
          (if CommandIndex m \<noteq> rs_lastApplied rs + 1
           then Some (tst s, Some (Expected (rs_lastApplied rs + 1) (CommandIndex m)))
           else do {
             (ts1, err, prevok) \<leftarrow> TesterProxy_CheckLogs out1 (rs_me rs) m (tst s);
             Some (ts1, if err \<noteq> Some ErrRPC \<and> CommandIndex m > 1 \<and> \<not> prevok
                        then Some (OutOfOrder (CommandIndex m)) else err)
           });
        let rs1 = rs\<lparr>rs_log := (rs_log rs)(CommandIndex m \<mapsto> am_Command m), rs_lastApplied := CommandIndex m\<rparr>;
        rf1 \<leftarrow> (if (CommandIndex m + 1) mod SnapShotInterval = 0
                then raft_Snapshot (CommandIndex m) (make_snapshot senc (CommandIndex m) rs1) (rft s)
                else Some (rft s));
        ts2 \<leftarrow> report out2 (rs_me rs) err_msg ts1;
        Some (s\<lparr>sv := rs1, tst := ts2, rft := rf1, sv_errs := sv_errs s @ (case err_msg of None \<Rightarrow> [] | Some e \<Rightarrow> [e])\<rparr>)
      }
      else Some s)"

text \<open>\<open>newRfsrv\<close> with snapshots: the service starts from the persisted snapshot, when there is one.\<close>

definition newRfsrv ::
  "('b list \<Rightarrow> (int \<times> 'c option list) option) \<Rightarrow> call_outcome \<Rightarrow> nat \<Rightarrow> 'b list \<Rightarrow> ('c, 'b) Raft \<Rightarrow> 'c Test \<Rightarrow>
   ('c, 'b) snap_server option" where
  "newRfsrv sdec out i sn rf ts =
     (let s0 = \<lparr>rs_me = i, rs_lastApplied = 0, rs_log = Map.empty\<rparr> in
      if sn \<noteq> [] then
        (case ingestSnap sdec (Some sn) (-1) s0 of
           (_, Some err) \<Rightarrow> None
         | (s, None) \<Rightarrow> do {
             ts1 \<leftarrow> TesterProxy_IngestLog out i (rs_log s) ts;
             Some \<lparr>sv = s, tst = ts1, rft = rf, sv_errs = []\<rparr>
           })
      else Some \<lparr>sv = s0, tst = ts, rft = rf, sv_errs = []\<rparr>)"

definition rfsrv_Start :: "'c \<Rightarrow> ('c, 'b) Raft option \<Rightarrow> ('c, 'b) Raft option \<times> int \<times> int \<times> bool" where
  "rfsrv_Start command r =
     (case r of
        None \<Rightarrow> (None, 0, 0, False)
      | Some rf \<Rightarrow> (case raft_Start command rf of (rf', i, t, l) \<Rightarrow> (Some rf', i, t, l)))"

end
