(* ===== verification/GoLib.thy ===== *)
theory GoLib
  imports Prelude "HOL-Library.Word" "HOL-Library.Char_ord" "HOL-Library.List_Lexorder" "HOL-Library.AList"
begin

text \<open>
  The parts of Go's standard library that several components use: decimal printing (\<open>strconv.Itoa\<close>
  and the verb \<open>%d\<close>), suffixes and last indices of strings, the 32-bit FNV-1a hash, lines of a text,
  and the lemmas about them that the file names of MapReduce and the keys of the tests rely on.
\<close>

unbundle bit_operations_syntax

section \<open>Decimal numbers\<close>

definition digit :: "nat \<Rightarrow> char" where
  "digit d = char_of (48 + d)"

fun itoa_nat :: "nat \<Rightarrow> string" where
  "itoa_nat n = (if n < 10 then [digit n] else itoa_nat (n div 10) @ [digit (n mod 10)])"

declare itoa_nat.simps [simp del]

definition itoa :: "int \<Rightarrow> string" where
  "itoa i = (if i < 0 then CHR ''-'' # itoa_nat (nat (- i)) else itoa_nat (nat i))"

text \<open>Reading the digits back.\<close>

definition atoi :: "string \<Rightarrow> nat" where
  "atoi s = fold (\<lambda>c n. 10 * n + (of_char c - 48)) s 0"

lemma digit_value [simp]: "d < 10 \<Longrightarrow> (of_char (digit d) :: nat) = 48 + d"
  by (simp add: digit_def)

lemma digit_not_dash: "d < 10 \<Longrightarrow> digit d \<noteq> CHR ''-''"
proof
  assume "d < 10" "digit d = CHR ''-''"
  then have "48 + d = of_char CHR ''-''" by (metis digit_value)
  then show False by simp
qed

lemma atoi_itoa_nat: "atoi (itoa_nat n) = n"
proof (induction n rule: itoa_nat.induct)
  case (1 n)
  then show ?case
    by (subst itoa_nat.simps) (auto simp: atoi_def)
qed

lemma itoa_nat_inject [simp]: "itoa_nat m = itoa_nat n \<longleftrightarrow> m = n"
  by (metis atoi_itoa_nat)

lemma itoa_nat_no_dash: "CHR ''-'' \<notin> set (itoa_nat n)"
proof (induction n rule: itoa_nat.induct)
  case (1 n)
  then show ?case
    using digit_not_dash by (subst itoa_nat.simps) (auto dest: sym)
qed

lemma itoa_nat_not_Nil [simp]: "itoa_nat n \<noteq> []"
  by (subst itoa_nat.simps) simp

lemma itoa_of_nat [simp]: "itoa (int n) = itoa_nat n"
  by (simp add: itoa_def)

section \<open>Strings\<close>

definition HasSuffix :: "string \<Rightarrow> string \<Rightarrow> bool" where
  "HasSuffix s t \<longleftrightarrow> length t \<le> length s \<and> drop (length s - length t) s = t"

text \<open>\<open>s[:strings.LastIndex(s, "-")]\<close>, a panic when there is no dash.\<close>

definition before_last_dash :: "string \<Rightarrow> string option" where
  "before_last_dash s =
     (case dropWhile (\<lambda>c. c \<noteq> CHR ''-'') (rev s) of [] \<Rightarrow> None | _ # r \<Rightarrow> Some (rev r))"

lemma HasSuffix_append: "HasSuffix s t \<longleftrightarrow> (\<exists>r. s = r @ t)"
proof
  assume "HasSuffix s t"
  then have "s = take (length s - length t) s @ t"
    using append_take_drop_id [of "length s - length t" s] by (simp add: HasSuffix_def)
  then show "\<exists>r. s = r @ t" ..
qed (auto simp: HasSuffix_def)

lemma no_dash_takeWhile:
  "CHR ''-'' \<notin> set d \<Longrightarrow> takeWhile (\<lambda>c. c \<noteq> CHR ''-'') (rev (x @ CHR ''-'' # d)) = rev d"
  by (subst rev_append) (auto simp: takeWhile_append)

lemma HasSuffix_dash:
  assumes "CHR ''-'' \<notin> set d" "CHR ''-'' \<notin> set e"
  shows "HasSuffix (x @ CHR ''-'' # e) (CHR ''-'' # d) \<longleftrightarrow> d = e"
proof
  assume "HasSuffix (x @ CHR ''-'' # e) (CHR ''-'' # d)"
  then obtain r where r: "x @ CHR ''-'' # e = r @ CHR ''-'' # d" by (auto simp: HasSuffix_append)
  have "rev e = takeWhile (\<lambda>c. c \<noteq> CHR ''-'') (rev (x @ CHR ''-'' # e))"
    using no_dash_takeWhile [OF assms(2), of x] by simp
  also have "\<dots> = rev d" unfolding r by (rule no_dash_takeWhile [OF assms(1)])
  finally show "d = e" by simp
qed (auto simp: HasSuffix_append)

lemma before_last_dash [simp]:
  assumes "CHR ''-'' \<notin> set d"
  shows "before_last_dash (x @ CHR ''-'' # d) = Some x"
proof -
  have "dropWhile (\<lambda>c. c \<noteq> CHR ''-'') (rev (x @ CHR ''-'' # d)) = CHR ''-'' # rev x"
    using assms by (subst rev_append) (auto simp: dropWhile_append)
  then show ?thesis by (simp add: before_last_dash_def)
qed

text \<open>The lines of a text, as the Unix tools count them: a last line without newline counts.\<close>

fun text_lines :: "string \<Rightarrow> string list" where
  "text_lines [] = []"
| "text_lines (c # s) =
     (if c = CHR 0x0A then [] # text_lines s
      else case text_lines s of [] \<Rightarrow> [[c]] | l # ls \<Rightarrow> (c # l) # ls)"

lemma text_lines_append:
  assumes "s = [] \<or> last s = CHR 0x0A"
  shows "text_lines (s @ t) = text_lines s @ text_lines t"
  using assms
proof (induction s)
  case (Cons c s)
  show ?case
  proof (cases "s = []")
    case True
    with Cons.prems show ?thesis by simp
  next
    case False
    with Cons have IH: "text_lines (s @ t) = text_lines s @ text_lines t" by simp
    have "text_lines s \<noteq> []" using False by (cases s) (auto split: list.splits)
    then show ?thesis by (auto simp: IH split: list.splits)
  qed
qed simp

lemma text_lines_concat:
  assumes "\<forall>s \<in> set ss. last s = CHR 0x0A"
  shows "text_lines (concat ss) = concat (map text_lines ss)"
  using assms by (induction ss) (auto simp: text_lines_append)

section \<open>Hashing\<close>

text \<open>FNV-1a with 32 bits (\<open>hash/fnv\<close>).\<close>

definition fnv32a :: "string \<Rightarrow> 32 word" where
  "fnv32a key = fold (\<lambda>c h. (h XOR of_nat (of_char c)) * 16777619) key 2166136261"

text \<open>A new key goes to the end of an association list.\<close>

lemma AList_update_new: "k \<notin> fst ` set al \<Longrightarrow> AList.update k v al = al @ [(k, v)]"
  by (induction al) auto

lemma fst_delete: "fst ` set (AList.delete k al) = fst ` set al - {k}"
  by (metis delete_keys set_map set_removeAll)

end
