(* ===== verification/LabRpc.thy ===== *)
theory LabRpc
  imports GoLib
begin

text \<open>
  The simulated network, \<open>src/labrpc/labrpc.go\<close>: services and servers, client ends, the network's
  tables, and the life of one request (\<open>processReq\<close>), cut where its goroutines wait: it is queued, it
  reads the tables and is dropped or starts the handler, the handler runs (perhaps after the request
  was given up), and the reply is dropped, delayed or delivered. Random numbers and the moments at
  which timers fire are the choices of a schedule. Servers are cells of a heap, since the code
  compares pointers to find out whether a server was replaced. Encoding is a pair of arguments
  \<open>gob_enc\<close>, \<open>gob_dec\<close>; \<open>log.Fatalf\<close> and panics are \<^term>\<open>None\<close>.
\<close>

section \<open>Messages, services and servers\<close>

record reqMsg =
  rq_endname :: string
  rq_svcMeth :: string
  rq_args :: string

record replyMsg =
  rp_ok :: bool
  rp_reply :: string

definition failed :: replyMsg where
  "failed = \<lparr>rp_ok = False, rp_reply = []\<rparr>"

text \<open>What reflection tells \<open>MakeService\<close> about a method of the receiver.\<close>

record ('s, 'v) method_info =
  mi_name :: string
  mi_PkgPath :: string
  mi_NumIn :: nat
  mi_In2_ptr :: bool
  mi_NumOut :: nat
  mi_func :: "'v \<Rightarrow> 's \<Rightarrow> 's \<times> 'v"

record ('s, 'v) Service =
  svc_name :: string
  rcvr :: 's
  methods :: "(string \<times> ('v \<Rightarrow> 's \<Rightarrow> 's \<times> 'v)) list"

definition suitable :: "('s, 'v) method_info \<Rightarrow> bool" where
  "suitable mi \<longleftrightarrow> \<not> (mi_PkgPath mi \<noteq> '''' \<or> mi_NumIn mi \<noteq> 3 \<or> \<not> mi_In2_ptr mi \<or> mi_NumOut mi \<noteq> 0)"

definition MakeService :: "string \<Rightarrow> 's \<Rightarrow> ('s, 'v) method_info list \<Rightarrow> ('s, 'v) Service" where
  "MakeService name r infos =
     \<lparr>svc_name = name, rcvr = r,
      methods = fold (\<lambda>mi ms. if suitable mi then AList.update (mi_name mi) (mi_func mi) ms else ms) infos []\<rparr>"

definition Service_dispatch ::
  "('v \<Rightarrow> string) \<Rightarrow> (string \<Rightarrow> 'v option) \<Rightarrow> string \<Rightarrow> reqMsg \<Rightarrow> ('s, 'v) Service \<Rightarrow>
   (('s, 'v) Service \<times> replyMsg) option" where
  "Service_dispatch gob_enc gob_dec methname req svc = do {
     function \<leftarrow> map_of (methods svc) methname;
     args \<leftarrow> gob_dec (rq_args req);
     let (r, replyv) = function args (rcvr svc);
     Some (svc\<lparr>rcvr := r\<rparr>, \<lparr>rp_ok = True, rp_reply = gob_enc replyv\<rparr>)
   }"

record ('s, 'v) Server =
  services :: "(string \<times> ('s, 'v) Service) list"
  srv_count :: nat
  dispatchf :: "(string \<Rightarrow> string \<Rightarrow> string \<times> bool) option"

definition MakeServer :: "('s, 'v) Server" where
  "MakeServer = \<lparr>services = [], srv_count = 0, dispatchf = None\<rparr>"

definition SetDispatch :: "(string \<Rightarrow> string \<Rightarrow> string \<times> bool) \<Rightarrow> ('s, 'v) Server \<Rightarrow> ('s, 'v) Server" where
  "SetDispatch f rs = rs\<lparr>dispatchf := Some f\<rparr>"

definition AddService :: "('s, 'v) Service \<Rightarrow> ('s, 'v) Server \<Rightarrow> ('s, 'v) Server" where
  "AddService svc rs = rs\<lparr>services := AList.update (svc_name svc) svc (services rs)\<rparr>"

text \<open>The service and the method, around the last dot; without a dot the slice expression panics.\<close>

definition split_meth :: "string \<Rightarrow> (string \<times> string) option" where
  "split_meth s =
     (case dropWhile (\<lambda>c. c \<noteq> CHR ''.'') (rev s) of
        [] \<Rightarrow> None
      | _ # r \<Rightarrow> Some (rev r, rev (takeWhile (\<lambda>c. c \<noteq> CHR ''.'') (rev s))))"

definition Server_dispatch ::
  "('v \<Rightarrow> string) \<Rightarrow> (string \<Rightarrow> 'v option) \<Rightarrow> reqMsg \<Rightarrow> ('s, 'v) Server \<Rightarrow> (('s, 'v) Server \<times> replyMsg) option" where
  "Server_dispatch gob_enc gob_dec req rs = do {
     (serviceName, methodName) \<leftarrow> split_meth (rq_svcMeth req);
     let rs1 = rs\<lparr>srv_count := srv_count rs + 1\<rparr>;
     case dispatchf rs of
       Some f \<Rightarrow> (case f (rq_svcMeth req) (rq_args req) of (rep, ok) \<Rightarrow> Some (rs1, \<lparr>rp_ok = ok, rp_reply = rep\<rparr>))
     | None \<Rightarrow> do {
         svc \<leftarrow> map_of (services rs) serviceName;
         (svc', rep) \<leftarrow> Service_dispatch gob_enc gob_dec methodName req svc;
         Some (rs1\<lparr>services := AList.update serviceName svc' (services rs)\<rparr>, rep)
       }
   }"

definition Server_Dispatch ::
  "('v \<Rightarrow> string) \<Rightarrow> (string \<Rightarrow> 'v option) \<Rightarrow> string \<Rightarrow> string \<Rightarrow> string \<Rightarrow> ('s, 'v) Server \<Rightarrow>
   (('s, 'v) Server \<times> string \<times> bool) option" where
  "Server_Dispatch gob_enc gob_dec svcMeth clnt args rs = do {
     (rs', rep) \<leftarrow> Server_dispatch gob_enc gob_dec \<lparr>rq_endname = clnt, rq_svcMeth = svcMeth, rq_args = args\<rparr> rs;
     Some (rs', rp_reply rep, rp_ok rep)
   }"

section \<open>Client ends\<close>

record ClientEnd =
  endname :: string
  callf :: "(string \<Rightarrow> string \<Rightarrow> string \<Rightarrow> string \<times> bool) option"

definition SetCall :: "(string \<Rightarrow> string \<Rightarrow> string \<Rightarrow> string \<times> bool) \<Rightarrow> ClientEnd \<Rightarrow> ClientEnd" where
  "SetCall f e = e\<lparr>callf := Some f\<rparr>"

text \<open>
  \<open>Call\<close>: either the end's own function answers, or a request goes to the network and its reply is
  decoded when it comes.
\<close>

definition Call_request :: "('v \<Rightarrow> string) \<Rightarrow> ClientEnd \<Rightarrow> string \<Rightarrow> 'v \<Rightarrow> reqMsg" where
  "Call_request gob_enc e svcMeth args = \<lparr>rq_endname = endname e, rq_svcMeth = svcMeth, rq_args = gob_enc args\<rparr>"

definition Call_reply :: "(string \<Rightarrow> 'v option) \<Rightarrow> replyMsg \<Rightarrow> (bool \<times> 'v option) option" where
  "Call_reply gob_dec rep =
     (if rp_ok rep then map_option (\<lambda>v. (True, Some v)) (gob_dec (rp_reply rep)) else Some (False, None))"

definition Call ::
  "('v \<Rightarrow> string) \<Rightarrow> (string \<Rightarrow> 'v option) \<Rightarrow> (reqMsg \<Rightarrow> replyMsg option) \<Rightarrow> ClientEnd \<Rightarrow> string \<Rightarrow> 'v \<Rightarrow>
   (bool \<times> 'v option) option" where
  "Call gob_enc gob_dec network e svcMeth args =
     (case callf e of
        Some f \<Rightarrow> (case f (endname e) svcMeth (gob_enc args) of
                     (rep, ok) \<Rightarrow> Call_reply gob_dec \<lparr>rp_ok = ok, rp_reply = rep\<rparr>)
      | None \<Rightarrow> (case network (Call_request gob_enc e svcMeth args) of
                   None \<Rightarrow> Some (False, None)
                 | Some rep \<Rightarrow> Call_reply gob_dec rep))"

definition Forward :: "(reqMsg \<Rightarrow> replyMsg option) \<Rightarrow> ClientEnd \<Rightarrow> string \<Rightarrow> string \<Rightarrow> string \<times> bool" where
  "Forward network e svcMeth args =
     (case network \<lparr>rq_endname = endname e, rq_svcMeth = svcMeth, rq_args = args\<rparr> of
        None \<Rightarrow> ([], False)
      | Some rep \<Rightarrow> (rp_reply rep, rp_ok rep))"

section \<open>The network\<close>

text \<open>
  The maps are total functions with Go's zero value for a missing key; a deleted server is \<open>nil\<close>.
  \<open>servers\<close> yields heap addresses.
\<close>

record Network =
  reliable :: bool
  longDelays :: bool
  longReordering :: bool
  ends :: "string \<Rightarrow> ClientEnd option"
  enabled :: "string \<Rightarrow> bool"
  servers :: "string \<Rightarrow> nat option"
  connections :: "string \<Rightarrow> string option"
  net_done :: bool
  net_count :: "32 word"
  net_bytes :: "64 word"

definition MakeNetwork :: Network where
  "MakeNetwork =
     \<lparr>reliable = True, longDelays = False, longReordering = False, ends = (\<lambda>_. None), enabled = (\<lambda>_. False),
      servers = (\<lambda>_. None), connections = (\<lambda>_. None), net_done = False, net_count = 0, net_bytes = 0\<rparr>"

definition Cleanup :: "Network \<Rightarrow> Network" where
  "Cleanup rn = rn\<lparr>net_done := True\<rparr>"

definition Reliable :: "bool \<Rightarrow> Network \<Rightarrow> Network" where
  "Reliable yes rn = rn\<lparr>reliable := yes\<rparr>"

definition LongReordering :: "bool \<Rightarrow> Network \<Rightarrow> Network" where
  "LongReordering yes rn = rn\<lparr>longReordering := yes\<rparr>"

definition LongDelays :: "bool \<Rightarrow> Network \<Rightarrow> Network" where
  "LongDelays yes rn = rn\<lparr>longDelays := yes\<rparr>"

definition readEndnameInfo :: "string \<Rightarrow> Network \<Rightarrow> bool \<times> string option \<times> nat option \<times> bool \<times> bool" where
  "readEndnameInfo e rn =
     (enabled rn e, connections rn e, (case connections rn e of None \<Rightarrow> None | Some s \<Rightarrow> servers rn s),
      reliable rn, longReordering rn)"

definition isServerDead :: "string \<Rightarrow> string \<Rightarrow> nat \<Rightarrow> Network \<Rightarrow> bool" where
  "isServerDead e servername server rn \<longleftrightarrow> \<not> enabled rn e \<or> servers rn servername \<noteq> Some server"

definition MakeEnd :: "string \<Rightarrow> Network \<Rightarrow> (Network \<times> ClientEnd) option" where
  "MakeEnd e rn =
     (case ends rn e of
        Some _ \<Rightarrow> None
      | None \<Rightarrow> let ce = \<lparr>endname = e, callf = None\<rparr> in
          Some (rn\<lparr>ends := (ends rn)(e \<mapsto> ce), enabled := (enabled rn)(e := False),
                   connections := (connections rn)(e := None)\<rparr>, ce))"

definition LookupEnd :: "string \<Rightarrow> Network \<Rightarrow> ClientEnd option" where
  "LookupEnd e rn = ends rn e"

definition DeleteEnd :: "string \<Rightarrow> Network \<Rightarrow> Network option" where
  "DeleteEnd e rn =
     (case ends rn e of
        None \<Rightarrow> None
      | Some _ \<Rightarrow> Some (rn\<lparr>ends := (ends rn)(e := None), enabled := (enabled rn)(e := False),
                          connections := (connections rn)(e := None)\<rparr>))"

definition AddServer :: "string \<Rightarrow> nat \<Rightarrow> Network \<Rightarrow> Network" where
  "AddServer servername rs rn = rn\<lparr>servers := (servers rn)(servername \<mapsto> rs)\<rparr>"

definition DeleteServer :: "string \<Rightarrow> Network \<Rightarrow> Network" where
  "DeleteServer servername rn = rn\<lparr>servers := (servers rn)(servername := None)\<rparr>"

definition Connect :: "string \<Rightarrow> string \<Rightarrow> Network \<Rightarrow> Network" where
  "Connect e servername rn = rn\<lparr>connections := (connections rn)(e \<mapsto> servername)\<rparr>"

definition Enable :: "string \<Rightarrow> bool \<Rightarrow> Network \<Rightarrow> Network" where
  "Enable e yes rn = rn\<lparr>enabled := (enabled rn)(e := yes)\<rparr>"

section \<open>The life of a request\<close>

text \<open>
  \<open>Running\<close>: the handler's goroutine has been started and \<open>processReq\<close> waits for it; \<open>Delayed\<close>: the
  reply waits for its timer; \<open>Answered\<close>: the caller has its reply. \<open>ran\<close> is what the handler put on
  its channel.
\<close>

datatype phase = Queued | Running | Delayed replyMsg | Answered replyMsg

record rpc =
  req :: reqMsg
  info :: "(string \<times> nat \<times> bool \<times> bool) option"
  ran :: "replyMsg option"
  ph :: phase

record ('s, 'v) rpc_world =
  net :: Network
  heap :: "('s, 'v) Server list"
  rpcs :: "rpc list"

text \<open>A caller sends a request: the network's goroutine counts it and starts \<open>processReq\<close>.\<close>

definition accept :: "reqMsg \<Rightarrow> Network \<Rightarrow> Network" where
  "accept r rn = rn\<lparr>net_count := net_count rn + 1, net_bytes := net_bytes rn + of_nat (length (rq_args r))\<rparr>"

definition processReq_begin :: "int \<Rightarrow> Network \<Rightarrow> rpc \<Rightarrow> rpc" where
  "processReq_begin rnd rn r =
     (case readEndnameInfo (rq_endname (req r)) rn of
        (True, Some servername, Some server, rel, lr) \<Rightarrow>
          if \<not> rel \<and> rnd mod 1000 < 100 then r\<lparr>ph := Answered failed\<rparr>
          else r\<lparr>info := Some (servername, server, rel, lr), ph := Running\<rparr>
      | _ \<Rightarrow> r\<lparr>ph := Answered failed\<rparr>)"

text \<open>The timer of the waiting loop: give up when the server is dead.\<close>

definition processReq_timer :: "Network \<Rightarrow> rpc \<Rightarrow> rpc" where
  "processReq_timer rn r =
     (case info r of
        None \<Rightarrow> r
      | Some (servername, server, _, _) \<Rightarrow>
          if isServerDead (rq_endname (req r)) servername server rn then r\<lparr>ph := Answered failed\<rparr> else r)"

definition sent :: "replyMsg \<Rightarrow> Network \<Rightarrow> Network" where
  "sent rep rn = rn\<lparr>net_bytes := net_bytes rn + of_nat (length (rp_reply rep))\<rparr>"

text \<open>The handler has answered.\<close>

definition processReq_finish :: "int \<Rightarrow> int \<Rightarrow> Network \<Rightarrow> rpc \<Rightarrow> Network \<times> rpc" where
  "processReq_finish rnd1 rnd2 rn r =
     (case (info r, ran r) of
        (Some (servername, server, rel, lr), Some rep) \<Rightarrow>
          if isServerDead (rq_endname (req r)) servername server rn then (rn, r\<lparr>ph := Answered failed\<rparr>)
          else if \<not> rel \<and> rnd1 mod 1000 < 100 then (rn, r\<lparr>ph := Answered failed\<rparr>)
          else if lr \<and> rnd2 < 600 then (rn, r\<lparr>ph := Delayed rep\<rparr>)
          else (sent rep rn, r\<lparr>ph := Answered rep\<rparr>)
      | _ \<Rightarrow> (rn, r))"

section \<open>Schedules\<close>

datatype admin =
    OpReliable bool
  | OpLongReordering bool
  | OpLongDelays bool
  | OpMakeEnd string
  | OpDeleteEnd string
  | OpAddServer string nat
  | OpDeleteServer string
  | OpConnect string string
  | OpEnable string bool
  | OpCleanup

fun administer :: "admin \<Rightarrow> Network \<Rightarrow> Network option" where
  "administer (OpReliable yes) rn = Some (Reliable yes rn)"
| "administer (OpLongReordering yes) rn = Some (LongReordering yes rn)"
| "administer (OpLongDelays yes) rn = Some (LongDelays yes rn)"
| "administer (OpMakeEnd e) rn = map_option fst (MakeEnd e rn)"
| "administer (OpDeleteEnd e) rn = DeleteEnd e rn"
| "administer (OpAddServer s a) rn = Some (AddServer s a rn)"
| "administer (OpDeleteServer s) rn = Some (DeleteServer s rn)"
| "administer (OpConnect e s) rn = Some (Connect e s rn)"
| "administer (OpEnable e yes) rn = Some (Enable e yes rn)"
| "administer OpCleanup rn = Some (Cleanup rn)"

datatype ('s, 'v) net_event =
    Send reqMsg
  | Begin nat int
  | Handler nat
  | Timer nat
  | Finish nat int int
  | Deliver nat
  | NewServer "('s, 'v) Service list"
  | Admin admin

definition upd_rpc :: "nat \<Rightarrow> rpc \<Rightarrow> ('s, 'v) rpc_world \<Rightarrow> ('s, 'v) rpc_world" where
  "upd_rpc i r w = w\<lparr>rpcs := (rpcs w)[i := r]\<rparr>"

fun net_exec ::
  "('v \<Rightarrow> string) \<Rightarrow> (string \<Rightarrow> 'v option) \<Rightarrow> ('s, 'v) net_event \<Rightarrow> ('s, 'v) rpc_world \<Rightarrow> ('s, 'v) rpc_world option" where
  "net_exec enc dec (Send rq) w =
     (if net_done (net w) then None
      else Some (w\<lparr>net := accept rq (net w), rpcs := rpcs w @ [\<lparr>req = rq, info = None, ran = None, ph = Queued\<rparr>]\<rparr>))"
| "net_exec enc dec (Begin i rnd) w =
     (if i < length (rpcs w) \<and> ph (rpcs w ! i) = Queued
      then Some (upd_rpc i (processReq_begin rnd (net w) (rpcs w ! i)) w) else None)"
| "net_exec enc dec (Handler i) w =
     (if i < length (rpcs w) \<and> ran (rpcs w ! i) = None
      then (case info (rpcs w ! i) of
              None \<Rightarrow> None
            | Some (_, server, _, _) \<Rightarrow>
                if server < length (heap w) then do {
                  (rs, rep) \<leftarrow> Server_dispatch enc dec (req (rpcs w ! i)) (heap w ! server);
                  Some (upd_rpc i ((rpcs w ! i)\<lparr>ran := Some rep\<rparr>) (w\<lparr>heap := (heap w)[server := rs]\<rparr>))
                } else None)
      else None)"
| "net_exec enc dec (Timer i) w =
     (if i < length (rpcs w) \<and> ph (rpcs w ! i) = Running
      then Some (upd_rpc i (processReq_timer (net w) (rpcs w ! i)) w) else None)"
| "net_exec enc dec (Finish i rnd1 rnd2) w =
     (if i < length (rpcs w) \<and> ph (rpcs w ! i) = Running \<and> ran (rpcs w ! i) \<noteq> None
      then (case processReq_finish rnd1 rnd2 (net w) (rpcs w ! i) of
              (rn, r) \<Rightarrow> Some (upd_rpc i r (w\<lparr>net := rn\<rparr>)))
      else None)"
| "net_exec enc dec (Deliver i) w =
     (if i < length (rpcs w)
      then (case ph (rpcs w ! i) of
              Delayed rep \<Rightarrow> Some (upd_rpc i ((rpcs w ! i)\<lparr>ph := Answered rep\<rparr>) (w\<lparr>net := sent rep (net w)\<rparr>))
            | _ \<Rightarrow> None)
      else None)"
| "net_exec enc dec (NewServer svcs) w = Some (w\<lparr>heap := heap w @ [fold AddService svcs MakeServer]\<rparr>)"
| "net_exec enc dec (Admin op) w = map_option (\<lambda>rn. w\<lparr>net := rn\<rparr>) (administer op (net w))"

fun net_run ::
  "('v \<Rightarrow> string) \<Rightarrow> (string \<Rightarrow> 'v option) \<Rightarrow> ('s, 'v) net_event list \<Rightarrow> ('s, 'v) rpc_world \<Rightarrow> ('s, 'v) rpc_world option" where
  "net_run enc dec [] w = Some w"
| "net_run enc dec (e # es) w = do { w' \<leftarrow> net_exec enc dec e w; net_run enc dec es w' }"

definition net_start :: "('s, 'v) rpc_world" where
  "net_start = \<lparr>net = MakeNetwork, heap = [], rpcs = []\<rparr>"

text \<open>\<open>GetCount\<close> of a server that was deleted dereferences \<open>nil\<close>.\<close>

definition GetCount :: "string \<Rightarrow> ('s, 'v) rpc_world \<Rightarrow> nat option" where
  "GetCount servername w = do {
     a \<leftarrow> servers (net w) servername;
     if a < length (heap w) then Some (srv_count (heap w ! a)) else None
   }"

definition GetTotalCount :: "('s, 'v) rpc_world \<Rightarrow> int" where
  "GetTotalCount w = sint (net_count (net w))"

definition GetTotalBytes :: "('s, 'v) rpc_world \<Rightarrow> int" where
  "GetTotalBytes w = sint (net_bytes (net w))"

end
