(* ===== verification/TesterGroup.thy ===== *)
theory TesterGroup
  imports LabRpc Persister
begin

text \<open>
  Groups of servers in the tester, \<open>src/tester1/group.go\<close> and \<open>src/tester1/srv.go\<close>: every server has one
  end of its own to each server of its group, and connecting, disconnecting and partitioning servers
  is enabling and disabling these ends in the network. \<open>rs k\<close> is the k-th result of \<open>Randstring\<close>; the
  state carries the number of names drawn. A daemon is the persister it holds, which is all the
  tester reads of it; if its process starts is an argument. An index out of range (a panic) and
  \<open>log.Fatalf\<close> are \<^term>\<open>None\<close>.
\<close>

type_synonym Tgid = int

definition ServerName :: "Tgid \<Rightarrow> nat \<Rightarrow> string" where
  "ServerName gid i = ''server-'' @ itoa gid @ ''-'' @ itoa (int i)"

section \<open>srv.go\<close>

record ('r, 'b) TServer =
  saved :: "('r, 'b) Persister option"
  endNames :: "string list"
  clntEnds :: "ClientEnd list"
  dc :: "('r, 'b) Persister option"

text \<open>The network and the number of random names drawn so far.\<close>

type_synonym tnet = "Network \<times> nat"

fun makeEnds :: "(nat \<Rightarrow> string) \<Rightarrow> Tgid \<Rightarrow> nat list \<Rightarrow> tnet \<Rightarrow> (tnet \<times> (string \<times> ClientEnd) list) option" where
  "makeEnds rs gid [] nk = Some (nk, [])"
| "makeEnds rs gid (j # js) (rn, k) = do {
     (rn1, ce) \<leftarrow> MakeEnd (rs k) rn;
     (nk, es) \<leftarrow> makeEnds rs gid js (Connect (rs k) (ServerName gid j) rn1, Suc k);
     Some (nk, (rs k, ce) # es)
   }"

definition makeServer :: "(nat \<Rightarrow> string) \<Rightarrow> Tgid \<Rightarrow> nat \<Rightarrow> tnet \<Rightarrow> (tnet \<times> ('r, 'b) TServer) option" where
  "makeServer rs gid nsrv nk = do {
     (nk', es) \<leftarrow> makeEnds rs gid [0..<nsrv] nk;
     Some (nk', \<lparr>saved = None, endNames = map fst es, clntEnds = map snd es, dc = None\<rparr>)
   }"

definition startServer :: "(nat \<Rightarrow> string) \<Rightarrow> Tgid \<Rightarrow> ('r, 'b) TServer \<Rightarrow> tnet \<Rightarrow> (tnet \<times> ('r, 'b) TServer) option" where
  "startServer rs gid s nk = do {
     (nk', srv) \<leftarrow> makeServer rs gid (length (endNames s)) nk;
     Some (nk', srv\<lparr>saved := Some (case saved s of None \<Rightarrow> MakePersister | Some p \<Rightarrow> p)\<rparr>)
   }"

definition Server_connect :: "bool list \<Rightarrow> nat list \<Rightarrow> ('r, 'b) TServer \<Rightarrow> Network \<Rightarrow> Network" where
  "Server_connect conn to s rn = fold (\<lambda>j rn. if conn ! j then Enable (endNames s ! j) True rn else rn) to rn"

definition Server_disconnect :: "nat list \<Rightarrow> ('r, 'b) TServer \<Rightarrow> Network \<Rightarrow> Network" where
  "Server_disconnect from s rn = fold (\<lambda>j rn. Enable (endNames s ! j) False rn) from rn"

text \<open>\<open>DaemonSrv.Init\<close> and \<open>DaemonClnt.checkpointPersister\<close>: the persister travels as two byte strings.\<close>

definition daemon_init :: "('r, 'b) Persister \<Rightarrow> ('r, 'b) Persister" where
  "daemon_init p = Save (ReadRaftState p) (ReadSnapshot p) MakePersister"

definition checkpointPersister :: "('r, 'b) Persister \<Rightarrow> ('r, 'b) Persister" where
  "checkpointPersister p = (let q = Checkpoint p in Save (ReadRaftState q) (ReadSnapshot q) MakePersister)"

definition shutdownServer :: "('r, 'b) TServer \<Rightarrow> ('r, 'b) TServer" where
  "shutdownServer s = (case dc s of None \<Rightarrow> s | Some p \<Rightarrow> s\<lparr>saved := Some (checkpointPersister p), dc := None\<rparr>)"

definition raftSize :: "('r, 'b) TServer \<Rightarrow> nat option" where
  "raftSize s = (case dc s of Some p \<Rightarrow> Some (RaftStateSize p) | None \<Rightarrow> map_option RaftStateSize (saved s))"

definition snapshotSize :: "('r, 'b) TServer \<Rightarrow> nat option" where
  "snapshotSize s = (case dc s of Some p \<Rightarrow> Some (SnapshotSize p) | None \<Rightarrow> map_option SnapshotSize (saved s))"

section \<open>group.go\<close>

record ('r, 'b) ServerGrp =
  srvs :: "('r, 'b) TServer list"
  servernames :: "string list"
  gid :: Tgid
  connected :: "bool list"

type_synonym ('r, 'b) grp_state = "tnet \<times> ('r, 'b) ServerGrp"

fun makeServers :: "(nat \<Rightarrow> string) \<Rightarrow> Tgid \<Rightarrow> nat \<Rightarrow> nat \<Rightarrow> tnet \<Rightarrow> (tnet \<times> ('r, 'b) TServer list) option" where
  "makeServers rs g n 0 nk = Some (nk, [])"
| "makeServers rs g n (Suc m) nk = do {
     (nk1, s) \<leftarrow> makeServer rs g n nk;
     (nk2, ss) \<leftarrow> makeServers rs g n m nk1;
     Some (nk2, s # ss)
   }"

definition makeSrvGrp :: "(nat \<Rightarrow> string) \<Rightarrow> Tgid \<Rightarrow> nat \<Rightarrow> tnet \<Rightarrow> ('r, 'b) grp_state option" where
  "makeSrvGrp rs g n nk = do {
     (nk', ss) \<leftarrow> makeServers rs g n n nk;
     Some (nk', \<lparr>srvs = ss, servernames = map (ServerName g) [0..<n], gid = g, connected = replicate n False\<rparr>)
   }"

definition SrvNamesTo :: "('r, 'b) ServerGrp \<Rightarrow> nat list \<Rightarrow> string list option" where
  "SrvNamesTo sg to =
     (if list_all (\<lambda>i. i < length (servernames sg)) to then Some (map ((!) (servernames sg)) to) else None)"

definition all :: "('r, 'b) ServerGrp \<Rightarrow> nat list" where
  "all sg = [0..<length (srvs sg)]"

definition in_range :: "('r, 'b) ServerGrp \<Rightarrow> nat list \<Rightarrow> bool" where
  "in_range sg idx = list_all (\<lambda>i. i < length (srvs sg)) idx"

definition grp_connect :: "nat \<Rightarrow> nat list \<Rightarrow> ('r, 'b) grp_state \<Rightarrow> ('r, 'b) grp_state option" where
  "grp_connect i to st =
     (case st of ((rn, k), sg) \<Rightarrow>
        if in_range sg (i # to) then
          let conn = (connected sg)[i := True];
              rn1 = Server_connect conn to (srvs sg ! i) rn;
              rn2 = fold (\<lambda>j rn. if conn ! j then Enable (endNames (srvs sg ! j) ! i) True rn else rn) to rn1
          in Some ((rn2, k), sg\<lparr>connected := conn\<rparr>)
        else None)"

definition grp_disconnect :: "nat \<Rightarrow> nat list \<Rightarrow> ('r, 'b) grp_state \<Rightarrow> ('r, 'b) grp_state option" where
  "grp_disconnect i from st =
     (case st of ((rn, k), sg) \<Rightarrow>
        if in_range sg (i # from) then
          let rn1 = Server_disconnect from (srvs sg ! i) rn;
              rn2 = fold (\<lambda>j rn. Enable (endNames (srvs sg ! j) ! i) False rn) from rn1
          in Some ((rn2, k), sg\<lparr>connected := (connected sg)[i := False]\<rparr>)
        else None)"

definition ConnectOne :: "nat \<Rightarrow> ('r, 'b) grp_state \<Rightarrow> ('r, 'b) grp_state option" where
  "ConnectOne i st = grp_connect i (all (snd st)) st"

definition DisconnectAll :: "nat \<Rightarrow> ('r, 'b) grp_state \<Rightarrow> ('r, 'b) grp_state option" where
  "DisconnectAll i st = grp_disconnect i (all (snd st)) st"

text \<open>A loop of operations of the group.\<close>

fun each :: "('x \<Rightarrow> 's \<Rightarrow> 's option) \<Rightarrow> 'x list \<Rightarrow> 's \<Rightarrow> 's option" where
  "each f [] st = Some st"
| "each f (x # xs) st = do { st' \<leftarrow> f x st; each f xs st' }"

definition ConnectAll :: "('r, 'b) grp_state \<Rightarrow> ('r, 'b) grp_state option" where
  "ConnectAll st = each ConnectOne (all (snd st)) st"

text \<open>
  \<open>StartServer\<close>: \<open>run\<close> says if the daemon's process starts, \<open>addr\<close> is the new server of \<open>labrpc\<close>; the
  flag of the result is the returned error.
\<close>

definition StartServer ::
  "(nat \<Rightarrow> string) \<Rightarrow> bool \<Rightarrow> nat \<Rightarrow> nat \<Rightarrow> ('r, 'b) grp_state \<Rightarrow> (('r, 'b) grp_state \<times> bool) option" where
  "StartServer rs run addr i st =
     (case st of (nk, sg) \<Rightarrow>
        if in_range sg [i] then do {
          ((rn, k), srv) \<leftarrow> startServer rs (gid sg) (srvs sg ! i) nk;
          if \<not> run then Some (((rn, k), sg\<lparr>srvs := (srvs sg)[i := srv]\<rparr>), True)
          else do {
            p \<leftarrow> saved srv;
            Some (((AddServer (ServerName (gid sg) i) addr rn, k),
                   sg\<lparr>srvs := (srvs sg)[i := srv\<lparr>dc := Some (daemon_init p)\<rparr>]\<rparr>), False)
          }
        } else None)"

text \<open>\<open>StartSrvs\<close> ignores the errors of \<open>StartServer\<close>; \<open>env i\<close> is the process and the address of server \<open>i\<close>.\<close>

definition StartSrvs ::
  "(nat \<Rightarrow> string) \<Rightarrow> (nat \<Rightarrow> bool \<times> nat) \<Rightarrow> nat list \<Rightarrow> ('r, 'b) grp_state \<Rightarrow> ('r, 'b) grp_state option" where
  "StartSrvs rs env idx st = each (\<lambda>i st. map_option fst (StartServer rs (fst (env i)) (snd (env i)) i st)) idx st"

definition StartServers ::
  "(nat \<Rightarrow> string) \<Rightarrow> (nat \<Rightarrow> bool \<times> nat) \<Rightarrow> ('r, 'b) grp_state \<Rightarrow> ('r, 'b) grp_state option" where
  "StartServers rs env st = do { st' \<leftarrow> StartSrvs rs env (all (snd st)) st; ConnectAll st' }"

definition ShutdownServer :: "nat \<Rightarrow> ('r, 'b) grp_state \<Rightarrow> ('r, 'b) grp_state option" where
  "ShutdownServer i st = do {
     ((rn, k), sg) \<leftarrow> grp_disconnect i (all (snd st)) st;
     Some ((DeleteServer (ServerName (gid sg) i) rn, k),
           sg\<lparr>srvs := (srvs sg)[i := shutdownServer (srvs sg ! i)]\<rparr>)
   }"

definition Kill :: "nat list \<Rightarrow> ('r, 'b) grp_state \<Rightarrow> ('r, 'b) grp_state option" where
  "Kill idx st = each ShutdownServer idx st"

definition Shutdown :: "('r, 'b) grp_state \<Rightarrow> ('r, 'b) grp_state option" where
  "Shutdown st = Kill (all (snd st)) st"

definition RaftSize :: "('r, 'b) ServerGrp \<Rightarrow> nat option" where
  "RaftSize sg = each (\<lambda>s logsize. map_option (\<lambda>n. if n > logsize then n else logsize) (raftSize s)) (srvs sg) 0"

definition grp_SnapshotSize :: "('r, 'b) ServerGrp \<Rightarrow> nat option" where
  "grp_SnapshotSize sg = each (\<lambda>s sz. map_option (\<lambda>n. if n > sz then n else sz) (snapshotSize s)) (srvs sg) 0"

text \<open>\<open>MakePartition\<close>: two arrays are filled by position; the leader overwrites the last place of the second.\<close>

fun MakePartition_loop :: "int \<Rightarrow> nat list \<Rightarrow> nat \<times> int list \<times> int list \<Rightarrow> (nat \<times> int list \<times> int list) option" where
  "MakePartition_loop l [] r = Some r"
| "MakePartition_loop l (i # ks) (j, p1, p2) =
     (if int i \<noteq> l then
        if j < length p1 then MakePartition_loop l ks (j + 1, p1[j := int i], p2)
        else if j - length p1 < length p2 then MakePartition_loop l ks (j + 1, p1, p2[j - length p1 := int i])
        else None
      else MakePartition_loop l ks (j, p1, p2))"

definition MakePartition :: "int \<Rightarrow> ('r, 'b) ServerGrp \<Rightarrow> (int list \<times> int list) option" where
  "MakePartition l sg =
     (let n = length (srvs sg) in do {
        (j, p1, p2) \<leftarrow> MakePartition_loop l [0..<n] (0, replicate (n div 2 + 1) 0, replicate (n div 2) 0);
        if p2 = [] then None else Some (p1, p2[length p2 - 1 := l])
      })"

definition Partition :: "nat list \<Rightarrow> nat list \<Rightarrow> ('r, 'b) grp_state \<Rightarrow> ('r, 'b) grp_state option" where
  "Partition p1 p2 st = do {
     st1 \<leftarrow> each (\<lambda>i st. do { st' \<leftarrow> grp_disconnect i p2 st; grp_connect i p1 st' }) p1 st;
     each (\<lambda>i st. do { st' \<leftarrow> grp_disconnect i p1 st; grp_connect i p2 st' }) p2 st1
   }"

definition RpcCount :: "nat \<Rightarrow> ('r, 'b) ServerGrp \<Rightarrow> ('s, 'v) rpc_world \<Rightarrow> nat option" where
  "RpcCount server sg w = GetCount (ServerName (gid sg) server) w"

section \<open>The groups of a test\<close>

record ('r, 'b) Groups =
  grps :: "(Tgid \<times> ('r, 'b) ServerGrp) list"

definition newGroups :: "('r, 'b) Groups" where
  "newGroups = \<lparr>grps = []\<rparr>"

definition MakeGroup :: "(nat \<Rightarrow> string) \<Rightarrow> Tgid \<Rightarrow> nat \<Rightarrow> tnet \<times> ('r, 'b) Groups \<Rightarrow> (tnet \<times> ('r, 'b) Groups) option" where
  "MakeGroup rs g nsrv st = do {
     (nk, sg) \<leftarrow> makeSrvGrp rs g nsrv (fst st);
     Some (nk, (snd st)\<lparr>grps := AList.update g sg (grps (snd st))\<rparr>)
   }"

definition lookupGroup :: "Tgid \<Rightarrow> ('r, 'b) Groups \<Rightarrow> ('r, 'b) ServerGrp option" where
  "lookupGroup g gs = map_of (grps gs) g"

definition delete_group :: "Tgid \<Rightarrow> ('r, 'b) Groups \<Rightarrow> ('r, 'b) Groups" where
  "delete_group g gs = gs\<lparr>grps := AList.delete g (grps gs)\<rparr>"

text \<open>An operation on a group of the test; a missing group is a nil pointer.\<close>

definition on_group ::
  "Tgid \<Rightarrow> (('r, 'b) grp_state \<Rightarrow> ('r, 'b) grp_state option) \<Rightarrow> tnet \<times> ('r, 'b) Groups \<Rightarrow> (tnet \<times> ('r, 'b) Groups) option" where
  "on_group g f st = do {
     sg \<leftarrow> lookupGroup g (snd st);
     (nk, sg') \<leftarrow> f (fst st, sg);
     Some (nk, (snd st)\<lparr>grps := AList.update g sg' (grps (snd st))\<rparr>)
   }"

definition Groups_cleanup :: "tnet \<times> ('r, 'b) Groups \<Rightarrow> (tnet \<times> ('r, 'b) Groups) option" where
  "Groups_cleanup st = each (\<lambda>g. on_group g Shutdown) (map fst (grps (snd st))) st"

definition MakeGroupStart ::
  "(nat \<Rightarrow> string) \<Rightarrow> (nat \<Rightarrow> bool \<times> nat) \<Rightarrow> Tgid \<Rightarrow> nat \<Rightarrow> tnet \<times> ('r, 'b) Groups \<Rightarrow> (tnet \<times> ('r, 'b) Groups) option" where
  "MakeGroupStart rs env g nsrv st = do { st' \<leftarrow> MakeGroup rs g nsrv st; on_group g (StartServers rs env) st' }"

definition ExitGroup :: "Tgid \<Rightarrow> tnet \<times> ('r, 'b) Groups \<Rightarrow> (tnet \<times> ('r, 'b) Groups) option" where
  "ExitGroup g st = do { st' \<leftarrow> on_group g Shutdown st; Some (fst st', delete_group g (snd st')) }"

end
