(* ===== verification/TesterGroupProps.thy ===== *)
theory TesterGroupProps
  imports TesterGroup
begin

text \<open>
  What connecting, disconnecting, partitioning, stopping and starting servers means for the requests
  between them.
\<close>

section \<open>Enabled links\<close>

abbreviation link :: "('r, 'b) ServerGrp \<Rightarrow> nat \<Rightarrow> nat \<Rightarrow> string" where
  "link sg i j \<equiv> endNames (srvs sg ! i) ! j"

definition size_of :: "('r, 'b) ServerGrp \<Rightarrow> nat" where
  "size_of sg = length (srvs sg)"

text \<open>The names of the ends are a matrix without repetitions.\<close>

definition names_ok :: "('r, 'b) ServerGrp \<Rightarrow> bool" where
  "names_ok sg \<longleftrightarrow> length (connected sg) = size_of sg \<and>
     (\<forall>i < size_of sg. length (endNames (srvs sg ! i)) = size_of sg) \<and>
     (\<forall>i < size_of sg. \<forall>j < size_of sg. \<forall>a < size_of sg. \<forall>b < size_of sg.
        link sg i j = link sg a b \<longrightarrow> i = a \<and> j = b)"

lemma names_inj:
  "names_ok sg \<Longrightarrow> i < size_of sg \<Longrightarrow> j < size_of sg \<Longrightarrow> a < size_of sg \<Longrightarrow> b < size_of sg \<Longrightarrow>
   link sg i j = link sg a b \<longleftrightarrow> i = a \<and> j = b"
  unfolding names_ok_def by blast

lemma fold_Enable_True:
  "fold (\<lambda>j rn. if P j then Enable (f j) True rn else rn) to rn =
   rn\<lparr>enabled := \<lambda>e. enabled rn e \<or> (\<exists>j \<in> set to. P j \<and> e = f j)\<rparr>"
  by (induction to arbitrary: rn) (auto simp: Enable_def fun_eq_iff intro!: Network.equality)

lemma fold_Enable_False:
  "fold (\<lambda>j rn. Enable (f j) False rn) from rn = rn\<lparr>enabled := \<lambda>e. enabled rn e \<and> (\<forall>j \<in> set from. e \<noteq> f j)\<rparr>"
  by (induction "from" arbitrary: rn) (auto simp: Enable_def fun_eq_iff intro!: Network.equality)

text \<open>The enabled links of a group, and the state apart from them.\<close>

definition linked :: "('r, 'b) grp_state \<Rightarrow> nat \<Rightarrow> nat \<Rightarrow> bool" where
  "linked st i j \<longleftrightarrow> enabled (fst (fst st)) (link (snd st) i j)"

definition links :: "('r, 'b) ServerGrp \<Rightarrow> string set" where
  "links sg = {link sg i j |i j. i < size_of sg \<and> j < size_of sg}"

definition same_but_links :: "('r, 'b) grp_state \<Rightarrow> ('r, 'b) grp_state \<Rightarrow> bool" where
  "same_but_links st st' \<longleftrightarrow> snd (fst st') = snd (fst st) \<and> srvs (snd st') = srvs (snd st) \<and> gid (snd st') = gid (snd st) \<and>
     length (connected (snd st')) = length (connected (snd st)) \<and>
     (\<exists>E. fst (fst st') = (fst (fst st))\<lparr>enabled := E\<rparr>) \<and>
     (\<forall>e. e \<notin> links (snd st) \<longrightarrow> enabled (fst (fst st')) e = enabled (fst (fst st)) e)"

lemma same_but_links_refl [simp]: "same_but_links st st"
  unfolding same_but_links_def by (metis Network.surjective Network.update_convs(5))

lemma same_but_links_trans: "same_but_links a b \<Longrightarrow> same_but_links b c \<Longrightarrow> same_but_links a c"
  by (auto simp: same_but_links_def links_def size_of_def)

lemma same_names: "same_but_links st st' \<Longrightarrow> names_ok (snd st') = names_ok (snd st) \<and> size_of (snd st') = size_of (snd st)"
  by (simp add: same_but_links_def names_ok_def size_of_def)

lemma in_range_iff: "in_range sg idx \<longleftrightarrow> set idx \<subseteq> {..<size_of sg}"
  by (auto simp: in_range_def list_all_iff size_of_def)

lemma connect_outcome:
  assumes ok: "names_ok (snd st)" and r: "insert i (set to) \<subseteq> {..<size_of (snd st)}"
  shows "\<exists>st'. grp_connect i to st = Some st' \<and> same_but_links st st' \<and>
    connected (snd st') = (connected (snd st))[i := True] \<and>
    (\<forall>a < size_of (snd st). \<forall>b < size_of (snd st). linked st' a b \<longleftrightarrow> linked st a b \<or>
       (a = i \<and> b \<in> set to \<and> connected (snd st') ! b) \<or> (b = i \<and> a \<in> set to \<and> connected (snd st') ! a))"
proof -
  obtain rn k sg where st: "st = ((rn, k), sg)" by (metis surj_pair)
  define conn where "conn = (connected sg)[i := True]"
  let ?E = "\<lambda>e. (enabled rn e \<or> (\<exists>j \<in> set to. conn ! j \<and> e = link sg i j)) \<or> (\<exists>j \<in> set to. conn ! j \<and> e = link sg j i)"
  let ?st = "((rn\<lparr>enabled := ?E\<rparr>, k), sg\<lparr>connected := conn\<rparr>)"
  have eq: "grp_connect i to st = Some ?st"
    using r unfolding st grp_connect_def Server_connect_def fold_Enable_True
    by (simp add: in_range_iff conn_def Let_def)
  have "linked ?st a b \<longleftrightarrow> linked st a b \<or> (a = i \<and> b \<in> set to \<and> conn ! b) \<or> (b = i \<and> a \<in> set to \<and> conn ! a)"
    if "a < size_of sg" "b < size_of sg" for a b
    using that r names_inj [OF ok [unfolded st snd_conv], OF that] unfolding st linked_def by (auto simp: subset_iff)
  moreover have "link sg i j \<in> links sg \<and> link sg j i \<in> links sg" if "j \<in> set to" for j
    using that r by (auto simp: links_def st)
  then have "same_but_links st ?st" by (auto simp: st same_but_links_def conn_def)
  ultimately show ?thesis using eq by (auto simp: st conn_def)
qed

lemma disconnect_outcome:
  assumes ok: "names_ok (snd st)" and r: "insert i (set from) \<subseteq> {..<size_of (snd st)}"
  shows "\<exists>st'. grp_disconnect i from st = Some st' \<and> same_but_links st st' \<and>
    connected (snd st') = (connected (snd st))[i := False] \<and>
    (\<forall>a < size_of (snd st). \<forall>b < size_of (snd st). linked st' a b \<longleftrightarrow> linked st a b \<and>
       \<not> (a = i \<and> b \<in> set from) \<and> \<not> (b = i \<and> a \<in> set from))"
proof -
  obtain rn k sg where st: "st = ((rn, k), sg)" by (metis surj_pair)
  let ?E = "\<lambda>e. (enabled rn e \<and> (\<forall>j \<in> set from. e \<noteq> link sg i j)) \<and> (\<forall>j \<in> set from. e \<noteq> link sg j i)"
  let ?st = "((rn\<lparr>enabled := ?E\<rparr>, k), sg\<lparr>connected := (connected sg)[i := False]\<rparr>)"
  have eq: "grp_disconnect i from st = Some ?st"
    using r unfolding st grp_disconnect_def Server_disconnect_def fold_Enable_False
    by (simp add: in_range_iff)
  have "linked ?st a b \<longleftrightarrow> linked st a b \<and> \<not> (a = i \<and> b \<in> set from) \<and> \<not> (b = i \<and> a \<in> set from)"
    if "a < size_of sg" "b < size_of sg" for a b
    using that r names_inj [OF ok [unfolded st snd_conv], OF that] unfolding st linked_def by (auto simp: subset_iff)
  moreover have "link sg i j \<in> links sg \<and> link sg j i \<in> links sg" if "j \<in> set from" for j
    using that r by (auto simp: links_def st)
  then have "same_but_links st ?st" by (auto simp: st same_but_links_def)
  ultimately show ?thesis using eq by (auto simp: st)
qed

section \<open>Partitions\<close>

text \<open>
  Part of a partition is set up: the servers of \<open>D\<close> are connected, linked with each other, and cut off
  from those of \<open>B\<close>.
\<close>

definition part_ok :: "nat set \<Rightarrow> nat set \<Rightarrow> ('r, 'b) grp_state \<Rightarrow> bool" where
  "part_ok D B st \<longleftrightarrow> (\<forall>a \<in> D. connected (snd st) ! a) \<and> (\<forall>a \<in> D. \<forall>b \<in> D. linked st a b) \<and>
     (\<forall>a \<in> D. \<forall>b \<in> B. \<not> linked st a b \<and> \<not> linked st b a)"

definition outside_same :: "nat set \<Rightarrow> ('r, 'b) grp_state \<Rightarrow> ('r, 'b) grp_state \<Rightarrow> bool" where
  "outside_same A st st' \<longleftrightarrow> (\<forall>a < size_of (snd st). a \<notin> A \<longrightarrow> connected (snd st') ! a = connected (snd st) ! a \<and>
     (\<forall>b < size_of (snd st). b \<notin> A \<longrightarrow> linked st' a b = linked st a b))"

definition part_step :: "nat list \<Rightarrow> nat list \<Rightarrow> nat \<Rightarrow> ('r, 'b) grp_state \<Rightarrow> ('r, 'b) grp_state option" where
  "part_step pa pb i st = do { st' \<leftarrow> grp_disconnect i pb st; grp_connect i pa st' }"

lemma part_step_outcome:
  assumes ok: "names_ok (snd st)" and r: "set pa \<union> set pb \<subseteq> {..<size_of (snd st)}" and d: "set pa \<inter> set pb = {}"
    and D: "D \<subseteq> set pa" "part_ok D (set pb) st" and i: "i \<in> set pa"
  shows "\<exists>st'. part_step pa pb i st = Some st' \<and> same_but_links st st' \<and> part_ok (insert i D) (set pb) st' \<and>
    outside_same (set pa) st st'"
proof -
  obtain s1 where s1: "grp_disconnect i pb st = Some s1" "same_but_links st s1"
      "connected (snd s1) = (connected (snd st))[i := False]"
      "\<And>a b. a < size_of (snd st) \<Longrightarrow> b < size_of (snd st) \<Longrightarrow> linked s1 a b \<longleftrightarrow> linked st a b \<and>
         \<not> (a = i \<and> b \<in> set pb) \<and> \<not> (b = i \<and> a \<in> set pb)"
    using disconnect_outcome [OF ok, of i pb] r i by blast
  note n1 = same_names [OF s1(2)]
  have sz: "size_of (snd s1) = size_of (snd st)" and ok1: "names_ok (snd s1)" using n1 ok by simp_all
  have r1: "insert i (set pa) \<subseteq> {..<size_of (snd s1)}" using r i sz by auto
  obtain s2 where s2: "grp_connect i pa s1 = Some s2" "same_but_links s1 s2"
      "connected (snd s2) = (connected (snd s1))[i := True]"
      "\<And>a b. a < size_of (snd st) \<Longrightarrow> b < size_of (snd st) \<Longrightarrow> linked s2 a b \<longleftrightarrow> linked s1 a b \<or>
         (a = i \<and> b \<in> set pa \<and> connected (snd s2) ! b) \<or> (b = i \<and> a \<in> set pa \<and> connected (snd s2) ! a)"
    using connect_outcome [OF ok1 r1] unfolding sz by blast
  have len: "length (connected (snd st)) = size_of (snd st)" using ok by (simp add: names_ok_def)
  have c: "connected (snd s2) ! a \<longleftrightarrow> (if a = i then True else connected (snd st) ! a)" if "a < size_of (snd st)" for a
    using that len by (simp add: s1(3) s2(3) nth_list_update)
  have rng: "a < size_of (snd st)" if "a \<in> set pa \<union> set pb" for a using that r by auto
  have Da: "a \<in> set pa" if "a \<in> D" for a using that D(1) by auto
  have npb: "a \<notin> set pb" if "a \<in> set pa" for a using that d by auto
  have l: "linked s2 a b \<longleftrightarrow> (linked st a b \<and> \<not> (a = i \<and> b \<in> set pb) \<and> \<not> (b = i \<and> a \<in> set pb)) \<or>
      (a = i \<and> b \<in> set pa \<and> (b = i \<or> connected (snd st) ! b)) \<or> (b = i \<and> a \<in> set pa \<and> (a = i \<or> connected (snd st) ! a))"
    if "a < size_of (snd st)" "b < size_of (snd st)" for a b
    using that s1(4) s2(4) c by auto
  have "part_ok (insert i D) (set pb) s2"
    using D(2) i by (auto simp: part_ok_def c l rng Da npb dest: Da npb)
  moreover have "outside_same (set pa) st s2"
    using i by (auto simp: outside_same_def c l rng)
  ultimately show ?thesis
    using s1(1) s2(1) same_but_links_trans [OF s1(2) s2(2)] by (auto simp: part_step_def)
qed

lemma part_loop:
  assumes "names_ok (snd st)" "set pa \<union> set pb \<subseteq> {..<size_of (snd st)}" "set pa \<inter> set pb = {}"
    "D \<union> set xs \<subseteq> set pa" "part_ok D (set pb) st"
  shows "\<exists>st'. each (part_step pa pb) xs st = Some st' \<and> same_but_links st st' \<and> part_ok (D \<union> set xs) (set pb) st' \<and>
    outside_same (set pa) st st'"
  using assms
proof (induction xs arbitrary: st D)
  case Nil
  then show ?case by (auto simp: outside_same_def)
next
  case (Cons x xs)
  obtain s where s: "part_step pa pb x st = Some s" "same_but_links st s" "part_ok (insert x D) (set pb) s"
      "outside_same (set pa) st s"
    using part_step_outcome [OF Cons.prems(1-3), of D x] Cons.prems(4,5) by auto
  note n = same_names [OF s(2)]
  obtain s' where s': "each (part_step pa pb) xs s = Some s'" "same_but_links s s'"
      "part_ok (insert x D \<union> set xs) (set pb) s'" "outside_same (set pa) s s'"
    using Cons.IH [of s "insert x D"] Cons.prems n s(3) by auto
  moreover have "outside_same (set pa) st s'" using s(4) s'(4) n by (simp add: outside_same_def)
  ultimately show ?case using s(1) same_but_links_trans [OF s(2) s'(2)] by auto
qed

lemma Partition_outcome:
  assumes ok: "names_ok (snd st)" and r: "set p1 \<union> set p2 \<subseteq> {..<size_of (snd st)}" and d: "set p1 \<inter> set p2 = {}"
  shows "\<exists>st'. Partition p1 p2 st = Some st' \<and> same_but_links st st' \<and>
    part_ok (set p1) (set p2) st' \<and> part_ok (set p2) (set p1) st'"
proof -
  obtain s1 where s1: "each (part_step p1 p2) p1 st = Some s1" "same_but_links st s1" "part_ok (set p1) (set p2) s1"
    using part_loop [OF ok r d, of "{}" p1] by (auto simp: part_ok_def)
  note n = same_names [OF s1(2)]
  obtain s2 where s2: "each (part_step p2 p1) p2 s1 = Some s2" "same_but_links s1 s2" "part_ok (set p2) (set p1) s2"
      "outside_same (set p2) s1 s2"
    using part_loop [of s1 p2 p1 "{}" p2] ok r d n by (auto simp: part_ok_def Int_commute)
  have "part_ok (set p1) (set p2) s2"
    using s1(3) s2(3,4) n r d by (auto simp: part_ok_def outside_same_def subset_iff disjoint_iff)
  moreover have "Partition p1 p2 st = Some s2"
    using s1(1) s2(1) by (simp add: Partition_def part_step_def [abs_def])
  ultimately show ?thesis using s1(2) s2(2,3) same_but_links_trans by blast
qed


text \<open>What \<open>MakePartition\<close> writes into its two arrays, read one after the other.\<close>

lemma MakePartition_loop_fills:
  "j + length (filter (\<lambda>i. int i \<noteq> l) ks) \<le> length p1 + length p2 \<Longrightarrow>
   \<exists>j' q1 q2. MakePartition_loop l ks (j, p1, p2) = Some (j', q1, q2) \<and> length q1 = length p1 \<and> length q2 = length p2 \<and>
     q1 @ q2 = take j (p1 @ p2) @ map int (filter (\<lambda>i. int i \<noteq> l) ks) @ drop (j + length (filter (\<lambda>i. int i \<noteq> l) ks)) (p1 @ p2)"
proof (induction ks arbitrary: j p1 p2)
  case Nil
  show ?case by (simp del: take_append drop_append)
next
  case (Cons i ks)
  show ?case
  proof (cases "int i = l")
    case True
    then show ?thesis using Cons by simp
  next
    case False
    have j: "j < length (p1 @ p2)" using Cons.prems False by simp
    obtain r1 r2 where r: "MakePartition_loop l (i # ks) (j, p1, p2) = MakePartition_loop l ks (j + 1, r1, r2)"
        "length r1 = length p1" "length r2 = length p2" "r1 @ r2 = (p1 @ p2)[j := int i]"
    proof (cases "j < length p1")
      case True
      then show ?thesis using that [of "p1[j := int i]" p2] False by (simp add: list_update_append)
    next
      case k: False
      then have "j - length p1 < length p2" using j by auto
      then show ?thesis using that [of p1 "p2[j - length p1 := int i]"] False k by (simp add: list_update_append)
    qed
    have "take (j + 1) (r1 @ r2) = take j (p1 @ p2) @ [int i]"
      using j by (simp only: r(4)) (simp add: take_Suc_conv_app_nth)
    moreover have "drop (j + 1 + x) (r1 @ r2) = drop (j + 1 + x) (p1 @ p2)" for x
      by (simp only: r(4)) (simp add: drop_update_cancel del: drop_append list_update_append)
    ultimately show ?thesis
      using Cons.IH [of "j + 1" r1 r2] Cons.prems False r(1-3) by (simp del: take_append drop_append MakePartition_loop.simps)
  qed
qed

lemma MakePartition_outcome:
  fixes sg :: "('r, 'b) ServerGrp"
  assumes n: "n = length (srvs sg)" "n \<ge> 2" and l: "l < n"
  shows "\<exists>p1 p2. MakePartition (int l) sg = Some (map int p1, map int p2) \<and> length p1 = n div 2 + 1 \<and> length p2 = n div 2 \<and>
    p1 @ p2 = filter (\<lambda>i. i \<noteq> l) [0..<n] @ (if even n then [0] else []) @ [l]"
proof -
  let ?xs = "filter (\<lambda>i. i \<noteq> l) [0..<n]"
  let ?ws = "?xs @ (if even n then [0] else []) @ [l]"
  have "set ?xs = {0..<n} - {l}" by auto
  then have len: "length ?xs = n - 1"
    using l distinct_card [of ?xs] by (simp add: card_Diff_subset)
  have tot: "length ?ws = (n div 2 + 1) + n div 2" using len n(2) by (auto elim: oddE evenE)
  have fil: "filter (\<lambda>i. int i \<noteq> int l) [0..<n] = ?xs" by simp
  obtain j q1 q2 where q: "MakePartition_loop (int l) [0..<n] (0, replicate (n div 2 + 1) 0, replicate (n div 2) 0) = Some (j, q1, q2)"
      "length q1 = n div 2 + 1" "length q2 = n div 2"
      "q1 @ q2 = map int ?xs @ drop (n - 1) (replicate (n div 2 + 1 + n div 2) 0)"
    using MakePartition_loop_fills [of 0 "int l" "[0..<n]" "replicate (n div 2 + 1) 0" "replicate (n div 2) 0"] len tot
    unfolding fil by (fastforce simp: replicate_add [symmetric] simp del: drop_append drop_replicate)
  have "drop (n - 1) (replicate (n div 2 + 1 + n div 2) 0) = map int (if even n then [0] else []) @ [0]"
  proof -
    have "n div 2 + 1 + n div 2 - (n - 1) = (if even n then 2 else 1)" using n(2) by (auto elim!: evenE oddE)
    then show ?thesis by (simp only: drop_replicate) (simp add: numeral_2_eq_2)
  qed
  then have qq: "q1 @ q2 = map int (butlast ?ws) @ [0]" using q(4) by (simp add: butlast_append)
  define ws where "ws = ?ws"
  let ?p1 = "take (n div 2 + 1) ws" and ?p2 = "drop (n div 2 + 1) ws"
  have lens: "length ?p1 = n div 2 + 1" "length ?p2 = n div 2" using tot by (simp_all flip: ws_def)
  have "q1 @ q2[length q2 - 1 := int l] = (q1 @ q2)[length (q1 @ q2) - 1 := int l]"
    using q(2,3) n(2) by (simp add: list_update_append div_eq_0_iff)
  also have "\<dots> = map int ws"
    unfolding qq ws_def by (simp add: list_update_append butlast_append)
  also have "\<dots> = map int ?p1 @ map int ?p2" by (metis append_take_drop_id map_append)
  finally have "q1 = map int ?p1 \<and> q2[length q2 - 1 := int l] = map int ?p2"
    using q(2) lens(1) by (subst (asm) append_eq_append_conv) simp_all
  moreover have "q2 \<noteq> []" using q(3) n(2) by auto
  ultimately have "MakePartition (int l) sg = Some (map int ?p1, map int ?p2)"
    using q(1) by (simp add: MakePartition_def Let_def n(1) [symmetric])
  then show ?thesis using lens by (metis append_take_drop_id ws_def)
qed

lemma MakePartition_odd:
  fixes sg :: "('r, 'b) ServerGrp"
  assumes "odd (size_of sg)" "size_of sg \<ge> 3" "l < size_of sg"
  shows "\<exists>p1 p2. MakePartition (int l) sg = Some (map int p1, map int p2) \<and> distinct (p1 @ p2) \<and>
    set p1 \<union> set p2 = {..<size_of sg} \<and> l \<in> set p2 \<and> size_of sg < 2 * length p1"
proof -
  let ?n = "size_of sg"
  obtain p1 p2 where p: "MakePartition (int l) sg = Some (map int p1, map int p2)" "length p1 = ?n div 2 + 1"
      "length p2 = ?n div 2" "p1 @ p2 = filter (\<lambda>i. i \<noteq> l) [0..<?n] @ [l]"
    using MakePartition_outcome [of ?n sg l] assms by (auto simp: size_of_def)
  have "set (p1 @ p2) = {..<?n}" "distinct (p1 @ p2)" unfolding p(4) using assms(3) by auto
  moreover have "last (p1 @ p2) = l" "p2 \<noteq> []" using p(3,4) assms(2) by auto
  then have "l \<in> set p2" by (metis last_appendR last_in_set)
  moreover have "?n < 2 * length p1" using p(2) by simp
  ultimately show ?thesis using p(1) by auto
qed

text \<open>A request on a link of the group, in the network.\<close>

lemma begin_disabled: "\<not> enabled rn (rq_endname (req r)) \<Longrightarrow> processReq_begin rnd rn r = r\<lparr>ph := Answered failed\<rparr>"
  by (simp add: processReq_begin_def readEndnameInfo_def)

lemma begin_enabled:
  "enabled rn (rq_endname (req r)) \<Longrightarrow> connections rn (rq_endname (req r)) = Some s \<Longrightarrow> servers rn s = Some a \<Longrightarrow> reliable rn \<Longrightarrow>
   processReq_begin rnd rn r = r\<lparr>info := Some (s, a, True, longReordering rn), ph := Running\<rparr>"
  by (simp add: processReq_begin_def readEndnameInfo_def)


section \<open>Making the ends of a server\<close>

text \<open>The names still to come are in use nowhere.\<close>

definition fresh :: "(nat \<Rightarrow> string) \<Rightarrow> tnet \<Rightarrow> bool" where
  "fresh rs nk \<longleftrightarrow> (\<forall>m \<ge> snd nk. ends (fst nk) (rs m) = None \<and> \<not> enabled (fst nk) (rs m))"

text \<open>What making ends keeps: everything about the names drawn before, the servers and the mode of the network.\<close>

definition extends :: "(nat \<Rightarrow> string) \<Rightarrow> tnet \<Rightarrow> tnet \<Rightarrow> bool" where
  "extends rs nk nk' \<longleftrightarrow> servers (fst nk') = servers (fst nk) \<and> reliable (fst nk') = reliable (fst nk) \<and>
     (\<forall>e. enabled (fst nk') e = enabled (fst nk) e) \<and> snd nk \<le> snd nk' \<and>
     (\<forall>e. e \<notin> rs ` {snd nk..<snd nk'} \<longrightarrow> connections (fst nk') e = connections (fst nk) e)"

lemma extends_trans: "extends rs a b \<Longrightarrow> extends rs b c \<Longrightarrow> extends rs a c"
  unfolding extends_def by (auto simp: image_iff)

lemma makeEnds_outcome:
  assumes "inj rs" "fresh rs (rn, k)"
  shows "\<exists>rn' es. makeEnds rs g js (rn, k) = Some ((rn', k + length js), es) \<and> map fst es = map rs [k..<k + length js] \<and>
    fresh rs (rn', k + length js) \<and> extends rs (rn, k) (rn', k + length js) \<and>
    (\<forall>t < length js. connections rn' (rs (k + t)) = Some (ServerName g (js ! t)))"
  using assms(2)
proof (induction js arbitrary: rn k)
  case Nil
  then show ?case by (simp add: extends_def)
next
  case (Cons j js)
  let ?ce = "\<lparr>endname = rs k, callf = None\<rparr>"
  let ?rn1 = "rn\<lparr>ends := (ends rn)(rs k \<mapsto> ?ce), enabled := (enabled rn)(rs k := False), connections := (connections rn)(rs k := None)\<rparr>"
  let ?rn2 = "Connect (rs k) (ServerName g j) ?rn1"
  have no: "ends rn (rs k) = None" "\<not> enabled rn (rs k)" using Cons.prems by (auto simp: fresh_def)
  have m: "MakeEnd (rs k) rn = Some (?rn1, ?ce)" using no by (simp add: MakeEnd_def Let_def)
  have ne: "rs m = rs k \<longleftrightarrow> m = k" for m using assms(1) by (auto dest: injD)
  have "fresh rs (?rn2, Suc k)" using Cons.prems by (auto simp: fresh_def Connect_def ne)
  then obtain rn' es where e: "makeEnds rs g js (?rn2, Suc k) = Some ((rn', Suc k + length js), es)"
      "map fst es = map rs [Suc k..<Suc k + length js]" "fresh rs (rn', Suc k + length js)"
      "extends rs (?rn2, Suc k) (rn', Suc k + length js)"
      "\<And>t. t < length js \<Longrightarrow> connections rn' (rs (Suc k + t)) = Some (ServerName g (js ! t))"
    using Cons.IH by blast
  have "extends rs (rn, k) (?rn2, Suc k)" using no by (auto simp: extends_def Connect_def)
  then have ext: "extends rs (rn, k) (rn', Suc k + length js)" using e(4) extends_trans by blast
  have "rs k \<notin> rs ` {Suc k..<Suc k + length js}" using ne by (auto dest: sym)
  then have "connections rn' (rs k) = Some (ServerName g j)" using e(4) by (auto simp: extends_def Connect_def)
  then have "connections rn' (rs (k + t)) = Some (ServerName g ((j # js) ! t))" if "t < length (j # js)" for t
    using that e(5) by (cases t) auto
  moreover have "[k..<k + length (j # js)] = k # [Suc k..<Suc k + length js]"
    by (subst upt_conv_Cons) simp_all
  ultimately show ?case using m e(1-3) ext by (simp del: upt_Suc)
qed

lemma makeServer_outcome:
  assumes "inj rs" "fresh rs (rn, k)"
  shows "\<exists>rn' srv. makeServer rs g n (rn, k) = Some ((rn', k + n), srv) \<and> endNames srv = map rs [k..<k + n] \<and>
    saved srv = None \<and> dc srv = None \<and> fresh rs (rn', k + n) \<and> extends rs (rn, k) (rn', k + n) \<and>
    (\<forall>t < n. connections rn' (rs (k + t)) = Some (ServerName g t))"
  using makeEnds_outcome [OF assms, of g "[0..<n]"] by (auto simp: makeServer_def)


section \<open>The invariant of a group\<close>

text \<open>
  A group is meshed when the links that are enabled are those between connected servers, every link
  leads to the server it is named for, and the network knows exactly the servers whose daemon runs.
\<close>

definition wired :: "(nat \<Rightarrow> string) \<Rightarrow> ('r, 'b) grp_state \<Rightarrow> bool" where
  "wired rs st \<longleftrightarrow> names_ok (snd st) \<and> fresh rs (fst st) \<and> links (snd st) \<subseteq> rs ` {..<snd (fst st)} \<and>
     (\<forall>i < size_of (snd st). \<forall>j < size_of (snd st).
        connections (fst (fst st)) (link (snd st) i j) = Some (ServerName (gid (snd st)) j))"

definition meshed :: "('r, 'b) grp_state \<Rightarrow> bool" where
  "meshed st \<longleftrightarrow> (\<forall>i < size_of (snd st). \<forall>j < size_of (snd st).
     linked st i j \<longleftrightarrow> connected (snd st) ! i \<and> connected (snd st) ! j)"

definition serving_ok :: "('r, 'b) grp_state \<Rightarrow> bool" where
  "serving_ok st \<longleftrightarrow> (\<forall>j < size_of (snd st).
     servers (fst (fst st)) (ServerName (gid (snd st)) j) = None \<longleftrightarrow> dc (srvs (snd st) ! j) = None)"

definition grp_inv :: "(nat \<Rightarrow> string) \<Rightarrow> ('r, 'b) grp_state \<Rightarrow> bool" where
  "grp_inv rs st \<longleftrightarrow> wired rs st \<and> meshed st \<and> serving_ok st \<and> reliable (fst (fst st))"

lemma ServerName_inj [simp]: "ServerName g i = ServerName g j \<longleftrightarrow> i = j"
  by (simp add: ServerName_def)

lemma wired_same: "inj rs \<Longrightarrow> wired rs st \<Longrightarrow> same_but_links st st' \<Longrightarrow> wired rs st'"
proof -
  assume rs: "inj rs" and w: "wired rs st" and s: "same_but_links st st'"
  have l: "links (snd st') = links (snd st)" using s by (simp add: same_but_links_def links_def size_of_def)
  have "rs m \<notin> links (snd st)" if "m \<ge> snd (fst st)" for m
  proof
    assume "rs m \<in> links (snd st)"
    then obtain j where "j < snd (fst st)" "rs m = rs j" using w by (auto simp: wired_def)
    with rs that show False by (auto dest: injD)
  qed
  then have "fresh rs (fst st')"
    using w s unfolding wired_def fresh_def same_but_links_def by auto
  then show ?thesis
    using w s same_names [OF s] l by (auto simp: wired_def same_but_links_def)
qed

lemma serving_same: "serving_ok st \<Longrightarrow> same_but_links st st' \<Longrightarrow> serving_ok st'"
  by (auto simp: serving_ok_def same_but_links_def size_of_def)

lemma inv_ConnectOne:
  assumes rs: "inj rs" and i: "grp_inv rs st" and n: "i < size_of (snd st)"
  shows "\<exists>st'. ConnectOne i st = Some st' \<and> grp_inv rs st' \<and> same_but_links st st' \<and>
    connected (snd st') = (connected (snd st))[i := True]"
proof -
  have ok: "names_ok (snd st)" using i by (simp add: grp_inv_def wired_def)
  have r: "insert i (set (all (snd st))) \<subseteq> {..<size_of (snd st)}" using n by (auto simp: all_def size_of_def)
  obtain s where s: "ConnectOne i st = Some s" "same_but_links st s" "connected (snd s) = (connected (snd st))[i := True]"
      "\<And>a b. a < size_of (snd st) \<Longrightarrow> b < size_of (snd st) \<Longrightarrow> linked s a b \<longleftrightarrow> linked st a b \<or>
        (a = i \<and> b \<in> set (all (snd st)) \<and> connected (snd s) ! b) \<or> (b = i \<and> a \<in> set (all (snd st)) \<and> connected (snd s) ! a)"
    using connect_outcome [OF ok r] unfolding ConnectOne_def by blast
  have len: "length (connected (snd st)) = size_of (snd st)" using ok by (simp add: names_ok_def)
  have "meshed s"
    using i s(4) same_names [OF s(2)] n len
    by (auto simp: grp_inv_def meshed_def all_def size_of_def s(3) nth_list_update)
  moreover have "reliable (fst (fst s))" using i s(2) by (auto simp: grp_inv_def same_but_links_def)
  ultimately show ?thesis
    using i s(1-3) wired_same [OF rs _ s(2)] serving_same [OF _ s(2)] by (auto simp: grp_inv_def)
qed

lemma inv_DisconnectAll:
  assumes rs: "inj rs" and i: "grp_inv rs st" and n: "i < size_of (snd st)"
  shows "\<exists>st'. DisconnectAll i st = Some st' \<and> grp_inv rs st' \<and> same_but_links st st' \<and>
    connected (snd st') = (connected (snd st))[i := False]"
proof -
  have ok: "names_ok (snd st)" using i by (simp add: grp_inv_def wired_def)
  have r: "insert i (set (all (snd st))) \<subseteq> {..<size_of (snd st)}" using n by (auto simp: all_def size_of_def)
  obtain s where s: "DisconnectAll i st = Some s" "same_but_links st s" "connected (snd s) = (connected (snd st))[i := False]"
      "\<And>a b. a < size_of (snd st) \<Longrightarrow> b < size_of (snd st) \<Longrightarrow> linked s a b \<longleftrightarrow> linked st a b \<and>
        \<not> (a = i \<and> b \<in> set (all (snd st))) \<and> \<not> (b = i \<and> a \<in> set (all (snd st)))"
    using disconnect_outcome [OF ok r] unfolding DisconnectAll_def by blast
  have len: "length (connected (snd st)) = size_of (snd st)" using ok by (simp add: names_ok_def)
  have "meshed s"
    using i s(4) same_names [OF s(2)] n len
    by (auto simp: grp_inv_def meshed_def all_def size_of_def s(3) nth_list_update)
  moreover have "reliable (fst (fst s))" using i s(2) by (auto simp: grp_inv_def same_but_links_def)
  ultimately show ?thesis
    using i s(1-3) wired_same [OF rs _ s(2)] serving_same [OF _ s(2)] by (auto simp: grp_inv_def)
qed


lemma checkpoint_same [simp]: "checkpointPersister p = p" "daemon_init p = p"
  by (cases p; simp add: checkpointPersister_def daemon_init_def Save_def ReadRaftState_def ReadSnapshot_def MakePersister_def)+

lemma wired_meshed_cong:
  assumes e: "map endNames (srvs sg') = map endNames (srvs sg)" and c: "connected sg' = connected sg" "gid sg' = gid sg"
    and n: "ends rn' = ends rn" "enabled rn' = enabled rn" "connections rn' = connections rn"
  shows "wired rs ((rn', k), sg') = wired rs ((rn, k), sg)" "meshed ((rn', k), sg') = meshed ((rn, k), sg)"
proof -
  have s: "size_of sg' = size_of sg" using e by (metis length_map size_of_def)
  have l: "endNames (srvs sg' ! i) = endNames (srvs sg ! i)" if "i < size_of sg" for i
    using e s that by (metis nth_map size_of_def)
  have "links sg' = links sg" unfolding links_def s by (intro Collect_cong) (metis l)
  then show "wired rs ((rn', k), sg') = wired rs ((rn, k), sg)"
    using l by (simp add: wired_def names_ok_def s c n fresh_def cong: conj_cong)
  show "meshed ((rn', k), sg') = meshed ((rn, k), sg)"
    using l by (simp add: meshed_def linked_def s c n)
qed

lemma inv_ShutdownServer:
  assumes rs: "inj rs" and i: "grp_inv rs st" and n: "i < size_of (snd st)"
  shows "\<exists>st'. ShutdownServer i st = Some st' \<and> grp_inv rs st' \<and> size_of (snd st') = size_of (snd st) \<and>
    connected (snd st') = (connected (snd st))[i := False] \<and>
    srvs (snd st') = (srvs (snd st))[i := shutdownServer (srvs (snd st) ! i)] \<and> dc (srvs (snd st') ! i) = None \<and>
    gid (snd st') = gid (snd st)"
proof -
  obtain rn k sg where s: "DisconnectAll i st = Some ((rn, k), sg)" "grp_inv rs ((rn, k), sg)" "same_but_links st ((rn, k), sg)"
      "connected sg = (connected (snd st))[i := False]"
    using inv_DisconnectAll [OF rs i n] by auto
  let ?sg = "sg\<lparr>srvs := (srvs sg)[i := shutdownServer (srvs sg ! i)]\<rparr>"
  let ?rn = "DeleteServer (ServerName (gid sg) i) rn"
  have eq: "srvs sg = srvs (snd st)" "gid sg = gid (snd st)" using s(3) by (simp_all add: same_but_links_def)
  have sz: "size_of sg = size_of (snd st)" "size_of ?sg = size_of sg" using eq by (simp_all add: size_of_def)
  have o: "ShutdownServer i st = Some ((?rn, k), ?sg)"
    using s(1) by (simp add: ShutdownServer_def DisconnectAll_def)
  have down: "dc (shutdownServer x) = None" "endNames (shutdownServer x) = endNames x" for x :: "('a, 'b) TServer"
    by (simp_all add: shutdownServer_def split: option.splits)
  have "map endNames (srvs ?sg) = map endNames (srvs sg)"
    using n eq by (intro nth_equalityI) (auto simp: nth_list_update down size_of_def)
  note cong = wired_meshed_cong [of ?sg sg ?rn rn, OF this]
  have w: "wired rs ((?rn, k), ?sg)" "meshed ((?rn, k), ?sg)"
    using s(2) by (subst cong; simp add: grp_inv_def DeleteServer_def)+
  have "serving_ok ((?rn, k), ?sg)"
    using s(2) by (auto simp: grp_inv_def serving_ok_def DeleteServer_def sz nth_list_update down size_of_def)
  then have "grp_inv rs ((?rn, k), ?sg)" using w s(2) by (simp add: grp_inv_def DeleteServer_def)
  then show ?thesis using o s(4) eq sz n by (simp add: down size_of_def)
qed


text \<open>Starting a server that is not connected gives it a row of fresh, disabled ends.\<close>

lemma inv_StartServer:
  fixes st :: "('r, 'b) grp_state"
  assumes rs: "inj rs" and inv: "grp_inv rs st" and n: "i < size_of (snd st)"
    and off: "\<not> connected (snd st) ! i" "dc (srvs (snd st) ! i) = None"
  shows "\<exists>st' err. StartServer rs run addr i st = Some (st', err) \<and> grp_inv rs st' \<and> size_of (snd st') = size_of (snd st) \<and>
    connected (snd st') = connected (snd st) \<and> gid (snd st') = gid (snd st) \<and>
    (\<forall>j < size_of (snd st). j \<noteq> i \<longrightarrow> srvs (snd st') ! j = srvs (snd st) ! j) \<and>
    dc (srvs (snd st') ! i) = (if run then Some (case saved (srvs (snd st) ! i) of None \<Rightarrow> MakePersister | Some p \<Rightarrow> p) else None)"
proof -
  obtain rn k sg where st: "st = ((rn, k), sg)" by (metis surj_pair)
  let ?n = "size_of sg"
  have w: "wired rs ((rn, k), sg)" "meshed ((rn, k), sg)" "serving_ok ((rn, k), sg)" "reliable rn"
    using inv by (simp_all add: st grp_inv_def)
  then have names: "names_ok sg" and fr: "fresh rs (rn, k)" and ls: "links sg \<subseteq> rs ` {..<k}" by (simp_all add: wired_def)
  have len: "length (endNames (srvs sg ! i)) = ?n" using names n by (simp add: names_ok_def st)
  define pst where "pst = (case saved (srvs sg ! i) of None \<Rightarrow> MakePersister | Some p \<Rightarrow> p)"
  obtain rn1 and srv :: "('r, 'b) TServer" where m: "makeServer rs (gid sg) ?n (rn, k) = Some ((rn1, k + ?n), srv)" "endNames srv = map rs [k..<k + ?n]"
      "dc srv = None" "fresh rs (rn1, k + ?n)" "extends rs (rn, k) (rn1, k + ?n)"
      "\<And>t. t < ?n \<Longrightarrow> connections rn1 (rs (k + t)) = Some (ServerName (gid sg) t)"
    using makeServer_outcome [OF rs fr, of "gid sg" ?n] by blast
  let ?srv = "srv\<lparr>saved := Some pst, dc := (if run then Some pst else None)\<rparr>"
  define rn' where "rn' = (if run then AddServer (ServerName (gid sg) i) addr rn1 else rn1)"
  define sg' where "sg' = sg\<lparr>srvs := (srvs sg)[i := ?srv]\<rparr>"
  have "startServer rs (gid sg) (srvs sg ! i) (rn, k) = Some ((rn1, k + ?n), srv\<lparr>saved := Some pst\<rparr>)"
    by (simp add: startServer_def len m(1) pst_def)
  then have o: "StartServer rs run addr i st = Some (((rn', k + ?n), sg'), \<not> run)"
    using n m(3) by (cases srv) (auto simp: StartServer_def st in_range_iff rn'_def sg'_def)
  have sz: "size_of sg' = ?n" and cg: "connected sg' = connected sg" "gid sg' = gid sg" by (simp_all add: size_of_def sg'_def)
  have row: "link sg' a b = (if a = i then rs (k + b) else link sg a b)" if "a < ?n" "b < ?n" for a b
    using that n m(2) by (simp add: st size_of_def nth_list_update sg'_def)
  have old: "\<exists>m < k. link sg a b = rs m" if "a < ?n" "b < ?n" for a b using that ls by (auto simp: links_def)
  have neq: "link sg a b \<noteq> rs (k + c)" if "a < ?n" "b < ?n" for a b c
    using old [OF that] rs by (auto dest: injD)
  have enl: "length (endNames (srvs sg' ! a)) = ?n" if "a < ?n" for a
    using that names m(2) by (cases "a = i") (simp_all add: names_ok_def size_of_def sg'_def)
  have "a = c \<and> b = d" if "a < ?n" "b < ?n" "c < ?n" "d < ?n" "link sg' a b = link sg' c d" for a b c d
  proof (cases "a = i \<or> c = i")
    case True
    then show ?thesis
      using that(5) neq [OF that(1,2)] neq [OF that(3,4)] rs unfolding row [OF that(1,2)] row [OF that(3,4)]
      by (metis add_left_cancel injD)
  next
    case False
    then show ?thesis using that(5) names_inj [OF names that(1-4)] by (simp add: row that(1-4))
  qed
  then have nm: "names_ok sg'" using names enl unfolding names_ok_def sz cg by simp
  have e1: "enabled rn' = enabled rn" "connections rn' = connections rn1" "ends rn' = ends rn1" "reliable rn'"
    using m(5) w(4) by (auto simp: extends_def AddServer_def rn'_def)
  have con: "connections rn1 (link sg a b) = Some (ServerName (gid sg) b)" if "a < ?n" "b < ?n" for a b
  proof -
    have "link sg a b \<notin> rs ` {k..<k + ?n}" using old [OF that] by (auto simp: inj_eq [OF rs])
    then show ?thesis using m(5) w(1) that by (simp add: extends_def wired_def)
  qed
  have "link sg' a b \<in> rs ` {..<k + ?n}" if "a < ?n" "b < ?n" for a b
    using old [OF that] that unfolding row [OF that] by (auto intro: less_trans_Suc)
  then have "links sg' \<subseteq> rs ` {..<k + ?n}" unfolding links_def sz by auto
  moreover have "fresh rs (rn', k + ?n)" using m(4) by (auto simp: fresh_def AddServer_def rn'_def)
  ultimately have wi: "wired rs ((rn', k + ?n), sg')"
    using nm con m(6) unfolding wired_def by (simp add: sz row e1(2) cg)
  have "\<not> enabled rn (rs (k + b))" for b using fr by (simp add: fresh_def)
  then have me: "meshed ((rn', k + ?n), sg')"
    using w(2) off(1) unfolding meshed_def linked_def by (auto simp: sz row e1(1) st cg)
  have "servers rn1 = servers rn" using m(5) by (simp add: extends_def)
  then have "serving_ok ((rn', k + ?n), sg')"
    using w(3) off(2) n unfolding serving_ok_def
    by (auto simp: sz cg rn'_def sg'_def AddServer_def st nth_list_update size_of_def)
  with wi me e1(4) have "grp_inv rs ((rn', k + ?n), sg')" by (simp add: grp_inv_def)
  then show ?thesis using o n by (auto simp: st sz cg) (auto simp: sg'_def pst_def size_of_def)
qed

section \<open>Making and starting a group\<close>

lemma makeServers_outcome:
  fixes n :: nat
  assumes rs: "inj rs"
  shows "fresh rs (rn, k) \<Longrightarrow> \<exists>rn' ss. makeServers rs g n m (rn, k) = Some ((rn', k + m * n), ss :: ('r, 'b) TServer list) \<and> length ss = m \<and>
    (\<forall>i < m. endNames (ss ! i) = map rs [k + i * n..<k + i * n + n] \<and> dc (ss ! i) = None) \<and>
    fresh rs (rn', k + m * n) \<and> extends rs (rn, k) (rn', k + m * n) \<and>
    (\<forall>i < m. \<forall>t < n. connections rn' (rs (k + i * n + t)) = Some (ServerName g t))"
proof (induction m arbitrary: rn k)
  case 0
  then show ?case by (simp add: extends_def)
next
  case (Suc m)
  obtain rn1 and s :: "('r, 'b) TServer" where s: "makeServer rs g n (rn, k) = Some ((rn1, k + n), s)"
      "endNames s = map rs [k..<k + n]" "dc s = None" "fresh rs (rn1, k + n)" "extends rs (rn, k) (rn1, k + n)"
      "\<And>t. t < n \<Longrightarrow> connections rn1 (rs (k + t)) = Some (ServerName g t)"
    using makeServer_outcome [OF rs Suc.prems, of g n] by blast
  obtain rn2 and ss :: "('r, 'b) TServer list" where ss: "makeServers rs g n m (rn1, k + n) = Some ((rn2, k + n + m * n), ss)" "length ss = m"
      "\<And>i. i < m \<Longrightarrow> endNames (ss ! i) = map rs [k + n + i * n..<k + n + i * n + n] \<and> dc (ss ! i) = None"
      "fresh rs (rn2, k + n + m * n)" "extends rs (rn1, k + n) (rn2, k + n + m * n)"
      "\<And>i t. i < m \<Longrightarrow> t < n \<Longrightarrow> connections rn2 (rs (k + n + i * n + t)) = Some (ServerName g t)"
    using Suc.IH [OF s(4)] by blast
  have k: "k + Suc m * n = k + n + m * n" "k + Suc i * n = k + n + i * n" for i by simp_all
  have "rs (k + t) \<notin> rs ` {k + n..<k + n + m * n}" if "t < n" for t using that by (auto simp: inj_eq [OF rs])
  then have c: "connections rn2 (rs (k + t)) = Some (ServerName g t)" if "t < n" for t
    using ss(5) s(6) that by (simp add: extends_def)
  have "endNames ((s # ss) ! i) = map rs [k + i * n..<k + i * n + n] \<and> dc ((s # ss) ! i) = None" if "i < Suc m" for i
    using that s(2,3) ss(3) by (cases i) (simp_all only: nth_Cons_0 nth_Cons_Suc k, simp_all)
  moreover have "connections rn2 (rs (k + i * n + t)) = Some (ServerName g t)" if "i < Suc m" "t < n" for i t
    using that c ss(6) by (cases i) (simp_all only: k, simp_all)
  moreover have "makeServers rs g n (Suc m) (rn, k) = Some ((rn2, k + Suc m * n), s # ss)"
    using s(1) ss(1) by (simp add: k)
  ultimately show ?case
    using ss(2,4) extends_trans [OF s(5) ss(5)] by (metis k(1) length_Cons)
qed

lemma makeSrvGrp_inv:
  assumes rs: "inj rs"
  shows "\<exists>st :: ('r, 'b) grp_state. makeSrvGrp rs g n (MakeNetwork, k) = Some st \<and> grp_inv rs st \<and> size_of (snd st) = n \<and>
    connected (snd st) = replicate n False \<and> (\<forall>i < n. dc (srvs (snd st) ! i) = None) \<and> gid (snd st) = g"
proof -
  have "fresh rs (MakeNetwork, k)" by (simp add: fresh_def MakeNetwork_def)
  from makeServers_outcome [OF rs this, of g n n, where 'r = 'r and 'b = 'b]
  obtain rn and ss :: "('r, 'b) TServer list" where ss: "makeServers rs g n n (MakeNetwork, k) = Some ((rn, k + n * n), ss)" "length ss = n"
      "\<And>i. i < n \<Longrightarrow> endNames (ss ! i) = map rs [k + i * n..<k + i * n + n] \<and> dc (ss ! i) = None"
      "fresh rs (rn, k + n * n)" "extends rs (MakeNetwork, k) (rn, k + n * n)"
      "\<And>i t. i < n \<Longrightarrow> t < n \<Longrightarrow> connections rn (rs (k + i * n + t)) = Some (ServerName g t)"
    by auto
  define sg where "sg = \<lparr>srvs = ss, servernames = map (ServerName g) [0..<n], gid = g, connected = replicate n False\<rparr>"
  have f: "size_of sg = n" "connected sg = replicate n False" "gid sg = g" using ss(2) by (simp_all add: sg_def size_of_def)
  have row: "link sg i j = rs (k + i * n + j)" if "i < n" "j < n" for i j using ss(3) [OF that(1)] that(2) by (simp add: sg_def)
  have lt: "k + i * n + j < k + n * n" if "i < n" "j < n" for i j :: nat
  proof -
    have "i * n + j < Suc i * n" using that(2) by simp
    also have "\<dots> \<le> n * n" using that(1) by (intro mult_right_mono) simp_all
    finally show ?thesis by simp
  qed
  have dec: "i = a \<and> j = b" if "j < n" "b < n" "i * n + j = a * n + b" for i j a b
  proof -
    have "(i * n + j) div n = i" "(a * n + b) div n = a" using that(1,2) by simp_all
    then show ?thesis using that(3) by simp
  qed
  have "length (endNames (srvs sg ! i)) = n" if "i < n" for i using ss(3) [OF that] by (simp add: sg_def)
  moreover have "i = a \<and> j = b" if "i < n" "j < n" "a < n" "b < n" "link sg i j = link sg a b" for i j a b
    using that(5) dec [OF that(2,4)] unfolding row [OF that(1,2)] row [OF that(3,4)] inj_eq [OF rs] by simp
  ultimately have nm: "names_ok sg" unfolding names_ok_def f by simp
  have e: "\<not> enabled rn x" "servers rn x = None" "reliable rn" for x using ss(5) by (simp_all add: extends_def MakeNetwork_def)
  have "links sg \<subseteq> rs ` {..<k + n * n}" using lt by (auto simp: links_def f row)
  then have "wired rs ((rn, k + n * n), sg)" using nm ss(4,6) by (simp add: wired_def f row)
  moreover have "meshed ((rn, k + n * n), sg)" by (simp add: meshed_def linked_def e f)
  moreover have "serving_ok ((rn, k + n * n), sg)" using ss(3) by (simp add: serving_ok_def e f) (simp add: sg_def)
  ultimately have "grp_inv rs ((rn, k + n * n), sg)" by (simp add: grp_inv_def e)
  moreover have "makeSrvGrp rs g n (MakeNetwork, k) = Some ((rn, k + n * n), sg)" using ss(1) by (simp add: makeSrvGrp_def sg_def)
  ultimately show ?thesis using f ss(3) by (auto simp: sg_def)
qed


lemma inv_StartSrvs:
  assumes rs: "inj rs"
  shows "grp_inv rs st \<Longrightarrow> distinct xs \<Longrightarrow> \<forall>x \<in> set xs. x < size_of (snd st) \<and> \<not> connected (snd st) ! x \<and> dc (srvs (snd st) ! x) = None \<Longrightarrow>
    \<exists>st'. StartSrvs rs env xs st = Some st' \<and> grp_inv rs st' \<and> size_of (snd st') = size_of (snd st) \<and>
      connected (snd st') = connected (snd st) \<and> gid (snd st') = gid (snd st) \<and>
      (\<forall>j < size_of (snd st). j \<notin> set xs \<longrightarrow> srvs (snd st') ! j = srvs (snd st) ! j) \<and>
      (\<forall>x \<in> set xs. dc (srvs (snd st') ! x) \<noteq> None \<longleftrightarrow> fst (env x))"
proof (induction xs arbitrary: st)
  case Nil
  then show ?case by (simp add: StartSrvs_def)
next
  case (Cons x xs)
  obtain s err where s: "StartServer rs (fst (env x)) (snd (env x)) x st = Some (s, err)" "grp_inv rs s"
      "size_of (snd s) = size_of (snd st)" "connected (snd s) = connected (snd st)" "gid (snd s) = gid (snd st)"
      "\<And>j. j < size_of (snd st) \<Longrightarrow> j \<noteq> x \<Longrightarrow> srvs (snd s) ! j = srvs (snd st) ! j"
      "dc (srvs (snd s) ! x) \<noteq> None \<longleftrightarrow> fst (env x)"
    using inv_StartServer [OF rs Cons.prems(1), of x "fst (env x)" "snd (env x)"] Cons.prems(3) by auto
  have p: "\<forall>y \<in> set xs. y < size_of (snd s) \<and> \<not> connected (snd s) ! y \<and> dc (srvs (snd s) ! y) = None"
    using Cons.prems s(3,4,6) by (metis distinct.simps(2) list.set_intros(2))
  have d: "distinct xs" "x \<notin> set xs" "x < size_of (snd st)" using Cons.prems by auto
  obtain s' where s': "StartSrvs rs env xs s = Some s'" "grp_inv rs s'" "size_of (snd s') = size_of (snd s)"
      "connected (snd s') = connected (snd s)" "gid (snd s') = gid (snd s)"
      "\<And>j. j < size_of (snd s) \<Longrightarrow> j \<notin> set xs \<Longrightarrow> srvs (snd s') ! j = srvs (snd s) ! j"
      "\<And>y. y \<in> set xs \<Longrightarrow> dc (srvs (snd s') ! y) \<noteq> None \<longleftrightarrow> fst (env y)"
    using Cons.IH [OF s(2) d(1) p] by blast
  have "StartSrvs rs env (x # xs) st = Some s'" using s(1) s'(1) by (simp add: StartSrvs_def)
  moreover have "srvs (snd s') ! x = srvs (snd s) ! x" using s'(6) d s(3) by simp
  ultimately show ?case using s s' d by (auto simp del: not_None_eq)
qed

lemma inv_ConnectOnes:
  assumes rs: "inj rs"
  shows "grp_inv rs st \<Longrightarrow> set xs \<subseteq> {..<size_of (snd st)} \<Longrightarrow> \<exists>st'. each ConnectOne xs st = Some st' \<and> grp_inv rs st' \<and>
    size_of (snd st') = size_of (snd st) \<and> srvs (snd st') = srvs (snd st) \<and> gid (snd st') = gid (snd st) \<and>
    (\<forall>j < size_of (snd st). connected (snd st') ! j \<longleftrightarrow> connected (snd st) ! j \<or> j \<in> set xs)"
proof (induction xs arbitrary: st)
  case Nil
  then show ?case by simp
next
  case (Cons x xs)
  then obtain s where s: "ConnectOne x st = Some s" "grp_inv rs s" "same_but_links st s"
      "connected (snd s) = (connected (snd st))[x := True]"
    using inv_ConnectOne [OF rs, of st x] by auto
  have len: "length (connected (snd st)) = size_of (snd st)"
    using Cons.prems(1) by (simp add: grp_inv_def wired_def names_ok_def)
  have sz: "size_of (snd s) = size_of (snd st)" using same_names [OF s(3)] by simp
  then obtain s' where s': "each ConnectOne xs s = Some s'" "grp_inv rs s'" "size_of (snd s') = size_of (snd s)"
      "srvs (snd s') = srvs (snd s)" "gid (snd s') = gid (snd s)"
      "\<And>j. j < size_of (snd s) \<Longrightarrow> connected (snd s') ! j \<longleftrightarrow> connected (snd s) ! j \<or> j \<in> set xs"
    using Cons.IH [OF s(2)] Cons.prems(2) by auto
  have "srvs (snd s) = srvs (snd st)" "gid (snd s) = gid (snd st)" using s(3) by (simp_all add: same_but_links_def)
  then show ?case using s(1,4) s' sz len Cons.prems(2) by (auto simp: nth_list_update)
qed

lemma inv_StartServers:
  assumes rs: "inj rs" and i: "grp_inv rs st" and off: "\<forall>x < size_of (snd st). \<not> connected (snd st) ! x \<and> dc (srvs (snd st) ! x) = None"
  shows "\<exists>st'. StartServers rs env st = Some st' \<and> grp_inv rs st' \<and> size_of (snd st') = size_of (snd st) \<and> gid (snd st') = gid (snd st) \<and>
    (\<forall>j < size_of (snd st). connected (snd st') ! j \<and> (dc (srvs (snd st') ! j) \<noteq> None \<longleftrightarrow> fst (env j)))"
proof -
  have a: "set (all (snd st)) = {..<size_of (snd st)}" "distinct (all (snd st))" by (auto simp: all_def size_of_def)
  obtain s where s: "StartSrvs rs env (all (snd st)) st = Some s" "grp_inv rs s" "size_of (snd s) = size_of (snd st)"
      "gid (snd s) = gid (snd st)" "\<And>x. x < size_of (snd st) \<Longrightarrow> dc (srvs (snd s) ! x) \<noteq> None \<longleftrightarrow> fst (env x)"
    using inv_StartSrvs [OF rs i a(2), of env] off a(1) by auto
  have "set (all (snd s)) = {..<size_of (snd s)}" by (auto simp: all_def size_of_def)
  then obtain s' where "each ConnectOne (all (snd s)) s = Some s'" "grp_inv rs s'" "size_of (snd s') = size_of (snd s)"
      "srvs (snd s') = srvs (snd s)" "gid (snd s') = gid (snd s)" "\<forall>j < size_of (snd s). connected (snd s') ! j"
    using inv_ConnectOnes [OF rs s(2), of "all (snd s)"] by auto
  then show ?thesis using s by (auto simp: StartServers_def ConnectAll_def simp del: not_None_eq)
qed


end
