(* ===== verification/TesterClnts.thy ===== *)
theory TesterClnts
  imports TesterGroupProps
begin

text \<open>
  Clients of the tester, \<open>src/tester1/clnts.go\<close>: a clerk's \<open>Clnt\<close> makes an end to a server on its first
  call, and the tests connect and disconnect clients from servers. The operations are followed by an
  abstract account of which servers a client can reach, and a proof that they implement it.
\<close>

section \<open>Clnt\<close>

record tend =
  tend_name :: string
  tend_end :: ClientEnd

text \<open>\<open>srvs = nil\<close> (\<^term>\<open>None\<close>) allows every server.\<close>

record Clnt =
  clnt_ends :: "(string \<times> tend) list"
  clnt_srvs :: "string list option"

type_synonym clnt_state = "tnet \<times> Clnt"

definition makeClntTo :: "string list option \<Rightarrow> Clnt" where
  "makeClntTo ns = \<lparr>clnt_ends = [], clnt_srvs = ns\<rparr>"

definition allowedL :: "string \<Rightarrow> Clnt \<Rightarrow> bool" where
  "allowedL server clnt \<longleftrightarrow> (case clnt_srvs clnt of None \<Rightarrow> True | Some ns \<Rightarrow> server \<in> set ns)"

definition Clnt_makeEnd :: "(nat \<Rightarrow> string) \<Rightarrow> string \<Rightarrow> clnt_state \<Rightarrow> (clnt_state \<times> tend) option" where
  "Clnt_makeEnd rs server st =
     (case st of ((rn, k), clnt) \<Rightarrow>
        case map_of (clnt_ends clnt) server of
          Some e \<Rightarrow> Some (st, e)
        | None \<Rightarrow> do {
            let name = rs k;
            (rn1, ce) \<leftarrow> MakeEnd name rn;
            let e = \<lparr>tend_name = name, tend_end = ce\<rparr>;
            let rn2 = Connect name server rn1;
            let rn3 = (if allowedL server clnt then Enable name True rn2 else Enable name False rn2);
            Some (((rn3, Suc k), clnt\<lparr>clnt_ends := AList.update server e (clnt_ends clnt)\<rparr>), e)
          })"

definition Clnt_Call ::
  "('v \<Rightarrow> string) \<Rightarrow> (string \<Rightarrow> 'v option) \<Rightarrow> (reqMsg \<Rightarrow> replyMsg option) \<Rightarrow> (nat \<Rightarrow> string) \<Rightarrow> string \<Rightarrow> string \<Rightarrow> 'v \<Rightarrow>
   clnt_state \<Rightarrow> (clnt_state \<times> bool \<times> 'v option) option" where
  "Clnt_Call gob_enc gob_dec network rs server meth args st = do {
     (st', e) \<leftarrow> Clnt_makeEnd rs server st;
     r \<leftarrow> Call gob_enc gob_dec network (tend_end e) meth args;
     Some (st', r)
   }"

definition Clnt_ConnectAll :: "clnt_state \<Rightarrow> clnt_state" where
  "Clnt_ConnectAll st =
     (case st of ((rn, k), clnt) \<Rightarrow>
        ((fold (\<lambda>(s, e) rn. Enable (tend_name e) True rn) (clnt_ends clnt) rn, k), clnt\<lparr>clnt_srvs := None\<rparr>))"

definition ConnectTo :: "string list option \<Rightarrow> clnt_state \<Rightarrow> clnt_state" where
  "ConnectTo ns st =
     (case st of ((rn, k), clnt) \<Rightarrow>
        let clnt1 = clnt\<lparr>clnt_srvs := ns\<rparr>
        in ((fold (\<lambda>(s, e) rn. if allowedL s clnt1 then Enable (tend_name e) True rn else rn) (clnt_ends clnt) rn, k), clnt1))"

definition Clnt_Disconnect :: "string \<Rightarrow> clnt_state \<Rightarrow> clnt_state" where
  "Clnt_Disconnect srv st =
     (case st of ((rn, k), clnt) \<Rightarrow>
        ((fold (\<lambda>(s, e) rn. if s = srv then Enable (tend_name e) False rn else rn) (clnt_ends clnt) rn, k), clnt))"

definition Clnt_DisconnectAll :: "clnt_state \<Rightarrow> clnt_state" where
  "Clnt_DisconnectAll st =
     (case st of ((rn, k), clnt) \<Rightarrow>
        ((fold (\<lambda>(s, e) rn. Enable (tend_name e) False rn) (clnt_ends clnt) rn, k), clnt\<lparr>clnt_srvs := Some []\<rparr>))"

definition Clnt_remove :: "Clnt \<Rightarrow> Network \<Rightarrow> Network option" where
  "Clnt_remove clnt rn = each (\<lambda>(s, e). DeleteEnd (tend_name e)) (clnt_ends clnt) rn"

section \<open>Clnts\<close>

text \<open>The clients of a test; the key of a client is its address.\<close>

record Clnts =
  clerks :: "(nat \<times> Clnt) list"

definition makeClnts :: Clnts where
  "makeClnts = \<lparr>clerks = []\<rparr>"

definition Clnts_makeEnd :: "(nat \<Rightarrow> string) \<Rightarrow> string \<Rightarrow> tnet \<Rightarrow> (tnet \<times> ClientEnd) option" where
  "Clnts_makeEnd rs servername nk =
     (case nk of (rn, k) \<Rightarrow> do {
        (rn1, ce) \<leftarrow> MakeEnd (rs k) rn;
        Some ((Enable (rs k) True (Connect (rs k) servername rn1), Suc k), ce)
      })"

definition MakeClientTo :: "nat \<Rightarrow> string list option \<Rightarrow> Clnts \<Rightarrow> Clnts" where
  "MakeClientTo addr ns cs = cs\<lparr>clerks := AList.update addr (makeClntTo ns) (clerks cs)\<rparr>"

definition MakeClient :: "nat \<Rightarrow> Clnts \<Rightarrow> Clnts" where
  "MakeClient addr cs = MakeClientTo addr None cs"

definition Clnts_cleanup :: "Network \<times> Clnts \<Rightarrow> (Network \<times> Clnts) option" where
  "Clnts_cleanup st =
     (case st of (rn, cs) \<Rightarrow> do {
        rn' \<leftarrow> each (\<lambda>(a, c). Clnt_remove c) (clerks cs) rn;
        Some (rn', cs\<lparr>clerks := []\<rparr>)
      })"

definition DeleteClient :: "nat \<Rightarrow> Network \<times> Clnts \<Rightarrow> (Network \<times> Clnts) option" where
  "DeleteClient addr st =
     (case st of (rn, cs) \<Rightarrow>
        case map_of (clerks cs) addr of
          Some c \<Rightarrow> do { rn' \<leftarrow> Clnt_remove c rn; Some (rn', cs\<lparr>clerks := AList.delete addr (clerks cs)\<rparr>) }
        | None \<Rightarrow> Some (rn, cs))"

section \<open>What a client can reach\<close>

text \<open>
  The contract: which servers a client has called (\<open>known\<close>), which of these it can reach (\<open>up\<close>), and
  which ones it may reach when it calls them first (\<open>may\<close>).
\<close>

record policy =
  known :: "string set"
  up :: "string set"
  may :: "string list option"

datatype clnt_op = CallTo string | AllOn | OnlyTo "string list option" | Off string | AllOff

fun pol_step :: "clnt_op \<Rightarrow> policy \<Rightarrow> policy" where
  "pol_step (CallTo s) p =
     (if s \<in> known p then p
      else p\<lparr>known := insert s (known p),
             up := (if (case may p of None \<Rightarrow> True | Some ns \<Rightarrow> s \<in> set ns) then insert s (up p) else up p)\<rparr>)"
| "pol_step AllOn p = p\<lparr>up := known p, may := None\<rparr>"
| "pol_step (OnlyTo ns) p =
     p\<lparr>up := up p \<union> (case ns of None \<Rightarrow> known p | Some xs \<Rightarrow> known p \<inter> set xs), may := ns\<rparr>"
| "pol_step (Off s) p = p\<lparr>up := up p - {s}\<rparr>"
| "pol_step AllOff p = p\<lparr>up := {}, may := Some []\<rparr>"

fun clnt_step :: "(nat \<Rightarrow> string) \<Rightarrow> clnt_op \<Rightarrow> clnt_state \<Rightarrow> clnt_state option" where
  "clnt_step rs (CallTo s) st = map_option fst (Clnt_makeEnd rs s st)"
| "clnt_step rs AllOn st = Some (Clnt_ConnectAll st)"
| "clnt_step rs (OnlyTo ns) st = Some (ConnectTo ns st)"
| "clnt_step rs (Off s) st = Some (Clnt_Disconnect s st)"
| "clnt_step rs AllOff st = Some (Clnt_DisconnectAll st)"

text \<open>An end implements the policy: it leads to its server and is enabled when the server may be reached.\<close>

definition end_ok :: "(nat \<Rightarrow> string) \<Rightarrow> policy \<Rightarrow> tnet \<Rightarrow> string \<Rightarrow> tend \<Rightarrow> bool" where
  "end_ok rs p nk s e \<longleftrightarrow> tend_name e \<in> rs ` {..<snd nk} \<and> endname (tend_end e) = tend_name e \<and>
     callf (tend_end e) = None \<and> connections (fst nk) (tend_name e) = Some s \<and> (enabled (fst nk) (tend_name e) \<longleftrightarrow> s \<in> up p)"

definition clnt_rel :: "(nat \<Rightarrow> string) \<Rightarrow> policy \<Rightarrow> clnt_state \<Rightarrow> bool" where
  "clnt_rel rs p st \<longleftrightarrow> fresh rs (fst st) \<and> distinct (map fst (clnt_ends (snd st))) \<and> inj_on (\<lambda>(s, e). tend_name e) (set (clnt_ends (snd st))) \<and>
     fst ` set (clnt_ends (snd st)) = known p \<and> up p \<subseteq> known p \<and> clnt_srvs (snd st) = may p \<and>
     (\<forall>s e. (s, e) \<in> set (clnt_ends (snd st)) \<longrightarrow> end_ok rs p (fst st) s e)"

lemma fold_ends:
  "fold (\<lambda>(s, e) rn. if P s then Enable (tend_name e) b rn else rn) xs rn =
   rn\<lparr>enabled := \<lambda>x. if \<exists>(s, e) \<in> set xs. P s \<and> x = tend_name e then b else enabled rn x\<rparr>"
proof (induction xs arbitrary: rn)
  case (Cons x xs)
  obtain s e where x: "x = (s, e)" by fastforce
  show ?case
  proof (cases "P s")
    case True
    then have "fold (\<lambda>(s, e) rn. if P s then Enable (tend_name e) b rn else rn) (x # xs) rn =
        (rn\<lparr>enabled := (enabled rn)(tend_name e := b)\<rparr>)\<lparr>enabled := \<lambda>y. if \<exists>(s, e) \<in> set xs. P s \<and> y = tend_name e then b
          else ((enabled rn)(tend_name e := b)) y\<rparr>"
      by (simp add: x Enable_def Cons.IH)
    also have "\<dots> = rn\<lparr>enabled := \<lambda>y. if \<exists>(s, e) \<in> set (x # xs). P s \<and> y = tend_name e then b else enabled rn y\<rparr>"
      using True by (simp add: x) (rule arg_cong [where f = "\<lambda>f. rn\<lparr>enabled := f\<rparr>"], auto)
    finally show ?thesis .
  qed (simp add: x Cons.IH)
qed simp

lemma clnt_rel_name:
  assumes "clnt_rel rs p ((rn, k), clnt)" "(s, e) \<in> set (clnt_ends clnt)"
  shows "\<exists>m < k. tend_name e = rs m"
proof -
  have "end_ok rs p (rn, k) s e" using assms by (simp add: clnt_rel_def)
  then show ?thesis by (auto simp: end_ok_def)
qed

text \<open>The operations that enable or disable the ends of some servers.\<close>

lemma clnt_rel_switch:
  assumes rs: "inj rs" and r: "clnt_rel rs p ((rn, k), clnt)"
    and u: "u = (if b then up p \<union> {s \<in> known p. P s} else up p - {s. P s})"
  shows "clnt_rel rs (p\<lparr>up := u, may := ns\<rparr>)
    ((fold (\<lambda>(s, e) rn. if P s then Enable (tend_name e) b rn else rn) (clnt_ends clnt) rn, k), clnt\<lparr>clnt_srvs := ns\<rparr>)"
proof -
  define E where "E = (\<lambda>x. if \<exists>(s, e) \<in> set (clnt_ends clnt). P s \<and> x = tend_name e then b else enabled rn x)"
  have inj: "inj_on (\<lambda>(s, e). tend_name e) (set (clnt_ends clnt))" using r by (simp add: clnt_rel_def)
  have old: "\<exists>m < k. tend_name e = rs m" if "(s, e) \<in> set (clnt_ends clnt)" for s e using that by (rule clnt_rel_name [OF r])
  have "\<not> (\<exists>(s, e) \<in> set (clnt_ends clnt). P s \<and> rs m = tend_name e)" if "m \<ge> k" for m
    using old that by (auto simp: inj_eq [OF rs]) (metis inj_eq [OF rs] leD)
  then have fr: "fresh rs (rn\<lparr>enabled := E\<rparr>, k)" using r by (auto simp: clnt_rel_def fresh_def E_def)
  have E: "E (tend_name e) \<longleftrightarrow> s \<in> u" if "(s, e) \<in> set (clnt_ends clnt)" for s e
  proof -
    have "(\<exists>(s', e') \<in> set (clnt_ends clnt). P s' \<and> tend_name e = tend_name e') \<longleftrightarrow> P s"
    proof
      assume "\<exists>(s', e') \<in> set (clnt_ends clnt). P s' \<and> tend_name e = tend_name e'"
      then obtain s' e' where "(s', e') \<in> set (clnt_ends clnt)" "P s'" "tend_name e = tend_name e'" by auto
      with inj that have "(s', e') = (s, e)" unfolding inj_on_def by fastforce
      with \<open>P s'\<close> show "P s" by simp
    qed (use that in auto)
    moreover have "s \<in> known p" using r that by (force simp: clnt_rel_def)
    moreover have "enabled rn (tend_name e) \<longleftrightarrow> s \<in> up p" using r that by (auto simp: clnt_rel_def end_ok_def)
    ultimately show ?thesis by (simp add: u E_def)
  qed
  have "u \<subseteq> known p" using r by (auto simp: u clnt_rel_def)
  then show ?thesis
    unfolding fold_ends E_def [symmetric] using r fr E by (auto simp: clnt_rel_def end_ok_def)
qed

lemma clnt_rel_Call:
  assumes rs: "inj rs" and r: "clnt_rel rs p st"
  shows "\<exists>st' e. Clnt_makeEnd rs s st = Some (st', e) \<and> clnt_rel rs (pol_step (CallTo s) p) st' \<and>
    (s, e) \<in> set (clnt_ends (snd st')) \<and> servers (fst (fst st')) = servers (fst (fst st)) \<and> reliable (fst (fst st')) = reliable (fst (fst st))"
proof -
  obtain rn k clnt where st: "st = ((rn, k), clnt)" by (metis surj_pair)
  have keys: "fst ` set (clnt_ends clnt) = known p" using r by (simp add: clnt_rel_def st)
  show ?thesis
  proof (cases "map_of (clnt_ends clnt) s")
    case (Some e)
    then have "(s, e) \<in> set (clnt_ends clnt)" by (rule map_of_SomeD)
    moreover from this have "s \<in> known p" using keys by force
    ultimately show ?thesis using Some r by (simp add: Clnt_makeEnd_def st)
  next
    case None
    then have new: "s \<notin> known p" using keys by (simp add: map_of_eq_None_iff)
    let ?ce = "\<lparr>endname = rs k, callf = None\<rparr>"
    let ?e = "\<lparr>tend_name = rs k, tend_end = ?ce\<rparr>"
    have f: "ends rn (rs k) = None" "\<not> enabled rn (rs k)" using r by (simp_all add: clnt_rel_def st fresh_def)
    define rn' where "rn' = rn\<lparr>ends := (ends rn)(rs k \<mapsto> ?ce), enabled := (enabled rn)(rs k := allowedL s clnt),
      connections := (connections rn)(rs k \<mapsto> s)\<rparr>"
    define clnt' where "clnt' = clnt\<lparr>clnt_ends := clnt_ends clnt @ [(s, ?e)]\<rparr>"
    have "AList.update s ?e (clnt_ends clnt) = clnt_ends clnt @ [(s, ?e)]"
      using new keys by (intro AList_update_new) simp
    then have eq: "Clnt_makeEnd rs s st = Some (((rn', Suc k), clnt'), ?e)"
      using None f by (simp add: Clnt_makeEnd_def st MakeEnd_def Let_def Connect_def Enable_def rn'_def clnt'_def)
    have old: "\<exists>m < k. tend_name e = rs m" if "(a, e) \<in> set (clnt_ends clnt)" for a e using that by (rule clnt_rel_name [OF r [unfolded st]])
    then have ne: "tend_name e \<noteq> rs k" if "(a, e) \<in> set (clnt_ends clnt)" for a e using that by (metis inj_eq [OF rs] less_irrefl)
    have al: "allowedL s clnt \<longleftrightarrow> (case may p of None \<Rightarrow> True | Some ns \<Rightarrow> s \<in> set ns)"
      using r by (simp add: allowedL_def clnt_rel_def st)
    have fr: "fresh rs (rn', Suc k)" using r by (auto simp: clnt_rel_def st fresh_def rn'_def inj_eq [OF rs])
    have in': "inj_on (\<lambda>(s, e). tend_name e) (set (clnt_ends clnt'))"
      using r ne unfolding clnt_rel_def st clnt'_def by (auto simp: inj_on_insert dest: sym)
    have e1: "end_ok rs (pol_step (CallTo s) p) (rn', Suc k) a e" if "(a, e) \<in> set (clnt_ends clnt)" for a e
    proof -
      have "end_ok rs p (rn, k) a e" "a \<noteq> s" using r that new keys by (force simp: clnt_rel_def st)+
      then show ?thesis using ne [OF that] new by (auto simp: end_ok_def rn'_def less_Suc_eq)
    qed
    have e2: "end_ok rs (pol_step (CallTo s) p) (rn', Suc k) s ?e"
      using new al r by (auto simp: end_ok_def rn'_def clnt_rel_def)
    have p': "known (pol_step (CallTo s) p) = insert s (known p)" "may (pol_step (CallTo s) p) = may p"
        "up (pol_step (CallTo s) p) \<subseteq> insert s (known p)"
      using new r by (auto simp: clnt_rel_def split: if_splits)
    have "clnt_rel rs (pol_step (CallTo s) p) ((rn', Suc k), clnt')"
      using r fr in' new keys e1 e2 p' unfolding clnt_rel_def st clnt'_def by (auto simp del: pol_step.simps)
    then show ?thesis using eq by (simp add: st rn'_def clnt'_def)
  qed
qed


text \<open>Every operation implements its abstract counterpart.\<close>

lemma clnt_step_refines:
  assumes rs: "inj rs" and r: "clnt_rel rs p st"
  shows "\<exists>st'. clnt_step rs op st = Some st' \<and> clnt_rel rs (pol_step op p) st' \<and>
    servers (fst (fst st')) = servers (fst (fst st)) \<and> reliable (fst (fst st')) = reliable (fst (fst st))"
proof -
  obtain rn k clnt where st: "st = ((rn, k), clnt)" by (metis surj_pair)
  note r' = r [unfolded st]
  have my: "clnt_srvs clnt = may p" and upk: "up p \<subseteq> known p" using r' by (simp_all add: clnt_rel_def)
  note all_ends = fold_ends [where P = "\<lambda>_. True", simplified]
  show ?thesis
  proof (cases op)
    case (CallTo s)
    then show ?thesis using clnt_rel_Call [OF rs r, of s] by (auto simp del: pol_step.simps)
  next
    case AllOn
    then show ?thesis
      using clnt_rel_switch [OF rs r', of "known p" True "\<lambda>_. True" None] upk
      by (simp add: st Clnt_ConnectAll_def all_ends Un_absorb1)
  next
    case (OnlyTo ns)
    let ?P = "\<lambda>s. allowedL s (clnt\<lparr>clnt_srvs := ns\<rparr>)"
    have "{s \<in> known p. ?P s} = (case ns of None \<Rightarrow> known p | Some xs \<Rightarrow> known p \<inter> set xs)"
      by (auto simp: allowedL_def split: option.splits)
    then show ?thesis
      using clnt_rel_switch [OF rs r' refl, where b = True and P = ?P and ns = ns] OnlyTo
      by (simp add: st ConnectTo_def Let_def fold_ends [where P = ?P])
  next
    case (Off s)
    have "clnt\<lparr>clnt_srvs := may p\<rparr> = clnt" "p\<lparr>up := up p - {s}, may := may p\<rparr> = p\<lparr>up := up p - {s}\<rparr>"
      using my by simp_all
    then show ?thesis
      using clnt_rel_switch [OF rs r', of "up p - {s}" False "\<lambda>x. x = s" "may p"] Off
      by (simp add: st Clnt_Disconnect_def fold_ends [where P = "\<lambda>x. x = s"])
  next
    case AllOff
    then show ?thesis
      using clnt_rel_switch [OF rs r', of "{}" False "\<lambda>_. True" "Some []"]
      by (simp add: st Clnt_DisconnectAll_def all_ends)
  qed
qed

lemma clnt_run_refines:
  assumes rs: "inj rs"
  shows "clnt_rel rs p st \<Longrightarrow> \<exists>st'. each (clnt_step rs) ops st = Some st' \<and> clnt_rel rs (fold pol_step ops p) st' \<and>
    servers (fst (fst st')) = servers (fst (fst st)) \<and> reliable (fst (fst st')) = reliable (fst (fst st))"
proof (induction ops arbitrary: p st)
  case Nil
  then show ?case by simp
next
  case (Cons op ops)
  obtain s where s: "clnt_step rs op st = Some s" "clnt_rel rs (pol_step op p) s"
      "servers (fst (fst s)) = servers (fst (fst st))" "reliable (fst (fst s)) = reliable (fst (fst st))"
    using clnt_step_refines [OF rs Cons.prems] by blast
  show ?case using Cons.IH [OF s(2)] s by auto
qed

lemma clnt_rel_start: "fresh rs nk \<Longrightarrow> clnt_rel rs \<lparr>known = {}, up = {}, may = ns\<rparr> (nk, makeClntTo ns)"
  by (simp add: clnt_rel_def makeClntTo_def)


end
