(* ===== verification/TesterProps.thy ===== *)
theory TesterProps
  imports TesterClnts
begin

text \<open>
  The tester's topology: what the groups and clients of \<open>src/tester1\<close> do to requests in the simulated
  network.
\<close>

section \<open>Sequences of operations on a group\<close>

text \<open>
  \<open>Restart i\<close> is \<open>ShutdownServer\<close> followed by \<open>StartServer\<close>, as the comment at \<open>StartServer\<close> asks for;
  the new server is not connected yet.
\<close>

datatype grp_op = GConnect nat | GDisconnect nat | GShutdown nat | GRestart nat bool nat

fun grp_index :: "grp_op \<Rightarrow> nat" where
  "grp_index (GConnect i) = i"
| "grp_index (GDisconnect i) = i"
| "grp_index (GShutdown i) = i"
| "grp_index (GRestart i run addr) = i"

fun grp_exec :: "(nat \<Rightarrow> string) \<Rightarrow> grp_op \<Rightarrow> ('r, 'b) grp_state \<Rightarrow> ('r, 'b) grp_state option" where
  "grp_exec rs (GConnect i) st = ConnectOne i st"
| "grp_exec rs (GDisconnect i) st = DisconnectAll i st"
| "grp_exec rs (GShutdown i) st = ShutdownServer i st"
| "grp_exec rs (GRestart i run addr) st = do {
     st' \<leftarrow> ShutdownServer i st;
     map_option fst (StartServer rs run addr i st')
   }"

definition grp_test ::
  "(nat \<Rightarrow> string) \<Rightarrow> (nat \<Rightarrow> bool \<times> nat) \<Rightarrow> Tgid \<Rightarrow> nat \<Rightarrow> grp_op list \<Rightarrow> ('r, 'b) grp_state option" where
  "grp_test rs env g n ops = do {
     st \<leftarrow> makeSrvGrp rs g n (MakeNetwork, 0);
     st' \<leftarrow> StartServers rs env st;
     each (grp_exec rs) ops st'
   }"

lemma grp_exec_inv:
  assumes rs: "inj rs" and i: "grp_inv rs st" and n: "grp_index op < size_of (snd st)"
  shows "\<exists>st'. grp_exec rs op st = Some st' \<and> grp_inv rs st' \<and> size_of (snd st') = size_of (snd st) \<and> gid (snd st') = gid (snd st)"
proof (cases op)
  case (GConnect j)
  then obtain s where "ConnectOne j st = Some s" "grp_inv rs s" "same_but_links st s"
    using inv_ConnectOne [OF rs i, of j] n by auto
  then show ?thesis using GConnect same_names [of st s] by (simp add: same_but_links_def)
next
  case (GDisconnect j)
  then obtain s where "DisconnectAll j st = Some s" "grp_inv rs s" "same_but_links st s"
    using inv_DisconnectAll [OF rs i, of j] n by auto
  then show ?thesis using GDisconnect same_names [of st s] by (simp add: same_but_links_def)
next
  case (GShutdown j)
  then show ?thesis using inv_ShutdownServer [OF rs i, of j] n by auto
next
  case (GRestart j run addr)
  then obtain s where s: "ShutdownServer j st = Some s" "grp_inv rs s" "size_of (snd s) = size_of (snd st)"
      "connected (snd s) = (connected (snd st))[j := False]" "dc (srvs (snd s) ! j) = None" "gid (snd s) = gid (snd st)"
    using inv_ShutdownServer [OF rs i, of j] n by auto
  have "length (connected (snd st)) = size_of (snd st)" using i by (simp add: grp_inv_def wired_def names_ok_def)
  then have "\<not> connected (snd s) ! j" using s(4) n GRestart by simp
  then show ?thesis using inv_StartServer [OF rs s(2), of j run addr] s n GRestart by auto
qed

lemma grp_run_inv:
  assumes rs: "inj rs"
  shows "grp_inv rs st \<Longrightarrow> \<forall>op \<in> set ops. grp_index op < size_of (snd st) \<Longrightarrow>
    \<exists>st'. each (grp_exec rs) ops st = Some st' \<and> grp_inv rs st' \<and> size_of (snd st') = size_of (snd st) \<and> gid (snd st') = gid (snd st)"
proof (induction ops arbitrary: st)
  case Nil
  then show ?case by simp
next
  case (Cons op ops)
  then obtain s where s: "grp_exec rs op st = Some s" "grp_inv rs s" "size_of (snd s) = size_of (snd st)" "gid (snd s) = gid (snd st)"
    using grp_exec_inv [OF rs, of st op] by auto
  then show ?case using Cons.IH [of s] Cons.prems by auto
qed

lemma grp_test_inv:
  assumes rs: "inj rs" and n: "\<forall>op \<in> set ops. grp_index op < n"
  shows "\<exists>st :: ('r, 'b) grp_state. grp_test rs env g n ops = Some st \<and> grp_inv rs st \<and> size_of (snd st) = n \<and> gid (snd st) = g"
proof -
  obtain s :: "('r, 'b) grp_state" where s: "makeSrvGrp rs g n (MakeNetwork, 0) = Some s" "grp_inv rs s" "size_of (snd s) = n"
      "connected (snd s) = replicate n False" "\<forall>i < n. dc (srvs (snd s) ! i) = None" "gid (snd s) = g"
    using makeSrvGrp_inv [OF rs] by blast
  moreover obtain s1 where "StartServers rs env s = Some s1" "grp_inv rs s1" "size_of (snd s1) = n" "gid (snd s1) = g"
    using inv_StartServers [OF rs s(2), of env] s by auto
  moreover from this obtain s2 where "each (grp_exec rs) ops s1 = Some s2" "grp_inv rs s2" "size_of (snd s2) = n" "gid (snd s2) = g"
    using grp_run_inv [OF rs, of s1 ops] n by auto
  ultimately show ?thesis by (simp add: grp_test_def)
qed

section \<open>Properties\<close>

text \<open>A request on the end with the given name, as the network gets it.\<close>

definition request :: "string \<Rightarrow> string \<Rightarrow> string \<Rightarrow> rpc" where
  "request e meth args = \<lparr>req = \<lparr>rq_endname = e, rq_svcMeth = meth, rq_args = args\<rparr>, info = None, ran = None, ph = Queued\<rparr>"

text \<open>
  C17. What \<open>connected\<close> says is what the network does: after a group of servers has been made and
  started and any sequence of connects, disconnects, shutdowns and restarts, a request from server \<open>i\<close>
  to server \<open>j\<close> is passed to the handler of server \<open>j\<close> if both servers are connected and the daemon
  of \<open>j\<close> runs, and is answered with a failure otherwise. No step of such a test panics. Random names
  are taken to be different from each other, and the network is reliable.
\<close>

theorem connected_servers_reach_each_other:
  assumes "inj rs" "\<forall>op \<in> set ops. grp_index op < n"
  shows "case grp_test rs env g n ops of
      None \<Rightarrow> False
    | Some ((rn, k), sg :: ('r, 'b) ServerGrp) \<Rightarrow> \<forall>i < n. \<forall>j < n. \<forall>rnd meth args.
        (let r = processReq_begin rnd rn (request (endNames (srvs sg ! i) ! j) meth args) in
         if connected sg ! i \<and> connected sg ! j \<and> dc (srvs sg ! j) \<noteq> None
         then ph r = Running \<and> (\<exists>a. info r = Some (ServerName g j, a, True, longReordering rn) \<and> servers rn (ServerName g j) = Some a)
         else ph r = Answered failed)"
proof -
  obtain rn k and sg :: "('r, 'b) ServerGrp" where t: "grp_test rs env g n ops = Some ((rn, k), sg)" and i: "grp_inv rs ((rn, k), sg)"
    and n: "size_of sg = n" "gid sg = g"
    using grp_test_inv [OF assms] by fastforce
  have *: "enabled rn (link sg i j) \<longleftrightarrow> connected sg ! i \<and> connected sg ! j"
      "connections rn (link sg i j) = Some (ServerName g j)"
      "servers rn (ServerName g j) = None \<longleftrightarrow> dc (srvs sg ! j) = None" "reliable rn"
    if "i < n" "j < n" for i j
    using i that n by (simp_all add: grp_inv_def wired_def meshed_def linked_def serving_ok_def)
  have "let r = processReq_begin rnd rn (request (link sg i j) meth args) in
        if connected sg ! i \<and> connected sg ! j \<and> dc (srvs sg ! j) \<noteq> None
        then ph r = Running \<and> (\<exists>a. info r = Some (ServerName g j, a, True, longReordering rn) \<and> servers rn (ServerName g j) = Some a)
        else ph r = Answered failed" if ij: "i < n" "j < n" for i j rnd meth args
  proof (cases "servers rn (ServerName g j)")
    case None
    then show ?thesis using * [OF ij]
      by (cases "connected sg ! i \<and> connected sg ! j") (simp_all add: Let_def request_def processReq_begin_def readEndnameInfo_def)
  next
    case (Some a)
    then show ?thesis using * [OF ij] begin_disabled [of rn "request (link sg i j) meth args" rnd]
        begin_enabled [of rn "request (link sg i j) meth args" "ServerName g j" a rnd]
      by (auto simp: Let_def request_def)
  qed
  then show ?thesis unfolding t option.case prod.case by blast
qed

definition demo_env :: "nat \<Rightarrow> bool \<times> nat" where
  "demo_env i = (True, i)"

definition demo_ops :: "grp_op list" where
  "demo_ops = [GDisconnect 1, GRestart 2 True 7, GConnect 2]"

theorem connected_servers_reach_each_other_witness:
  "case grp_test itoa_nat demo_env 0 3 demo_ops of
      None \<Rightarrow> False
    | Some ((rn, k), sg :: (nat, nat) ServerGrp) \<Rightarrow> connected sg = [True, False, True] \<and>
        ph (processReq_begin 5 rn (request (endNames (srvs sg ! 0) ! 1) ''Raft.AppendEntries'' [])) = Answered failed \<and>
        ph (processReq_begin 5 rn (request (endNames (srvs sg ! 0) ! 2) ''Raft.AppendEntries'' [])) = Running"
proof -
  have "inj itoa_nat" "\<forall>op \<in> set demo_ops. grp_index op < 3" by (auto simp: inj_def demo_ops_def)
  note * = connected_servers_reach_each_other [OF this, where env = demo_env and g = 0 and 'r = nat and 'b = nat]
  have "case grp_test itoa_nat demo_env 0 3 demo_ops of None \<Rightarrow> False
      | Some ((rn, k), sg :: (nat, nat) ServerGrp) \<Rightarrow> connected sg = [True, False, True] \<and> dc (srvs sg ! 2) \<noteq> None"
    by code_simp
  with * show ?thesis by (auto simp: Let_def split: option.splits)
qed





definition demo_net :: Network where
  "demo_net = AddServer ''server-0-1'' 1 (AddServer ''server-0-0'' 0 MakeNetwork)"


section \<open>What the tests must not rely on\<close>

text \<open>
  In a group of an even number of servers the second array has a place too many, and server 0 is in
  the partition twice.
\<close>

theorem MakePartition_even_repeats_0:
  fixes sg :: "('r, 'b) ServerGrp"
  assumes "even (size_of sg)" "2 \<le> size_of sg" "l < size_of sg"
  shows "\<exists>p1 p2. MakePartition (int l) sg = Some (map int p1, map int p2) \<and> \<not> distinct (p1 @ p2)"
proof -
  obtain p1 p2 where p: "MakePartition (int l) sg = Some (map int p1, map int p2)"
      "p1 @ p2 = filter (\<lambda>i. i \<noteq> l) [0..<size_of sg] @ [0] @ [l]"
    using MakePartition_outcome [of "size_of sg" sg l] assms by (auto simp: size_of_def)
  have "\<not> distinct (p1 @ p2)" unfolding p(2) using assms(2) by (cases "l = 0") auto
  with p(1) show ?thesis by blast
qed

text \<open>\<open>ConnectTo\<close> does not disable the ends to servers outside its list: a server reached before stays reachable.\<close>

theorem ConnectTo_keeps_old_servers:
  "case each (clnt_step itoa_nat) [CallTo ''server-0-0'', OnlyTo (Some [''server-0-1''])] ((demo_net, 0), makeClntTo None) of
     None \<Rightarrow> False
   | Some ((rn, k), c) \<Rightarrow> \<not> allowedL ''server-0-0'' c \<and> enabled rn (itoa_nat 0)"
  by code_simp


end
