(* ===== verification/TesterConfig.thy ===== *)
theory TesterConfig
  imports TesterProps
begin

text \<open>
  A test's configuration, \<open>src/tester1/config.go\<close>: one network shared by the groups of servers and the
  clients. Time, printing and the testing package are left out; the counters of \<open>Begin\<close> and \<open>OpInc\<close>
  keep their widths.
\<close>

definition GRP0 :: Tgid where
  "GRP0 = 0"

record ('r, 'b) Config =
  cfg_net :: tnet
  cfg_Groups :: "('r, 'b) Groups"
  cfg_Clnts :: Clnts
  rpcs0 :: int
  cfg_ops :: "32 word"
  cfg_endName :: string

definition MakeConfig ::
  "(nat \<Rightarrow> string) \<Rightarrow> (nat \<Rightarrow> bool \<times> nat) \<Rightarrow> nat \<Rightarrow> bool \<Rightarrow> nat \<Rightarrow> ('r, 'b) Config option" where
  "MakeConfig rs env n rel k = do {
     let name = rs k;
     ((rn, k'), gs) \<leftarrow> MakeGroupStart rs env GRP0 n ((MakeNetwork, Suc k), newGroups);
     Some \<lparr>cfg_net = (Reliable rel rn, k'), cfg_Groups = gs, cfg_Clnts = makeClnts, rpcs0 = 0, cfg_ops = 0, cfg_endName = name\<rparr>
   }"

definition SetReliable :: "bool \<Rightarrow> ('r, 'b) Config \<Rightarrow> ('r, 'b) Config" where
  "SetReliable yes cfg = cfg\<lparr>cfg_net := apfst (Reliable yes) (cfg_net cfg)\<rparr>"

definition SetLongReordering :: "bool \<Rightarrow> ('r, 'b) Config \<Rightarrow> ('r, 'b) Config" where
  "SetLongReordering yes cfg = cfg\<lparr>cfg_net := apfst (LongReordering yes) (cfg_net cfg)\<rparr>"

definition SetLongDelays :: "bool \<Rightarrow> ('r, 'b) Config \<Rightarrow> ('r, 'b) Config" where
  "SetLongDelays yes cfg = cfg\<lparr>cfg_net := apfst (LongDelays yes) (cfg_net cfg)\<rparr>"

definition Config_Group :: "Tgid \<Rightarrow> ('r, 'b) Config \<Rightarrow> ('r, 'b) ServerGrp option" where
  "Config_Group g cfg = lookupGroup g (cfg_Groups cfg)"

definition RpcTotal :: "('r, 'b) Config \<Rightarrow> int" where
  "RpcTotal cfg = sint (net_count (fst (cfg_net cfg)))"

definition BytesTotal :: "('r, 'b) Config \<Rightarrow> int" where
  "BytesTotal cfg = sint (net_bytes (fst (cfg_net cfg)))"

definition Begin_test :: "('r, 'b) Config \<Rightarrow> ('r, 'b) Config" where
  "Begin_test cfg = cfg\<lparr>rpcs0 := RpcTotal cfg, cfg_ops := 0\<rparr>"

definition OpInc :: "('r, 'b) Config \<Rightarrow> ('r, 'b) Config" where
  "OpInc cfg = cfg\<lparr>cfg_ops := cfg_ops cfg + 1\<rparr>"

text \<open>The numbers \<open>End\<close> prints of a test that has not failed: peers, requests and operations.\<close>

definition End_numbers :: "('r, 'b) Config \<Rightarrow> (nat \<times> int \<times> int) option" where
  "End_numbers cfg = do {
     sg \<leftarrow> Config_Group GRP0 cfg;
     Some (length (srvs sg), RpcTotal cfg - rpcs0 cfg, sint (cfg_ops cfg))
   }"

definition Config_Cleanup :: "('r, 'b) Config \<Rightarrow> ('r, 'b) Config option" where
  "Config_Cleanup cfg =
     (case cfg_net cfg of (rn, k) \<Rightarrow> do {
        (rn1, cs) \<leftarrow> Clnts_cleanup (rn, cfg_Clnts cfg);
        ((rn2, k2), gs) \<leftarrow> Groups_cleanup ((rn1, k), cfg_Groups cfg);
        Some (cfg\<lparr>cfg_net := (Cleanup rn2, k2), cfg_Groups := gs, cfg_Clnts := cs\<rparr>)
      })"

text \<open>\<open>random_handles\<close> shuffles a copy: \<open>js ! i\<close> is the number drawn from \<open>0..i\<close>.\<close>

fun shuffle_loop :: "nat list \<Rightarrow> nat \<Rightarrow> 'a list \<Rightarrow> 'a list" where
  "shuffle_loop [] i sa = sa"
| "shuffle_loop (j # js) i sa = shuffle_loop js (Suc i) (sa[i := sa ! j, j := sa ! i])"

definition random_handles :: "nat list \<Rightarrow> 'a list \<Rightarrow> 'a list" where
  "random_handles js kvh = shuffle_loop (take (length kvh) js) 0 kvh"

lemma shuffle_loop_mset:
  "i + length js \<le> length sa \<Longrightarrow> \<forall>m < length js. js ! m \<le> i + m \<Longrightarrow> mset (shuffle_loop js i sa) = mset sa"
proof (induction js arbitrary: i sa)
  case (Cons j js)
  have j: "j \<le> i" "i < length sa" using Cons.prems by force+
  have "mset (shuffle_loop js (Suc i) (sa[i := sa ! j, j := sa ! i])) = mset (sa[i := sa ! j, j := sa ! i])"
    using Cons.prems by (intro Cons.IH) force+
  also have "\<dots> = mset sa" using j mset_swap [of j sa i] by (cases "i = j") (simp_all add: list_update_swap)
  finally show ?case by simp
qed simp

text \<open>The shuffled handles are the handles.\<close>

lemma random_handles_permutes:
  assumes "length js = length kvh" "\<forall>m < length js. js ! m \<le> m"
  shows "mset (random_handles js kvh) = mset kvh"
  using shuffle_loop_mset [of 0 js kvh] assms by (simp add: random_handles_def)

text \<open>A new configuration has its servers started, connected with each other, and known to the network.\<close>

lemma MakeConfig_starts:
  assumes "inj rs"
  shows "\<exists>(cfg :: ('r, 'b) Config) sg. MakeConfig rs env n rel k = Some cfg \<and> Config_Group GRP0 cfg = Some sg \<and> size_of sg = n \<and>
    (rel \<longrightarrow> grp_inv rs (cfg_net cfg, sg)) \<and>
    (\<forall>i < n. connected sg ! i \<and> (dc (srvs sg ! i) \<noteq> None \<longleftrightarrow> fst (env i)) \<and> (\<forall>j < n. linked (cfg_net cfg, sg) i j))"
proof -
  obtain nk and sg :: "('r, 'b) ServerGrp" where s: "makeSrvGrp rs GRP0 n (MakeNetwork, Suc k) = Some (nk, sg)" "grp_inv rs (nk, sg)"
      "size_of sg = n" "connected sg = replicate n False" "\<forall>i < n. dc (srvs sg ! i) = None"
    using makeSrvGrp_inv [OF assms, of GRP0 n "Suc k"] by fastforce
  then obtain rn k' sg' where t: "StartServers rs env (nk, sg) = Some ((rn, k'), sg')" "grp_inv rs ((rn, k'), sg')" "size_of sg' = n"
      "\<forall>j < n. connected sg' ! j \<and> (dc (srvs sg' ! j) \<noteq> None \<longleftrightarrow> fst (env j))"
    using inv_StartServers [OF assms s(2), of env] by fastforce
  have "linked ((Reliable rel rn, k'), sg') i j" if "i < n" "j < n" for i j
    using t(2-4) that by (simp add: grp_inv_def meshed_def linked_def Reliable_def)
  moreover have "Reliable rel rn = rn" if rel using t(2) that by (simp add: grp_inv_def Reliable_def)
  ultimately show ?thesis
    using s(1) t by (simp add: MakeConfig_def MakeGroupStart_def MakeGroup_def on_group_def lookupGroup_def newGroups_def Config_Group_def
        update_conv' Let_def del: not_None_eq)
qed

end
