(* ===== verification/RaftDriver.thy ===== *)
theory RaftDriver
  imports RaftTester TesterConfig
begin

text \<open>
  How the tests of Raft drive a cluster, the rest of \<open>src/raft1/test.go\<close>: daemons are killed and
  restarted through the server group of \<open>src/tester1\<close>, \<open>one\<close> submits a command to whoever claims to
  lead and waits until enough servers have applied it, \<open>wait\<close> waits for an index. What happens in the
  cluster meanwhile is an argument: the answers of the servers and the tester's record at each
  reading. \<open>Fatalf\<close> and a nil pointer are \<^term>\<open>None\<close>; annotations are left out.
\<close>

section \<open>Daemons\<close>

text \<open>\<open>rt_rfsrv\<close> says of each server if the tester holds a proxy for it, or nil.\<close>

record ('r, 'b) raft_test =
  rt_grp :: "('r, 'b) grp_state"
  rt_rfsrv :: "bool list"

definition set_rfsrv :: "bool \<Rightarrow> nat \<Rightarrow> bool list \<Rightarrow> bool list option" where
  "set_rfsrv yes srv ps = (if srv < length ps then Some (ps[srv := yes]) else None)"

definition raft_mksrv :: "nat \<Rightarrow> ('r, 'b) raft_test \<Rightarrow> ('r, 'b) raft_test option" where
  "raft_mksrv srv ts = do { ps \<leftarrow> set_rfsrv True srv (rt_rfsrv ts); Some (ts\<lparr>rt_rfsrv := ps\<rparr>) }"

text \<open>\<open>makeTest\<close> after \<open>MakeConfig\<close>: the slots of the servers are nil until \<open>mksrv\<close> fills them.\<close>

definition raft_makeTest ::
  "(nat \<Rightarrow> string) \<Rightarrow> (nat \<Rightarrow> bool \<times> nat) \<Rightarrow> nat \<Rightarrow> bool \<Rightarrow> nat \<Rightarrow> ('r, 'b) raft_test option" where
  "raft_makeTest rs env n rel k = do {
     cfg \<leftarrow> MakeConfig rs env n rel k;
     let cfg = SetLongDelays True cfg;
     g \<leftarrow> Config_Group GRP0 cfg;
     each raft_mksrv [0..<n] \<lparr>rt_grp = (cfg_net cfg, g), rt_rfsrv = replicate n False\<rparr>
   }"

definition raft_kill :: "nat list \<Rightarrow> ('r, 'b) raft_test \<Rightarrow> ('r, 'b) raft_test option" where
  "raft_kill idx ts = do {
     g \<leftarrow> Kill idx (rt_grp ts);
     ps \<leftarrow> each (set_rfsrv False) idx (rt_rfsrv ts);
     Some \<lparr>rt_grp = g, rt_rfsrv = ps\<rparr>
   }"

definition raft_restart ::
  "(nat \<Rightarrow> string) \<Rightarrow> (nat \<Rightarrow> bool \<times> nat) \<Rightarrow> nat list \<Rightarrow> ('r, 'b) raft_test \<Rightarrow> ('r, 'b) raft_test option" where
  "raft_restart rs env idx ts = do {
     g \<leftarrow> StartSrvs rs env idx (rt_grp ts);
     each (\<lambda>srv ts. do {
       ts1 \<leftarrow> raft_mksrv srv ts;
       g1 \<leftarrow> ConnectOne srv (rt_grp ts1);
       Some (ts1\<lparr>rt_grp := g1\<rparr>)
     }) idx (ts\<lparr>rt_grp := g\<rparr>)
   }"

text \<open>
  The loop over the servers in \<open>checkOneLeader\<close>, \<open>checkTerms\<close> and \<open>checkNoLeader\<close>: the connected ones
  are asked for their state, through their proxies.
\<close>

fun ask_states :: "nat list \<Rightarrow> (nat \<Rightarrow> int \<times> bool) \<Rightarrow> ('r, 'b) raft_test \<Rightarrow> states option" where
  "ask_states [] getState ts = Some []"
| "ask_states (i # is') getState ts =
     (if connected (snd (rt_grp ts)) ! i then
        if rt_rfsrv ts ! i then map_option ((#) (i, getState i)) (ask_states is' getState ts) else None
      else ask_states is' getState ts)"

section \<open>one\<close>

text \<open>
  One turn of the loop of \<open>one\<close>: if the test is already over, what \<open>Start\<close> answers on each server
  (\<^term>\<open>None\<close> if the server is not connected or has no proxy; the loop asks a server at most once in
  a turn) and the tester's record at every look within the next two seconds.
\<close>

record 'c attempt =
  at_finished :: bool
  at_start :: "nat \<Rightarrow> (int \<times> int \<times> bool) option"
  at_polls :: "'c Test list"

fun try_servers :: "nat \<Rightarrow> nat \<Rightarrow> (nat \<Rightarrow> (int \<times> int \<times> bool) option) \<Rightarrow> nat \<Rightarrow> int \<times> nat" where
  "try_servers n 0 start starts = (-1, starts)"
| "try_servers n (Suc m) start starts =
     (let starts = (starts + 1) mod n in
      case start starts of
        Some (index1, _, ok) \<Rightarrow> if ok then (index1, starts) else try_servers n m start starts
      | None \<Rightarrow> try_servers n m start starts)"

text \<open>\<^term>\<open>Some True\<close>: enough servers have applied the command at the index.\<close>

fun poll_agreement :: "'c \<Rightarrow> int \<Rightarrow> int \<Rightarrow> 'c Test list \<Rightarrow> bool option" where
  "poll_agreement cmd expectedServers index [] = Some False"
| "poll_agreement cmd expectedServers index (ts # polls) = do {
     (nd, cmd1) \<leftarrow> nCommitted index ts;
     if 0 < nd \<and> expectedServers \<le> int nd \<and> cmd1 = Some cmd then Some True
     else poll_agreement cmd expectedServers index polls
   }"

text \<open>
  The list of attempts ends when ten seconds are over; \<open>fin\<close> is the reading of \<open>finished\<close> after the
  loop. The flag is never reset, so an attempt that finds it set also finds it set after the loop.
\<close>

fun one_loop :: "nat \<Rightarrow> 'c \<Rightarrow> int \<Rightarrow> bool \<Rightarrow> bool \<Rightarrow> 'c attempt list \<Rightarrow> nat \<Rightarrow> int option" where
  "one_loop n cmd expectedServers retry fin [] starts = (if fin then Some (-1) else None)"
| "one_loop n cmd expectedServers retry fin (a # as) starts =
     (if at_finished a then Some (-1)
      else let (index, starts) = try_servers n n (at_start a) starts in
        if index \<noteq> -1 then do {
          agreed \<leftarrow> poll_agreement cmd expectedServers index (at_polls a);
          if agreed then Some index
          else if \<not> retry then None
          else one_loop n cmd expectedServers retry fin as starts
        }
        else one_loop n cmd expectedServers retry fin as starts)"

definition one :: "nat \<Rightarrow> 'c \<Rightarrow> int \<Rightarrow> bool \<Rightarrow> bool \<Rightarrow> 'c attempt list \<Rightarrow> int option" where
  "one n cmd expectedServers retry fin as = one_loop n cmd expectedServers retry fin as 0"

section \<open>wait\<close>

text \<open>The servers are asked for their terms in order; a killed server has no proxy.\<close>

fun moved_on :: "int \<Rightarrow> int option list \<Rightarrow> bool option" where
  "moved_on startTerm [] = Some False"
| "moved_on startTerm (None # terms) = None"
| "moved_on startTerm (Some t # terms) = (if t > startTerm then Some True else moved_on startTerm terms)"

datatype 'c waited = Moved | Decided "'c option"

text \<open>
  \<open>obs k\<close> is the record at the k-th look and the terms asked for after it; \<open>to\<close> is the time of the
  next sleep and \<open>slept\<close> the time slept so far, in milliseconds. The result says if some server has
  moved on, the number of looks taken and the time slept.
\<close>

fun wait_loop ::
  "nat \<Rightarrow> int \<Rightarrow> int \<Rightarrow> int \<Rightarrow> (nat \<Rightarrow> 'c Test \<times> int option list) \<Rightarrow> nat \<Rightarrow> nat \<Rightarrow> nat \<Rightarrow> (bool \<times> nat \<times> nat) option" where
  "wait_loop 0 index n startTerm obs k to slept = Some (False, k, slept)"
| "wait_loop (Suc m) index n startTerm obs k to slept = do {
     (nd, _) \<leftarrow> nCommitted index (fst (obs k));
     if n \<le> int nd then Some (False, k + 1, slept)
     else do {
       let slept = slept + to;
       let to = (if to < 1000 then to * 2 else to);
       moved \<leftarrow> (if startTerm > -1 then moved_on startTerm (snd (obs k)) else Some False);
       if moved then Some (True, k + 1, slept)
       else wait_loop m index n startTerm obs (k + 1) to slept
     }
   }"

definition wait :: "int \<Rightarrow> int \<Rightarrow> int \<Rightarrow> (nat \<Rightarrow> 'c Test \<times> int option list) \<Rightarrow> ('c waited \<times> nat) option" where
  "wait index n startTerm obs = do {
     (moved, k, slept) \<leftarrow> wait_loop 30 index n startTerm obs 0 10 0;
     if moved then Some (Moved, slept)
     else do {
       (nd, cmd) \<leftarrow> nCommitted index (fst (obs k));
       if int nd < n then None else Some (Decided cmd, slept)
     }
   }"

end
