(* ===== verification/RaftCluster.thy ===== *)
theory RaftCluster
  imports RaftApply
begin

text \<open>
  A cluster of Raft peers at the granularity of the code's critical sections. A peer is the record
  of \<open>RaftNode\<close>; beside the peers the state holds the goroutines the code starts: one vote
  goroutine per peer and election with the variable \<open>votes\<close> they share (\<open>startElection\<close>), the
  heartbeat loops and the replication goroutines they start (\<open>sendToFollowers\<close>), each with the
  place in \<open>callPeer\<close> where it stands. A step is one critical section of one goroutine, the
  execution of a request at its receiver, or a crash followed by a restart from the persister.
  Requests and replies may be delayed for ever and the steps of different goroutines interleave
  freely, so that loss and reordering need no steps of their own; the RPC package delivers a request
  at most once.
\<close>

section \<open>Goroutines\<close>

text \<open>Where a goroutine stands that runs \<open>callPeer\<close> for RequestVote; \<open>VDone\<close> says if it counted a vote.\<close>

datatype vote_call =
    VReady
  | VSent RequestVoteArgs int
  | VReplied int RequestVoteReply
  | VDone bool

record election =
  el_owner :: nat
  el_term :: int
  el_live :: bool
  votes :: nat
  vcalls :: "nat \<Rightarrow> vote_call"

datatype ('c, 'b) rep_call =
    RSpawned
  | RAppend
  | RInstall
  | RSentAE "'c AppendEntriesArgs" int
  | RSentIS "'b InstallSnapshotArgs" int
  | RGotAE "'c AppendEntriesArgs" int AppendEntriesReply
  | RGotIS "'b InstallSnapshotArgs" int InstallSnapshotReply
  | RDone

record ('c, 'b) replicator =
  rp_owner :: nat
  rp_peer :: nat
  rp_live :: bool
  rp_call :: "('c, 'b) rep_call"

section \<open>The cluster\<close>

text \<open>
  \<open>ballots\<close> is history: every vote \<open>(voter, term, candidate)\<close> that any peer has held. \<open>delivered\<close>
  is what every peer has sent to its service so far.
\<close>

record ('c, 'b) cluster =
  nodes :: "nat \<Rightarrow> ('c, 'b) Raft"
  timeouts :: "nat \<Rightarrow> nat"
  elections :: "election list"
  heartbeats :: "nat \<Rightarrow> nat"
  replicators :: "('c, 'b) replicator list"
  delivered :: "nat \<Rightarrow> ('c, 'b) ApplyMsg list"
  ballots :: "(nat \<times> int \<times> int) set"

definition ballot_of :: "nat \<Rightarrow> ('c, 'b) Raft \<Rightarrow> (nat \<times> int \<times> int) set" where
  "ballot_of i rf = (if VotedFor rf = -1 then {} else {(i, CurrentTerm rf, VotedFor rf)})"

definition set_node :: "nat \<Rightarrow> ('c, 'b) Raft \<Rightarrow> ('c, 'b) cluster \<Rightarrow> ('c, 'b) cluster" where
  "set_node i rf s = s\<lparr>nodes := (nodes s)(i := rf), ballots := ballots s \<union> ballot_of i rf\<rparr>"

definition set_vcall :: "nat \<Rightarrow> nat \<Rightarrow> vote_call \<Rightarrow> ('c, 'b) cluster \<Rightarrow> ('c, 'b) cluster" where
  "set_vcall e p vc s = s\<lparr>elections := (elections s)[e := (elections s ! e)
     \<lparr>vcalls := (vcalls (elections s ! e))(p := vc)\<rparr>]\<rparr>"

definition set_votes :: "nat \<Rightarrow> nat \<Rightarrow> ('c, 'b) cluster \<Rightarrow> ('c, 'b) cluster" where
  "set_votes e v s = s\<lparr>elections := (elections s)[e := (elections s ! e)\<lparr>votes := v\<rparr>]\<rparr>"

definition set_rcall :: "nat \<Rightarrow> ('c, 'b) rep_call \<Rightarrow> ('c, 'b) cluster \<Rightarrow> ('c, 'b) cluster" where
  "set_rcall k rc s = s\<lparr>replicators := (replicators s)[k := (replicators s ! k)\<lparr>rp_call := rc\<rparr>]\<rparr>"

definition deliver :: "nat \<Rightarrow> ('c, 'b) ApplyMsg list \<Rightarrow> ('c, 'b) cluster \<Rightarrow> ('c, 'b) cluster" where
  "deliver i ms s = s\<lparr>delivered := (delivered s)(i := delivered s i @ ms)\<rparr>"

text \<open>The goroutines \<open>startElection\<close> starts: all peers but itself, and \<open>votes := 1\<close>.\<close>

definition new_election :: "nat \<Rightarrow> int \<Rightarrow> election" where
  "new_election i t = \<lparr>el_owner = i, el_term = t, el_live = True, votes = 1,
     vcalls = (\<lambda>p. if p = i then VDone False else VReady)\<rparr>"

definition new_replicators :: "nat \<Rightarrow> nat \<Rightarrow> ('c, 'b) replicator list" where
  "new_replicators n i = map (\<lambda>p. \<lparr>rp_owner = i, rp_peer = p, rp_live = True, rp_call = RSpawned\<rparr>)
     (filter (\<lambda>p. p \<noteq> i) [0..<n])"

definition kill_goroutines :: "nat \<Rightarrow> ('c, 'b) cluster \<Rightarrow> ('c, 'b) cluster" where
  "kill_goroutines i s = s\<lparr>timeouts := (timeouts s)(i := 0), heartbeats := (heartbeats s)(i := 0),
     elections := map (\<lambda>el. if el_owner el = i then el\<lparr>el_live := False\<rparr> else el) (elections s),
     replicators := map (\<lambda>rp. if rp_owner rp = i then rp\<lparr>rp_live := False\<rparr> else rp) (replicators s)\<rparr>"

definition initial_cluster :: "nat \<Rightarrow> ('c, 'b) cluster \<Rightarrow> bool" where
  "initial_cluster n s \<longleftrightarrow> timeouts s = (\<lambda>_. 0) \<and> elections s = [] \<and> heartbeats s = (\<lambda>_. 0) \<and>
     replicators s = [] \<and> delivered s = (\<lambda>_. []) \<and> ballots s = {} \<and>
     (\<forall>i < n. \<exists>now r. raft_Make n i MakePersister now r = Some (nodes s i))"

section \<open>Steps\<close>

text \<open>
  \<open>prompt\<close> restricts the scheduler: a vote goroutine takes the lock for its request while its
  peer is still in the term of the election the goroutine belongs to. The code does not enforce it.
\<close>

inductive cstep :: "bool \<Rightarrow> nat \<Rightarrow> ('c, 'b) cluster \<Rightarrow> ('c, 'b) cluster \<Rightarrow> bool" for prompt n where
  tick: "i < n \<Longrightarrow> ticker_fires now (nodes s i) \<Longrightarrow>
    cstep prompt n s (s\<lparr>timeouts := (timeouts s)(i := timeouts s i + 1)\<rparr>)"
| start_election: "i < n \<Longrightarrow> 0 < timeouts s i \<Longrightarrow> rf' = startElection now r (nodes s i) \<Longrightarrow>
    cstep prompt n s ((set_node i rf' s)
      \<lparr>timeouts := (timeouts s)(i := timeouts s i - 1),
       elections := elections s @ [new_election i (CurrentTerm rf')]\<rparr>)"
| vote_skip: "e < length (elections s) \<Longrightarrow> el_live (elections s ! e) \<Longrightarrow> p < n \<Longrightarrow>
    vcalls (elections s ! e) p = VReady \<Longrightarrow>
    callPeer_begin Candidate build_RequestVote (nodes s (el_owner (elections s ! e))) = Some None \<Longrightarrow>
    cstep prompt n s (set_vcall e p (VDone False) s)"
| vote_send: "e < length (elections s) \<Longrightarrow> el_live (elections s ! e) \<Longrightarrow> p < n \<Longrightarrow>
    vcalls (elections s ! e) p = VReady \<Longrightarrow>
    callPeer_begin Candidate build_RequestVote (nodes s (el_owner (elections s ! e)))
      = Some (Some (args, t)) \<Longrightarrow>
    (prompt \<longrightarrow> t = el_term (elections s ! e)) \<Longrightarrow>
    cstep prompt n s (set_vcall e p (VSent args t) s)"
| vote_handle: "e < length (elections s) \<Longrightarrow> p < n \<Longrightarrow>
    vcalls (elections s ! e) p = VSent args t \<Longrightarrow>
    RequestVote now args (nodes s p) = Some (rf', reply) \<Longrightarrow>
    cstep prompt n s (set_vcall e p (VReplied t reply) (set_node p rf' s))"
| vote_finish: "e < length (elections s) \<Longrightarrow> el_live (elections s ! e) \<Longrightarrow> p < n \<Longrightarrow>
    vcalls (elections s ! e) p = VReplied t reply \<Longrightarrow> i = el_owner (elections s ! e) \<Longrightarrow>
    callPeer_finish Candidate t (\<lambda>rf v. Some (apply_RequestVote v reply rf)) (nodes s i)
      (votes (elections s ! e)) = Some (rf', v) \<Longrightarrow>
    beats = (if rf_Role (nodes s i) \<noteq> Leader \<and> rf_Role rf' = Leader
             then (heartbeats s)(i := heartbeats s i + 1) else heartbeats s) \<Longrightarrow>
    cstep prompt n s ((set_votes e v (set_vcall e p (VDone (v \<noteq> votes (elections s ! e)))
      (set_node i rf' s)))\<lparr>heartbeats := beats\<rparr>)"
| heartbeat: "i < n \<Longrightarrow> 0 < heartbeats s i \<Longrightarrow> rf_Role (nodes s i) = Leader \<Longrightarrow>
    cstep prompt n s (s\<lparr>replicators := replicators s @ new_replicators n i\<rparr>)"
| heartbeat_end: "i < n \<Longrightarrow> 0 < heartbeats s i \<Longrightarrow> rf_Role (nodes s i) \<noteq> Leader \<Longrightarrow>
    cstep prompt n s (s\<lparr>heartbeats := (heartbeats s)(i := heartbeats s i - 1)\<rparr>)"
| rep_check: "k < length (replicators s) \<Longrightarrow> rp_live (replicators s ! k) \<Longrightarrow>
    rp_call (replicators s ! k) = RSpawned \<Longrightarrow>
    needs_snapshot (rp_peer (replicators s ! k)) (nodes s (rp_owner (replicators s ! k))) = Some b \<Longrightarrow>
    cstep prompt n s (set_rcall k (if b then RInstall else RAppend) s)"
| rep_skip: "k < length (replicators s) \<Longrightarrow> rp_live (replicators s ! k) \<Longrightarrow>
    rp_call (replicators s ! k) \<in> {RAppend, RInstall} \<Longrightarrow>
    rf_Role (nodes s (rp_owner (replicators s ! k))) \<noteq> Leader \<Longrightarrow>
    cstep prompt n s (set_rcall k RDone s)"
| append_send: "k < length (replicators s) \<Longrightarrow> rp_live (replicators s ! k) \<Longrightarrow>
    rp_call (replicators s ! k) = RAppend \<Longrightarrow>
    callPeer_begin Leader (build_AppendEntries (rp_peer (replicators s ! k)))
      (nodes s (rp_owner (replicators s ! k))) = Some (Some (aargs, t)) \<Longrightarrow>
    cstep prompt n s (set_rcall k (RSentAE aargs t) s)"
| append_handle: "k < length (replicators s) \<Longrightarrow> j = rp_peer (replicators s ! k) \<Longrightarrow>
    rp_call (replicators s ! k) = RSentAE aargs t \<Longrightarrow>
    AppendEntries now aargs (nodes s j) = Some (rf', areply) \<Longrightarrow>
    cstep prompt n s (set_rcall k (RGotAE aargs t areply) (set_node j rf' s))"
| append_finish: "k < length (replicators s) \<Longrightarrow> rp_live (replicators s ! k) \<Longrightarrow>
    rp_call (replicators s ! k) = RGotAE aargs t areply \<Longrightarrow> i = rp_owner (replicators s ! k) \<Longrightarrow>
    callPeer_finish Leader t (\<lambda>rf _. map_option (\<lambda>rf'. (rf', ()))
      (apply_AppendEntries (rp_peer (replicators s ! k)) aargs areply rf)) (nodes s i) ()
      = Some (rf', u) \<Longrightarrow>
    cstep prompt n s (set_rcall k RDone (set_node i rf' s))"
| snapshot_send: "k < length (replicators s) \<Longrightarrow> rp_live (replicators s ! k) \<Longrightarrow>
    rp_call (replicators s ! k) = RInstall \<Longrightarrow>
    callPeer_begin Leader build_InstallSnapshot (nodes s (rp_owner (replicators s ! k)))
      = Some (Some (iargs, t)) \<Longrightarrow>
    cstep prompt n s (set_rcall k (RSentIS iargs t) s)"
| snapshot_handle: "k < length (replicators s) \<Longrightarrow> j = rp_peer (replicators s ! k) \<Longrightarrow>
    rp_call (replicators s ! k) = RSentIS iargs t \<Longrightarrow>
    InstallSnapshot now iargs (nodes s j) = Some (rf', ireply, msgs) \<Longrightarrow>
    cstep prompt n s (set_rcall k (RGotIS iargs t ireply) (deliver j msgs (set_node j rf' s)))"
| snapshot_finish: "k < length (replicators s) \<Longrightarrow> rp_live (replicators s ! k) \<Longrightarrow>
    rp_call (replicators s ! k) = RGotIS iargs t ireply \<Longrightarrow> i = rp_owner (replicators s ! k) \<Longrightarrow>
    callPeer_finish Leader t (\<lambda>rf _. map_option (\<lambda>rf'. (rf', ()))
      (apply_InstallSnapshot (rp_peer (replicators s ! k)) iargs ireply rf)) (nodes s i) ()
      = Some (rf', u) \<Longrightarrow>
    cstep prompt n s (set_rcall k RDone (set_node i rf' s))"
| client_start: "i < n \<Longrightarrow> raft_Start cmd (nodes s i) = (rf', idx, t, ok) \<Longrightarrow>
    cstep prompt n s (set_node i rf' s)"
| service_snapshot: "i < n \<Longrightarrow> index \<le> lastApplied (nodes s i) \<Longrightarrow>
    raft_Snapshot index snap (nodes s i) = Some rf' \<Longrightarrow>
    cstep prompt n s (set_node i rf' s)"
| apply_committed: "i < n \<Longrightarrow> 0 < commit (nodes s i) \<Longrightarrow> applyCommand (nodes s i) = Some (rf', msgs) \<Longrightarrow>
    cstep prompt n s (deliver i msgs (set_node i rf' s))"
| restart: "i < n \<Longrightarrow> raft_Make n i (persister (nodes s i)) now r = Some rf' \<Longrightarrow>
    cstep prompt n s (kill_goroutines i (set_node i rf' s))"

inductive reachable_cluster :: "bool \<Rightarrow> nat \<Rightarrow> ('c, 'b) cluster \<Rightarrow> bool" for prompt n where
  init: "initial_cluster n s \<Longrightarrow> reachable_cluster prompt n s"
| step: "reachable_cluster prompt n s \<Longrightarrow> cstep prompt n s s' \<Longrightarrow> reachable_cluster prompt n s'"

end
