(* ===== verification/RaftVoting.thy ===== *)
theory RaftVoting
  imports RaftCluster
begin

text \<open>
  Voting as an interface. A voter is anything whose epoch never goes back and which, once it has
  voted in an epoch, keeps that vote while the epoch lasts; a quorum system is a family of sets any
  two of which meet. From these two contracts alone no two candidates are backed by a quorum in one
  epoch. The Raft peer, with all its critical sections and restarts from its persister, is an
  instance of the first and the majorities of a cluster are one of the second.
\<close>

section \<open>The contracts\<close>

locale voter =
  fixes epoch :: "'s \<Rightarrow> int" and choice :: "'s \<Rightarrow> int" and ok :: "'s \<Rightarrow> bool"
    and vstep :: "'s \<Rightarrow> 's \<Rightarrow> bool"
  assumes step_ok: "vstep s s' \<Longrightarrow> ok s \<Longrightarrow> ok s'"
    and epoch_mono: "vstep s s' \<Longrightarrow> ok s \<Longrightarrow> epoch s \<le> epoch s'"
    and choice_kept: "vstep s s' \<Longrightarrow> ok s \<Longrightarrow> epoch s' = epoch s \<Longrightarrow> choice s \<noteq> -1 \<Longrightarrow> choice s' = choice s"
begin

text \<open>A vote of the past: its epoch is over, or it is the present one.\<close>

definition past :: "'s \<Rightarrow> int \<Rightarrow> int \<Rightarrow> bool" where
  "past s t c \<longleftrightarrow> c \<noteq> -1 \<and> (t < epoch s \<or> t = epoch s \<and> choice s = c)"

lemma past_step: "vstep s s' \<Longrightarrow> ok s \<Longrightarrow> past s t c \<Longrightarrow> past s' t c"
  using epoch_mono [of s s'] choice_kept [of s s'] by (auto simp: past_def)

lemma past_now: "choice s \<noteq> -1 \<Longrightarrow> past s (epoch s) (choice s)"
  by (simp add: past_def)

text \<open>Along any run, two votes of one epoch are the same vote.\<close>

lemma run_ok: "vstep\<^sup>*\<^sup>* s s' \<Longrightarrow> ok s \<Longrightarrow> ok s'"
  by (induction rule: rtranclp_induct) (auto intro: step_ok)

lemma past_run: "vstep\<^sup>*\<^sup>* s s' \<Longrightarrow> ok s \<Longrightarrow> past s t c \<Longrightarrow> past s' t c"
  by (induction rule: rtranclp_induct) (auto intro: past_step run_ok)

lemma one_vote_per_epoch:
  assumes "vstep\<^sup>*\<^sup>* s s'" "ok s" "epoch s = epoch s'" "choice s \<noteq> -1"
  shows "choice s' = choice s"
  using past_run [OF assms(1,2) past_now [OF assms(4)]] assms(3) by (auto simp: past_def)

end

locale quorum_system =
  fixes quorum :: "'p set \<Rightarrow> bool"
  assumes quorums_meet: "quorum A \<Longrightarrow> quorum B \<Longrightarrow> A \<inter> B \<noteq> {}"
begin

lemma one_winner:
  assumes "quorum A" "quorum B" "\<forall>p \<in> A. V p c" "\<forall>p \<in> B. V p d"
    and "\<And>p c d. V p c \<Longrightarrow> V p d \<Longrightarrow> c = d"
  shows "c = d"
  using assms quorums_meet [OF assms(1,2)] by blast

end

definition majority :: "nat \<Rightarrow> nat set \<Rightarrow> bool" where
  "majority n Q \<longleftrightarrow> Q \<subseteq> {..<n} \<and> n div 2 < card Q"

interpretation maj: quorum_system "majority n" for n
  by unfold_locales (auto simp: majority_def elim: majorities_share)

section \<open>The steps of a peer\<close>

inductive peer_step :: "nat \<Rightarrow> nat \<Rightarrow> ('c, 'b) Raft \<Rightarrow> ('c, 'b) Raft \<Rightarrow> bool" for n i where
  pElection: "peer_step n i rf (startElection now r rf)"
| pVote: "RequestVote now args rf = Some (rf', reply) \<Longrightarrow> peer_step n i rf rf'"
| pAppend: "AppendEntries now aargs rf = Some (rf', areply) \<Longrightarrow> peer_step n i rf rf'"
| pInstall: "InstallSnapshot now iargs rf = Some (rf', ireply, msgs) \<Longrightarrow> peer_step n i rf rf'"
| pVoteReply: "callPeer_finish Candidate t (\<lambda>rf v. Some (apply_RequestVote v reply rf)) rf v = Some (rf', v') \<Longrightarrow>
    peer_step n i rf rf'"
| pAppendReply: "callPeer_finish Leader t (\<lambda>rf _. map_option (\<lambda>rf'. (rf', ()))
    (apply_AppendEntries p aargs areply rf)) rf () = Some (rf', u) \<Longrightarrow> peer_step n i rf rf'"
| pInstallReply: "callPeer_finish Leader t (\<lambda>rf _. map_option (\<lambda>rf'. (rf', ()))
    (apply_InstallSnapshot p iargs ireply rf)) rf () = Some (rf', u) \<Longrightarrow> peer_step n i rf rf'"
| pStart: "raft_Start cmd rf = (rf', idx, t, ok) \<Longrightarrow> peer_step n i rf rf'"
| pSnapshot: "raft_Snapshot index snap rf = Some rf' \<Longrightarrow> peer_step n i rf rf'"
| pApply: "applyCommand rf = Some (rf', msgs) \<Longrightarrow> peer_step n i rf rf'"
| pRestart: "raft_Make n i (persister rf) now r = Some rf' \<Longrightarrow> peer_step n i rf rf'"

definition peer_core :: "nat \<Rightarrow> nat \<Rightarrow> ('c, 'b) Raft \<Rightarrow> bool" where
  "peer_core n i rf \<longleftrightarrow> me rf = i \<and> npeers rf = n \<and> wf_log (rf_log rf) \<and> 0 \<le> snapIndex (rf_log rf) \<and> durable rf"

text \<open>Everything the voting contract says about one step, and who can be leader after it.\<close>

definition core_step :: "nat \<Rightarrow> nat \<Rightarrow> ('c, 'b) Raft \<Rightarrow> ('c, 'b) Raft \<Rightarrow> bool" where
  "core_step n i rf rf' \<longleftrightarrow> peer_core n i rf' \<and> CurrentTerm rf \<le> CurrentTerm rf' \<and>
     (CurrentTerm rf' = CurrentTerm rf \<longrightarrow> VotedFor rf \<noteq> -1 \<longrightarrow> VotedFor rf' = VotedFor rf) \<and>
     (rf_Role rf' = Leader \<longrightarrow> CurrentTerm rf' = CurrentTerm rf \<and> rf_Role rf \<noteq> Follower)"

lemma core_step_same:
  assumes "peer_core n i rf" "CurrentTerm rf' = CurrentTerm rf" "VotedFor rf' = VotedFor rf"
    "rf_log rf' = rf_log rf" "persister rf' = persister rf" "me rf' = me rf" "npeers rf' = npeers rf"
    "rf_Role rf' = Leader \<Longrightarrow> rf_Role rf \<noteq> Follower"
  shows "core_step n i rf rf'"
proof -
  have "durable rf" using assms(1) by (simp add: peer_core_def)
  then have "durable rf'" by (rule durable_cong) (use assms in simp_all)
  with assms show ?thesis by (simp add: core_step_def peer_core_def)
qed

lemma core_step_refl: "peer_core n i rf \<Longrightarrow> core_step n i rf rf"
  by (simp add: core_step_def)

lemma core_becomeFollower:
  "peer_core n i rf \<Longrightarrow> CurrentTerm rf < t \<Longrightarrow> core_step n i rf (becomeFollower t rf)"
  by (auto simp: core_step_def peer_core_def)

lemma core_AppendEntries:
  assumes "AppendEntries now args rf = Some (rf', reply)" "peer_core n i rf"
  shows "core_step n i rf rf'"
proof -
  have wfl: "wf_log (rf_log rf)" and sn: "0 \<le> snapIndex (rf_log rf)"
    using assms(2) by (auto simp: peer_core_def)
  from assms(1) wfl show ?thesis
  proof (cases rule: AppendEntries_cases)
    case (accept i l)
    note spec = merged_spec [OF wfl checkAppend_accepts(1,2) [OF wfl sn accept(2)] accept(3)
        checkAppend_accepts(3) [OF wfl sn accept(2)] accept(4)]
    from accept spec assms(2) show ?thesis by (auto simp: core_step_def peer_core_def)
  qed (use assms(2) in \<open>auto simp: core_step_def peer_core_def\<close>)
qed

lemma core_InstallSnapshot:
  assumes "InstallSnapshot now args rf = Some (rf', reply, msgs)" "peer_core n i rf"
  shows "core_step n i rf rf'"
proof -
  have wfl: "wf_log (rf_log rf)" using assms(2) by (auto simp: peer_core_def)
  from assms(1) wfl show ?thesis
  proof (cases rule: InstallSnapshot_cases)
    case (install l)
    with assms(2) wf_installSnapshot [OF wfl install(3)] installSnapshot_frame [OF wfl install(3)]
    show ?thesis by (auto simp: core_step_def peer_core_def)
  qed (use assms(2) in \<open>auto simp: core_step_def peer_core_def\<close>)
qed

lemma core_RequestVote:
  assumes "RequestVote now args rf = Some (rf', reply)" "peer_core n i rf"
  shows "core_step n i rf rf'"
proof -
  have "wf_log (rf_log rf)" using assms(2) by (auto simp: peer_core_def)
  with assms(1) show ?thesis
    by (cases rule: RequestVote_cases) (use assms(2) in \<open>auto simp: core_step_def peer_core_def split: if_splits\<close>)
qed

lemma core_apply_RequestVote:
  assumes "apply_RequestVote v reply rf = (rf', v')" "peer_core n i rf" "rf_Role rf = Candidate"
  shows "core_step n i rf rf'"
  using assms(1)
proof (cases rule: apply_RequestVote_cases)
  case newer
  with core_becomeFollower [OF assms(2)] show ?thesis by simp
qed (use assms(2,3) in \<open>auto intro!: core_step_same\<close>)

lemma core_apply_AppendEntries:
  assumes "apply_AppendEntries p args reply rf = Some rf'" "peer_core n i rf" "rf_Role rf = Leader"
  shows "core_step n i rf rf'"
  using assms(1)
proof (cases rule: apply_AppendEntries_cases)
  case newer
  with core_becomeFollower [OF assms(2)] show ?thesis by simp
next
  case (progress mi ni)
  define rf1 where "rf1 = rf\<lparr>matchIndex := mi, nextIndex := ni\<rparr>"
  have "core_step n i rf rf1"
    by (rule core_step_same) (use assms(2,3) in \<open>simp_all add: rf1_def\<close>)
  then have core: "peer_core n i rf1" by (simp add: core_step_def)
  then have "wf_log (rf_log rf1)" by (simp add: peer_core_def)
  then have "\<exists>k c. rf' = rf1\<lparr>commitIndex := k, commit := c\<rparr>"
  proof (cases rule: updateCommitIndex_cases)
    case keep
    with progress(5) have "rf' = rf1\<lparr>commitIndex := commitIndex rf1, commit := commit rf1\<rparr>"
      by (simp add: rf1_def)
    then show ?thesis by blast
  qed (use progress(5) rf1_def in auto)
  then obtain k c where "rf' = rf\<lparr>matchIndex := mi, nextIndex := ni, commitIndex := k, commit := c\<rparr>"
    by (auto simp: rf1_def)
  then show ?thesis
    by (intro core_step_same) (use assms(2,3) in simp_all)
qed (use assms(2,3) in \<open>auto intro!: core_step_same\<close>)

lemma core_apply_InstallSnapshot:
  assumes "apply_InstallSnapshot p args reply rf = Some rf'" "peer_core n i rf" "rf_Role rf = Leader"
  shows "core_step n i rf rf'"
proof -
  consider "CurrentTerm rf < isr_Term reply" "rf' = becomeFollower (isr_Term reply) rf"
    | ni mi where "rf' = rf\<lparr>nextIndex := ni, matchIndex := mi\<rparr>"
    using assms(1) by (auto simp: apply_InstallSnapshot_def bind_Some_iff split: if_splits)
  then show ?thesis
  proof cases
    case 1
    with core_becomeFollower [OF assms(2)] show ?thesis by simp
  qed (use assms(2,3) in \<open>auto intro!: core_step_same\<close>)
qed

lemma core_raft_Start:
  assumes "raft_Start cmd rf = (rf', idx, t, ok)" "peer_core n i rf"
  shows "core_step n i rf rf'"
  using assms wf_log_append [of "rf_log rf"]
  by (auto simp: raft_Start_def core_step_def peer_core_def Let_def split: if_splits)

lemma core_raft_Snapshot:
  assumes "raft_Snapshot index snap rf = Some rf'" "peer_core n i rf"
  shows "core_step n i rf rf'"
proof (cases "index \<le> snapIndex (rf_log rf)")
  case True
  with assms show ?thesis by (auto simp: raft_Snapshot_def snapshotIndex_def intro!: core_step_same)
next
  case False
  have wfl: "wf_log (rf_log rf)" using assms(2) by (simp add: peer_core_def)
  from False assms(1) obtain l where l: "snapshotAt (rf_log rf) index = Some l"
    and rf': "rf' = rf\<lparr>rf_log := l, persister := Save (encodeRaftState (rf\<lparr>rf_log := l\<rparr>)) snap (persister rf)\<rparr>"
    by (auto simp: raft_Snapshot_def snapshotIndex_def Let_def bind_Some_iff)
  have "durable rf'" by (simp add: durable_def rf' encodeRaftState_eq_iff)
  with assms(2) False rf' wf_snapshotAt [OF wfl l] snapshotAt_frame [OF wfl l] show ?thesis
    by (auto simp: core_step_def peer_core_def)
qed

lemma apply_loop_fields:
  "apply_loop j rf msgs = Some (rf', msgs') \<Longrightarrow> \<exists>a. rf' = rf\<lparr>lastApplied := a\<rparr>"
proof (induction j rf msgs rule: apply_loop.induct)
  case (1 j rf msgs)
  from "1.prems" show ?case
  proof (cases "j \<le> commitIndex rf")
    case True
    with "1.prems" obtain e where e: "log_entry (rf_log rf) j = Some e"
      by (auto simp: apply_loop.simps [of j rf] split: option.splits)
    with True "1.prems" "1.IH" [OF True e] show ?thesis
      by (auto simp: apply_loop.simps [of j rf])
  next
    case False
    with "1.prems" have "rf' = rf\<lparr>lastApplied := lastApplied rf\<rparr>"
      by (simp add: apply_loop.simps [of j rf])
    then show ?thesis by blast
  qed
qed

lemma core_applyCommand:
  assumes "applyCommand rf = Some (rf', msgs)" "peer_core n i rf"
  shows "core_step n i rf rf'"
proof -
  obtain a where "rf' = rf\<lparr>commit := commit rf - 1, lastApplied := a\<rparr>"
    using assms(1) apply_loop_fields by (fastforce simp: applyCommand_def Let_def)
  with assms(2) show ?thesis by (auto intro!: core_step_same)
qed


lemma core_restart:
  assumes "raft_Make n i (persister rf) now r = Some rf'" "peer_core n i rf"
  shows "core_step n i rf rf'"
proof -
  have "wf_log (rf_log rf)" "0 \<le> snapIndex (rf_log rf)" "durable rf"
    using assms(2) by (simp_all add: peer_core_def)
  then obtain rf1 where "raft_Make n i (persister rf) now r = Some rf1" "wf_raft rf1"
    "CurrentTerm rf1 = CurrentTerm rf" "VotedFor rf1 = VotedFor rf" "rf_Role rf1 = Follower"
    "me rf1 = i" "npeers rf1 = n"
    by (rule raft_Make_restores [where n = n and i = i and now = now and r = r]) (rule refl, blast)
  with assms(1) show ?thesis by (simp add: core_step_def peer_core_def wf_raft_def)
qed

lemma callPeer_finishE:
  assumes "callPeer_finish want t f rf v = Some (rf', v')"
  obtains (ignored) "rf' = rf" "v' = v"
  | (applied) "rf_Role rf = want" "CurrentTerm rf = t" "f rf v = Some (rf', v')"
  using assms by (auto simp: callPeer_finish_def split: if_splits)

lemma peer_core_step: "peer_step n i rf rf' \<Longrightarrow> peer_core n i rf \<Longrightarrow> core_step n i rf rf'"
proof (induction rule: peer_step.induct)
  case (pElection rf now r)
  then show ?case by (simp add: core_step_def peer_core_def)
next
  case (pVoteReply t reply rf v rf' v')
  from pVoteReply(1) show ?case
    by (cases rule: callPeer_finishE) (use pVoteReply(2) core_apply_RequestVote core_step_refl in auto)
next
  case (pAppendReply t p aargs areply rf rf' u)
  from pAppendReply(1) show ?case
    by (cases rule: callPeer_finishE) (use pAppendReply(2) core_apply_AppendEntries core_step_refl in auto)
next
  case (pInstallReply t p iargs ireply rf rf' u)
  from pInstallReply(1) show ?case
    by (cases rule: callPeer_finishE) (use pInstallReply(2) core_apply_InstallSnapshot core_step_refl in auto)
qed (auto intro: core_RequestVote core_AppendEntries core_InstallSnapshot core_raft_Start
       core_raft_Snapshot core_applyCommand core_restart)

interpretation peer: voter CurrentTerm VotedFor "peer_core n i" "peer_step n i" for n i
  using peer_core_step by unfold_locales (auto simp: core_step_def)

section \<open>Every step of the cluster is a step of at most one peer\<close>

definition peers_ok :: "nat \<Rightarrow> ('c, 'b) cluster \<Rightarrow> bool" where
  "peers_ok n s \<longleftrightarrow> (\<forall>i < n. peer_core n i (nodes s i)) \<and>
     (\<forall>j t c. (j, t, c) \<in> ballots s \<longrightarrow> j < n \<and> peer.past (nodes s j) t c) \<and>
     (\<forall>i < n. ballot_of i (nodes s i) \<subseteq> ballots s) \<and>
     (\<forall>j t c d. (j, t, c) \<in> ballots s \<longrightarrow> (j, t, d) \<in> ballots s \<longrightarrow> c = d)"

lemma set_node_simps [simp]:
  "nodes (set_node i rf s) = (nodes s)(i := rf)"
  "ballots (set_node i rf s) = ballots s \<union> ballot_of i rf"
  "elections (set_node i rf s) = elections s" "replicators (set_node i rf s) = replicators s"
  "timeouts (set_node i rf s) = timeouts s" "heartbeats (set_node i rf s) = heartbeats s"
  by (simp_all add: set_node_def)

lemma peers_ok_set_node:
  assumes "peers_ok n s" "i < n" "peer_step n i (nodes s i) rf'"
  shows "peers_ok n (set_node i rf' s)"
proof -
  have core: "peer_core n i (nodes s i)" using assms(1,2) by (simp add: peers_ok_def)
  have core': "peer_core n i rf'" by (rule peer.step_ok [OF assms(3) core])
  have past: "peer.past rf' t c" if "(i, t, c) \<in> ballots s" for t c
    using that assms(1) peer.past_step [OF assms(3) core] by (auto simp: peers_ok_def)
  have now: "c = d" if "(i, t, c) \<in> ballots s" "(i, t, d) \<in> ballot_of i rf'" for t c d
    using past [OF that(1)] that(2) by (auto simp: ballot_of_def peer.past_def split: if_splits)
  have self: "j = i \<and> peer.past rf' t c" if "(j, t, c) \<in> ballot_of i rf'" for j t c
    using that by (auto simp: ballot_of_def peer.past_def split: if_splits)
  have fn: "c = d" if "(j, t, c) \<in> ballots s \<union> ballot_of i rf'" "(j, t, d) \<in> ballots s \<union> ballot_of i rf'"
    for j t c d
    using that assms(1) now self unfolding peers_ok_def
    by (auto simp: ballot_of_def split: if_splits)
  have "\<forall>k < n. peer_core n k (((nodes s)(i := rf')) k)"
    using assms(1) core' by (simp add: peers_ok_def)
  moreover have "\<forall>j t c. (j, t, c) \<in> ballots s \<union> ballot_of i rf' \<longrightarrow>
      j < n \<and> peer.past (((nodes s)(i := rf')) j) t c"
    using assms(1,2) past self by (auto simp: peers_ok_def)
  moreover have "\<forall>k < n. ballot_of k (((nodes s)(i := rf')) k) \<subseteq> ballots s \<union> ballot_of i rf'"
    using assms(1) by (auto simp: peers_ok_def)
  ultimately show ?thesis unfolding peers_ok_def set_node_simps using fn by blast
qed

lemma peers_ok_cong:
  "peers_ok n s \<Longrightarrow> nodes s' = nodes s \<Longrightarrow> ballots s' = ballots s \<Longrightarrow> peers_ok n s'"
  by (simp add: peers_ok_def)

end
