(* ===== verification/RaftElection.thy ===== *)
theory RaftElection
  imports RaftVoting
begin

text \<open>
  Election safety of the cluster. The invariant follows the votes from the voter's record of them
  through the reply to the counter \<open>votes\<close> of the election that counts them.
\<close>

section \<open>Frame facts\<close>

lemma cluster_frames [simp]:
  "nodes (set_vcall e p vc s) = nodes s" "ballots (set_vcall e p vc s) = ballots s"
  "replicators (set_vcall e p vc s) = replicators s"
  "nodes (set_votes e v s) = nodes s" "ballots (set_votes e v s) = ballots s"
  "replicators (set_votes e v s) = replicators s"
  "nodes (set_rcall k rc s) = nodes s" "ballots (set_rcall k rc s) = ballots s"
  "elections (set_rcall k rc s) = elections s"
  "nodes (deliver i ms s) = nodes s" "ballots (deliver i ms s) = ballots s"
  "elections (deliver i ms s) = elections s" "replicators (deliver i ms s) = replicators s"
  "nodes (kill_goroutines i s) = nodes s" "ballots (kill_goroutines i s) = ballots s"
  by (simp_all add: set_vcall_def set_votes_def set_rcall_def deliver_def kill_goroutines_def)

text \<open>Goroutines belong to peers of the cluster.\<close>

definition goroutines_ok :: "nat \<Rightarrow> ('c, 'b) cluster \<Rightarrow> bool" where
  "goroutines_ok n s \<longleftrightarrow> (\<forall>e < length (elections s). el_owner (elections s ! e) < n) \<and>
     (\<forall>k < length (replicators s). rp_owner (replicators s ! k) < n \<and> rp_peer (replicators s ! k) < n \<and>
        rp_peer (replicators s ! k) \<noteq> rp_owner (replicators s ! k))"

lemma update_own_field: "f (g (xs ! k)) = f (xs ! k) \<Longrightarrow> f (xs[k := g (xs ! k)] ! j) = f (xs ! j)"
  by (cases "j = k"; cases "k < length xs") (auto simp: list_update_beyond)

lemma goroutine_fields [simp]:
  "length (elections (set_vcall e p vc s)) = length (elections s)"
  "length (elections (set_votes e v s)) = length (elections s)"
  "length (replicators (set_rcall k rc s)) = length (replicators s)"
  "el_owner (elections (set_vcall e p vc s) ! e') = el_owner (elections s ! e')"
  "el_term (elections (set_vcall e p vc s) ! e') = el_term (elections s ! e')"
  "votes (elections (set_vcall e p vc s) ! e') = votes (elections s ! e')"
  "el_owner (elections (set_votes e v s) ! e') = el_owner (elections s ! e')"
  "el_term (elections (set_votes e v s) ! e') = el_term (elections s ! e')"
  "vcalls (elections (set_votes e v s) ! e') = vcalls (elections s ! e')"
  "rp_owner (replicators (set_rcall k rc s) ! k') = rp_owner (replicators s ! k')"
  "rp_peer (replicators (set_rcall k rc s) ! k') = rp_peer (replicators s ! k')"
  by (simp_all add: set_vcall_def set_votes_def set_rcall_def update_own_field)

lemma goroutines_ok_upds [simp]:
  "goroutines_ok n (set_vcall e p vc s) = goroutines_ok n s"
  "goroutines_ok n (set_votes e v s) = goroutines_ok n s"
  "goroutines_ok n (set_rcall k rc s) = goroutines_ok n s"
  "goroutines_ok n (set_node i rf s) = goroutines_ok n s"
  "goroutines_ok n (deliver i ms s) = goroutines_ok n s"
  "goroutines_ok n (kill_goroutines i s) = goroutines_ok n s"
  "goroutines_ok n (s\<lparr>timeouts := ts\<rparr>) = goroutines_ok n s"
  "goroutines_ok n (s\<lparr>heartbeats := hs\<rparr>) = goroutines_ok n s"
  by (auto simp: goroutines_ok_def kill_goroutines_def)

lemma goroutines_ok_step: "cstep prompt n s s' \<Longrightarrow> goroutines_ok n s \<Longrightarrow> goroutines_ok n s'"
proof (induction rule: cstep.induct)
  case (start_election i s rf' now r)
  then show ?case by (auto simp: goroutines_ok_def new_election_def nth_append less_Suc_eq)
next
  case (heartbeat i s)
  have "\<forall>rp \<in> set (replicators s @ new_replicators n i).
      rp_owner rp < n \<and> rp_peer rp < n \<and> rp_peer rp \<noteq> rp_owner rp"
    using heartbeat(1,4) by (auto simp: goroutines_ok_def new_replicators_def in_set_conv_nth)
  with heartbeat(4) show ?case
    unfolding goroutines_ok_def all_set_conv_all_nth by (simp del: length_append)
qed simp_all

lemma goroutines_okD:
  assumes "goroutines_ok n s"
  shows "e < length (elections s) \<Longrightarrow> el_owner (elections s ! e) < n"
    "k < length (replicators s) \<Longrightarrow> rp_owner (replicators s ! k) < n"
    "k < length (replicators s) \<Longrightarrow> rp_peer (replicators s ! k) < n"
  using assms by (auto simp: goroutines_ok_def)

text \<open>What a step does to the peers: nothing, or one critical section of one of them.\<close>

lemma cstep_peers:
  assumes "cstep prompt n s s'" "goroutines_ok n s"
  obtains (idle) "nodes s' = nodes s" "ballots s' = ballots s"
  | (peer) i rf' where "i < n" "peer_step n i (nodes s i) rf'" "nodes s' = (nodes s)(i := rf')"
      "ballots s' = ballots s \<union> ballot_of i rf'"
proof -
  have "(nodes s' = nodes s \<and> ballots s' = ballots s) \<or>
    (\<exists>i rf'. i < n \<and> peer_step n i (nodes s i) rf' \<and> nodes s' = (nodes s)(i := rf') \<and>
      ballots s' = ballots s \<union> ballot_of i rf')"
    using assms
  proof (induction rule: cstep.induct)
    case (start_election i s rf' now r)
    with peer_step.pElection [of n i "nodes s i" now r] show ?case by auto
  next
    case (vote_handle e s p args t now rf' reply)
    with peer_step.pVote [of now args "nodes s p" rf' reply n p] show ?case by auto
  next
    case (vote_finish e s p t reply i rf' v beats)
    with peer_step.pVoteReply [of t reply "nodes s i" _ rf' v n i] goroutines_okD(1) [of n s e]
    show ?case by auto
  next
    case (append_handle k s j aargs t now rf' areply)
    with peer_step.pAppend [of now aargs "nodes s j" rf' areply n j] goroutines_okD(3) [of n s k]
    show ?case by auto
  next
    case (append_finish k s aargs t areply i rf' u)
    with peer_step.pAppendReply [of t "rp_peer (replicators s ! k)" aargs areply "nodes s i" rf' u n i]
      goroutines_okD(2) [of n s k]
    show ?case by auto
  next
    case (snapshot_handle k s j iargs t now rf' ireply msgs)
    with peer_step.pInstall [of now iargs "nodes s j" rf' ireply msgs n j] goroutines_okD(3) [of n s k]
    show ?case by auto
  next
    case (snapshot_finish k s iargs t ireply i rf' u)
    with peer_step.pInstallReply [of t "rp_peer (replicators s ! k)" iargs ireply "nodes s i" rf' u n i]
      goroutines_okD(2) [of n s k]
    show ?case by auto
  next
    case (client_start i cmd s rf' idx t ok)
    with peer_step.pStart [of cmd "nodes s i" rf' idx t ok n i] show ?case by auto
  next
    case (service_snapshot i index s snap rf')
    with peer_step.pSnapshot [of index snap "nodes s i" rf' n i] show ?case by auto
  next
    case (apply_committed i s rf' msgs)
    with peer_step.pApply [of "nodes s i" rf' msgs n i] show ?case by auto
  next
    case (restart i s now r rf')
    with peer_step.pRestart [of n i "nodes s i" now r rf'] show ?case by auto
  qed simp_all
  then show ?thesis using idle peer by blast
qed

lemma peers_ok_step:
  assumes "cstep prompt n s s'" "goroutines_ok n s" "peers_ok n s"
  shows "peers_ok n s'"
  using assms(1,2)
proof (cases rule: cstep_peers)
  case (peer i rf')
  have "peers_ok n (set_node i rf' s)" by (rule peers_ok_set_node [OF assms(3) peer(1,2)])
  then show ?thesis by (rule peers_ok_cong) (simp_all add: peer)
qed (rule peers_ok_cong [OF assms(3)])


section \<open>Counting votes\<close>

text \<open>Every vote call carries the term of its election, and a grant on its way is a ballot cast.\<close>

fun vcall_ok :: "(nat \<times> int \<times> int) set \<Rightarrow> election \<Rightarrow> nat \<Rightarrow> vote_call \<Rightarrow> bool" where
  "vcall_ok B el p VReady = True"
| "vcall_ok B el p (VSent args t) \<longleftrightarrow> t = el_term el \<and> rva_Term args = t \<and> rva_CandidateID args = int (el_owner el)"
| "vcall_ok B el p (VReplied t reply) \<longleftrightarrow> t = el_term el \<and>
     (rvr_VoteGranted reply \<longrightarrow> (p, el_term el, int (el_owner el)) \<in> B)"
| "vcall_ok B el p (VDone c) \<longleftrightarrow> (c \<longrightarrow> (p, el_term el, int (el_owner el)) \<in> B)"

definition counted :: "nat \<Rightarrow> election \<Rightarrow> nat set" where
  "counted n el = {p. p < n \<and> vcalls el p = VDone True}"

definition election_ok :: "nat \<Rightarrow> (nat \<times> int \<times> int) set \<Rightarrow> election \<Rightarrow> bool" where
  "election_ok n B el \<longleftrightarrow> (el_owner el, el_term el, int (el_owner el)) \<in> B \<and>
     vcalls el (el_owner el) = VDone False \<and> votes el = Suc (card (counted n el)) \<and>
     (\<forall>p < n. vcall_ok B el p (vcalls el p))"

definition elections_ok :: "nat \<Rightarrow> ('c, 'b) cluster \<Rightarrow> bool" where
  "elections_ok n s \<longleftrightarrow> (\<forall>e < length (elections s). election_ok n (ballots s) (elections s ! e))"

lemma vcall_ok_mono: "vcall_ok B el p vc \<Longrightarrow> B \<subseteq> C \<Longrightarrow> vcall_ok C el p vc"
  by (cases vc) auto

lemma election_ok_mono: "election_ok n B el \<Longrightarrow> B \<subseteq> C \<Longrightarrow> election_ok n C el"
  unfolding election_ok_def using vcall_ok_mono by blast

lemma vcall_ok_cong:
  "el_owner el' = el_owner el \<Longrightarrow> el_term el' = el_term el \<Longrightarrow> vcall_ok B el' p vc = vcall_ok B el p vc"
  by (cases vc) auto

lemma finite_counted [simp]: "finite (counted n el)"
  by (simp add: counted_def)

lemma election_ok_call:
  assumes "election_ok n B el" "p < n" "\<And>c. vcalls el p \<noteq> VDone c"
    and "vcall_ok B el p vc" "el' = el\<lparr>vcalls := (vcalls el)(p := vc), votes := v\<rparr>"
    and "v = (if vc = VDone True then Suc (votes el) else votes el)"
  shows "election_ok n B el'"
proof -
  have "counted n el' = (if vc = VDone True then insert p (counted n el) else counted n el)"
    using assms(2,3,5) by (auto simp: counted_def)
  moreover have "p \<notin> counted n el" using assms(3) by (simp add: counted_def)
  moreover have "p \<noteq> el_owner el" using assms(1,3) by (auto simp: election_ok_def)
  moreover have "vcall_ok B el' q (vcalls el' q)" if "q < n" for q
    using that assms(1,4,5) vcall_ok_cong [of el' el] by (auto simp: election_ok_def)
  ultimately show ?thesis using assms(1,5,6) by (auto simp: election_ok_def)
qed

lemma election_ok_counted:
  assumes "election_ok n B el" "q \<in> counted n el"
  shows "(q, el_term el, int (el_owner el)) \<in> B"
proof -
  have q: "q < n" "vcalls el q = VDone True" using assms(2) by (simp_all add: counted_def)
  have "vcall_ok B el q (vcalls el q)" using assms(1) q(1) unfolding election_ok_def by blast
  with q(2) show ?thesis by simp
qed

lemma elections_ok_update:
  assumes "elections_ok n s" "e < length (elections s)" "ballots s \<subseteq> ballots s'"
    and "elections s' = (elections s)[e := el']" "election_ok n (ballots s') el'"
  shows "elections_ok n s'"
  using assms election_ok_mono by (auto simp: elections_ok_def nth_list_update)

lemma elections_ok_same:
  "elections_ok n s \<Longrightarrow> ballots s \<subseteq> ballots s' \<Longrightarrow> elections s' = elections s \<Longrightarrow> elections_ok n s'"
  using election_ok_mono by (auto simp: elections_ok_def)

lemma election_ok_kill: "election_ok n B (el\<lparr>el_live := b\<rparr>) = election_ok n B el"
  by (simp add: election_ok_def counted_def vcall_ok_cong [of "el\<lparr>el_live := b\<rparr>" el])

lemma callPeer_beginE:
  assumes "callPeer_begin want build rf = Some (Some (args, t))"
  shows "rf_Role rf = want" "build rf = Some args" "t = CurrentTerm rf"
  using assms by (auto simp: callPeer_begin_def bind_Some_iff split: if_splits)

lemma build_RequestVote_fields:
  "build_RequestVote rf = Some args \<Longrightarrow> rva_Term args = CurrentTerm rf \<and> rva_CandidateID args = int (me rf)"
  by (auto simp: build_RequestVote_def bind_Some_iff)

lemma RequestVote_ballot:
  assumes "RequestVote now args rf = Some (rf', reply)" "wf_log (rf_log rf)" "rvr_VoteGranted reply"
  shows "CurrentTerm rf' = rva_Term args" "VotedFor rf' = rva_CandidateID args"
  using assms(1,2) by (cases rule: RequestVote_cases; use assms(3) in \<open>simp add: zero_rvr_def\<close>)+


text \<open>How \<open>votes\<close> and the call's outcome go together when the reply is applied.\<close>

lemma vote_finish_cases:
  assumes "callPeer_finish Candidate t (\<lambda>rf v. Some (apply_RequestVote v reply rf)) rf v = Some (rf', v')"
  obtains (uncounted) "v' = v" "rf_Role rf' = Leader \<Longrightarrow> rf_Role rf = Leader \<and> CurrentTerm rf' = CurrentTerm rf"
  | (count) "v' = Suc v" "rvr_VoteGranted reply" "CurrentTerm rf = t" "CurrentTerm rf' = t"
      "rf_Role rf' = Leader \<Longrightarrow> npeers rf div 2 < Suc v"
  using assms
proof (cases rule: callPeer_finishE)
  case ignored
  then show ?thesis using uncounted by simp
next
  case applied
  from applied(3) have "apply_RequestVote v reply rf = (rf', v')" by simp
  then show ?thesis
  proof (cases rule: apply_RequestVote_cases)
    case newer
    show ?thesis by (rule uncounted) (simp_all add: newer)
  next
    case win
    show ?thesis by (rule count) (use win applied in simp_all)
  next
    case counted
    show ?thesis by (rule count) (use counted applied in simp_all)
  next
    case refused
    show ?thesis by (rule uncounted) (simp_all add: refused)
  qed
qed

lemma vote_finish_election:
  assumes "election_ok n B el" "p < n" "vcalls el p = VReplied t reply"
    and "callPeer_finish Candidate t (\<lambda>rf v. Some (apply_RequestVote v reply rf)) rf (votes el) = Some (rf', v)"
  shows "election_ok n B (el\<lparr>vcalls := (vcalls el)(p := VDone (v \<noteq> votes el)), votes := v\<rparr>)"
proof -
  have call: "vcall_ok B el p (VReplied t reply)"
    using assms(1-3) by (metis election_ok_def)
  have "vcall_ok B el p (VDone (v \<noteq> votes el)) \<and>
      v = (if VDone (v \<noteq> votes el) = VDone True then Suc (votes el) else votes el)"
    using assms(4) by (cases rule: vote_finish_cases) (use call in auto)
  then show ?thesis
    by (intro election_ok_call [OF assms(1,2) _ _ refl]) (use assms(3) in auto)
qed

text \<open>A peer that becomes leader has counted more than half, and each counted vote is a ballot.\<close>

lemma vote_finish_leader:
  assumes "election_ok n B el" "p < n" "vcalls el p = VReplied t reply" "i = el_owner el" "i < n"
    and "callPeer_finish Candidate t (\<lambda>rf v. Some (apply_RequestVote v reply rf)) rf (votes el) = Some (rf', v)"
    and "rf_Role rf' = Leader"
  shows "rf_Role rf = Leader \<and> CurrentTerm rf' = CurrentTerm rf \<or>
    (\<exists>Q \<subseteq> {..<n}. npeers rf div 2 < card Q \<and> (\<forall>q \<in> Q. (q, CurrentTerm rf', int i) \<in> B))"
  using assms(6)
proof (cases rule: vote_finish_cases)
  case count
  have call: "vcall_ok B el p (VReplied t reply)"
    using assms(1-3) by (metis election_ok_def)
  define Q where "Q = insert i (insert p (counted n el))"
  have "p \<notin> counted n el" "i \<notin> counted n el" "i \<noteq> p"
    using assms(1,3,4) by (auto simp: counted_def election_ok_def)
  then have "card Q = Suc (votes el)" using assms(1) by (simp add: Q_def election_ok_def)
  moreover have "Q \<subseteq> {..<n}" using assms(2,5) by (auto simp: Q_def counted_def)
  moreover have "(q, CurrentTerm rf', int i) \<in> B" if "q \<in> Q" for q
    using that call count assms(1,4) election_ok_counted [OF assms(1), of q]
    by (auto simp: Q_def election_ok_def)
  moreover have "npeers rf div 2 < Suc (votes el)" using count(5) assms(7) by simp
  ultimately show ?thesis by auto
qed (use assms(7) in simp)

lemma elections_ok_vote_send:
  assumes "elections_ok n s" "e < length (elections s)" "p < n" "vcalls (elections s ! e) p = VReady"
    and "vcall_ok (ballots s) (elections s ! e) p vc" "\<And>c. vc \<noteq> VDone True"
  shows "elections_ok n (set_vcall e p vc s)"
proof -
  have "election_ok n (ballots s) (elections s ! e)" using assms(1,2) by (simp add: elections_ok_def)
  then have "election_ok n (ballots s) ((elections s ! e)\<lparr>vcalls := (vcalls (elections s ! e))(p := vc),
      votes := votes (elections s ! e)\<rparr>)"
    by (rule election_ok_call [OF _ assms(3) _ assms(5) refl]) (use assms(4,6) in simp_all)
  then show ?thesis
    by (intro elections_ok_update [OF assms(1,2)]) (simp_all add: set_vcall_def)
qed

lemma elections_ok_vote_handle:
  assumes "elections_ok n s" "peers_ok n s" "e < length (elections s)" "p < n"
    "vcalls (elections s ! e) p = VSent args t" "RequestVote now args (nodes s p) = Some (rf', reply)"
  shows "elections_ok n (set_vcall e p (VReplied t reply) (set_node p rf' s))"
proof -
  let ?el = "elections s ! e" and ?B = "ballots s \<union> ballot_of p rf'"
  have ok: "election_ok n ?B ?el"
    using assms(1,3) by (auto simp: elections_ok_def intro: election_ok_mono)
  then have call: "t = el_term ?el" "rva_Term args = t" "rva_CandidateID args = int (el_owner ?el)"
    using assms(4,5) by (metis election_ok_def vcall_ok.simps(2))+
  have wfl: "wf_log (rf_log (nodes s p))" using assms(2,4) by (simp add: peers_ok_def peer_core_def)
  have replied: "vcall_ok ?B ?el p (VReplied t reply)"
    using RequestVote_ballot [OF assms(6) wfl] call by (auto simp: ballot_of_def)
  have "election_ok n ?B (?el\<lparr>vcalls := (vcalls ?el)(p := VReplied t reply), votes := votes ?el\<rparr>)"
    by (rule election_ok_call [OF ok assms(4) _ replied refl]) (use assms(5) in simp_all)
  then show ?thesis
    by (intro elections_ok_update [OF assms(1,3)]) (simp_all add: set_vcall_def)
qed

lemma elections_ok_step:
  assumes "cstep True n s s'" "peers_ok n s" "goroutines_ok n s" "elections_ok n s"
  shows "elections_ok n s'"
  using assms
proof (induction rule: cstep.induct)
  case (start_election i s rf' now r)
  have "me (nodes s i) = i" using start_election by (simp add: peers_ok_def peer_core_def)
  with start_election(3) have "(i, CurrentTerm rf', int i) \<in> ballot_of i rf'" by (simp add: ballot_of_def)
  then have "election_ok n (ballots s \<union> ballot_of i rf') (new_election i (CurrentTerm rf'))"
    by (auto simp: election_ok_def new_election_def counted_def)
  with start_election(6) election_ok_mono show ?case
    by (auto simp: elections_ok_def nth_append less_Suc_eq)
next
  case (vote_skip e s p)
  then show ?case by (intro elections_ok_vote_send) simp_all
next
  case (vote_send e s p args t)
  let ?o = "el_owner (elections s ! e)"
  have "?o < n" using goroutines_okD(1) vote_send by blast
  then have "me (nodes s ?o) = ?o" using vote_send by (simp add: peers_ok_def peer_core_def)
  with callPeer_beginE [OF vote_send(5)] build_RequestVote_fields [of "nodes s ?o" args] vote_send(6)
  show ?case by (intro elections_ok_vote_send vote_send) simp_all
next
  case (vote_handle e s p args t now rf' reply)
  then show ?case by (intro elections_ok_vote_handle) simp_all
next
  case (vote_finish e s p t reply i rf' v beats)
  have "election_ok n (ballots s) (elections s ! e)" using vote_finish(1,10) by (simp add: elections_ok_def)
  note new = vote_finish_election [OF this vote_finish(3,4,6)]
  show ?case
    by (rule elections_ok_update [OF vote_finish(10,1) _ _ election_ok_mono [OF new]])
       (use vote_finish(1) in \<open>simp_all add: set_votes_def set_vcall_def\<close>)
next
  case (restart i s now r rf')
  then show ?case
    by (auto simp: elections_ok_def kill_goroutines_def election_ok_kill intro: election_ok_mono)
qed (erule elections_ok_same; auto; fail)+


section \<open>Leaders are backed by a majority of ballots\<close>

definition backed :: "nat \<Rightarrow> (nat \<times> int \<times> int) set \<Rightarrow> int \<Rightarrow> nat \<Rightarrow> bool" where
  "backed n B t i \<longleftrightarrow> (\<exists>Q. majority n Q \<and> (\<forall>p \<in> Q. (p, t, int i) \<in> B))"

definition leaders_ok :: "nat \<Rightarrow> ('c, 'b) cluster \<Rightarrow> bool" where
  "leaders_ok n s \<longleftrightarrow> (\<forall>i < n. rf_Role (nodes s i) = Leader \<longrightarrow> backed n (ballots s) (CurrentTerm (nodes s i)) i)"

lemma backed_mono: "backed n B t i \<Longrightarrow> B \<subseteq> C \<Longrightarrow> backed n C t i"
  unfolding backed_def by blast

lemma leaders_ok_update:
  assumes "leaders_ok n s" "nodes s' = (nodes s)(i := rf')" "ballots s \<subseteq> ballots s'"
    and "i < n \<Longrightarrow> rf_Role rf' = Leader \<Longrightarrow> backed n (ballots s) (CurrentTerm rf') i"
  shows "leaders_ok n s'"
  using assms unfolding leaders_ok_def by (auto intro: backed_mono)

text \<open>All critical sections but the vote callback leave the role \<open>Leader\<close> only where it was.\<close>

definition no_new_leader :: "('c, 'b) Raft \<Rightarrow> ('c, 'b) Raft \<Rightarrow> bool" where
  "no_new_leader rf rf' \<longleftrightarrow> (rf_Role rf' = Leader \<longrightarrow> rf_Role rf = Leader \<and> CurrentTerm rf' = CurrentTerm rf)"

lemma no_new_leaderI:
  "core_step n i rf rf' \<Longrightarrow> (rf_Role rf' = Leader \<Longrightarrow> rf_Role rf = Leader) \<Longrightarrow> no_new_leader rf rf'"
  by (simp add: no_new_leader_def core_step_def)

lemma RequestVote_no_new_leader:
  assumes "RequestVote now args rf = Some (rf', reply)" "wf_log (rf_log rf)"
  shows "no_new_leader rf rf'"
  using assms by (cases rule: RequestVote_cases) (auto simp: no_new_leader_def split: if_splits)

lemma AppendEntries_no_new_leader:
  assumes "AppendEntries now args rf = Some (rf', reply)" "wf_log (rf_log rf)"
  shows "no_new_leader rf rf'"
  using assms by (cases rule: AppendEntries_cases) (simp_all add: no_new_leader_def)

lemma InstallSnapshot_no_new_leader:
  assumes "InstallSnapshot now args rf = Some (rf', reply, msgs)" "wf_log (rf_log rf)"
  shows "no_new_leader rf rf'"
  using assms by (cases rule: InstallSnapshot_cases) (simp_all add: no_new_leader_def)

lemma service_no_new_leader:
  shows "raft_Start cmd rf = (rf', idx, t, ok) \<Longrightarrow> no_new_leader rf rf'"
    "raft_Snapshot index snap rf = Some rf' \<Longrightarrow> no_new_leader rf rf'"
    "applyCommand rf = Some (rf', msgs) \<Longrightarrow> no_new_leader rf rf'"
  using apply_loop_fields
  by (fastforce simp: raft_Start_def raft_Snapshot_def applyCommand_def no_new_leader_def Let_def
      bind_Some_iff split: if_splits)+

lemma leaders_ok_set_node:
  assumes "leaders_ok n s" "nodes s' = (nodes s)(i := rf')" "ballots s' = ballots s \<union> ballot_of i rf'"
    and "no_new_leader (nodes s i) rf'"
  shows "leaders_ok n s'"
  using assms by (intro leaders_ok_update [OF assms(1,2)]) (auto simp: leaders_ok_def no_new_leader_def)

lemma restart_role: "raft_Make n i ps now r = Some rf' \<Longrightarrow> rf_Role rf' = Follower"
  by (auto simp: raft_Make_def readPersist_def resetElectionTimeout_def bind_Some_iff Let_def
      case_prod_unfold split: if_splits)

lemma leader_reply_no_new_leader:
  assumes "callPeer_finish Leader t f rf v = Some (rf', v')" "core_step n i rf rf'"
  shows "no_new_leader rf rf'"
  using assms(1) by (cases rule: callPeer_finishE) (use assms(2) in \<open>auto simp: no_new_leader_def core_step_def\<close>)

lemma leaders_ok_step:
  assumes "cstep True n s s'" "peers_ok n s" "goroutines_ok n s" "elections_ok n s" "leaders_ok n s"
  shows "leaders_ok n s'"
  using assms
proof (induction rule: cstep.induct)
  case (start_election i s rf' now r)
  then show ?case
    by (intro leaders_ok_set_node [OF start_election(7), where i = i and rf' = rf'])
       (simp_all add: no_new_leader_def)
next
  case (vote_handle e s p args t now rf' reply)
  then have "wf_log (rf_log (nodes s p))" by (simp add: peers_ok_def peer_core_def)
  from RequestVote_no_new_leader [OF vote_handle(4) this] show ?case
    by (intro leaders_ok_set_node [OF vote_handle(8)]) simp_all
next
  case (vote_finish e s p t reply i rf' v beats)
  have i: "i < n" using vote_finish(1,5,9) goroutines_okD(1) by blast
  then have np: "npeers (nodes s i) = n" using vote_finish(8) by (simp add: peers_ok_def peer_core_def)
  show ?case
  proof (rule leaders_ok_update [OF vote_finish(11)])
    assume leader: "rf_Role rf' = Leader"
    have "election_ok n (ballots s) (elections s ! e)" using vote_finish(1,10) by (simp add: elections_ok_def)
    from vote_finish_leader [OF this vote_finish(3-5) i vote_finish(6) leader] np
    consider "rf_Role (nodes s i) = Leader" "CurrentTerm rf' = CurrentTerm (nodes s i)"
      | Q where "Q \<subseteq> {..<n}" "n div 2 < card Q" "\<forall>q \<in> Q. (q, CurrentTerm rf', int i) \<in> ballots s"
      by auto
    then show "backed n (ballots s) (CurrentTerm rf') i"
    proof cases
      case 1
      with vote_finish(11) i show ?thesis by (auto simp: leaders_ok_def)
    next
      case 2
      with i have "majority n Q" by (auto simp: majority_def)
      with 2 show ?thesis by (auto simp: backed_def)
    qed
  qed (auto simp: set_votes_def set_vcall_def)
next
  case (append_handle k s j aargs t now rf' areply)
  then have "wf_log (rf_log (nodes s j))" using goroutines_okD(3) by (auto simp: peers_ok_def peer_core_def)
  from AppendEntries_no_new_leader [OF append_handle(4) this] show ?case
    by (intro leaders_ok_set_node [OF append_handle(8)]) simp_all
next
  case (append_finish k s aargs t areply i rf' u)
  have "i < n" using append_finish(1,4,7) goroutines_okD(2) by blast
  then have "peer_core n i (nodes s i)" using append_finish(6) by (simp add: peers_ok_def)
  from peer_core_step [OF peer_step.pAppendReply [OF append_finish(5)] this]
  have "no_new_leader (nodes s i) rf'" by (rule leader_reply_no_new_leader [OF append_finish(5)])
  then show ?case by (intro leaders_ok_set_node [OF append_finish(9)]) simp_all
next
  case (snapshot_handle k s j iargs t now rf' ireply msgs)
  then have "wf_log (rf_log (nodes s j))" using goroutines_okD(3) by (auto simp: peers_ok_def peer_core_def)
  from InstallSnapshot_no_new_leader [OF snapshot_handle(4) this] show ?case
    by (intro leaders_ok_set_node [OF snapshot_handle(8)]) simp_all
next
  case (snapshot_finish k s iargs t ireply i rf' u)
  have "i < n" using snapshot_finish(1,4,7) goroutines_okD(2) by blast
  then have "peer_core n i (nodes s i)" using snapshot_finish(6) by (simp add: peers_ok_def)
  from peer_core_step [OF peer_step.pInstallReply [OF snapshot_finish(5)] this]
  have "no_new_leader (nodes s i) rf'" by (rule leader_reply_no_new_leader [OF snapshot_finish(5)])
  then show ?case by (intro leaders_ok_set_node [OF snapshot_finish(9)]) simp_all
next
  case (client_start i cmd s rf' idx t ok)
  from service_no_new_leader(1) [OF client_start(2)] show ?case
    by (intro leaders_ok_set_node [OF client_start(6)]) simp_all
next
  case (service_snapshot i index s snap rf')
  from service_no_new_leader(2) [OF service_snapshot(3)] show ?case
    by (intro leaders_ok_set_node [OF service_snapshot(7)]) simp_all
next
  case (apply_committed i s rf' msgs)
  from service_no_new_leader(3) [OF apply_committed(3)] show ?case
    by (intro leaders_ok_set_node [OF apply_committed(7)]) simp_all
next
  case (restart i s now r rf')
  then have core: "peer_core n i (nodes s i)" by (simp add: peers_ok_def)
  have "rf_Role rf' = Follower" by (rule restart_role [OF restart(2)])
  then show ?case
    by (intro leaders_ok_set_node [OF restart(6), where i = i and rf' = rf'])
       (simp_all add: no_new_leader_def)
qed (simp_all add: leaders_ok_def)


section \<open>The invariant of reachable clusters\<close>

lemma initial_ok:
  assumes "initial_cluster n s"
  shows "peers_ok n s" "goroutines_ok n s" "elections_ok n s" "leaders_ok n s"
proof -
  have made: "peer_core n i (nodes s i) \<and> rf_Role (nodes s i) = Follower \<and> VotedFor (nodes s i) = -1"
    if i: "i < n" for i
  proof -
    obtain now r where "raft_Make n i MakePersister now r = Some (nodes s i)"
      using assms i by (auto simp: initial_cluster_def)
    then have "nodes s i = \<lparr>me = i, npeers = n, CurrentTerm = 0, VotedFor = -1, rf_Role = Follower,
        rf_log = newRaftLog, commitIndex = 0, lastApplied = 0, nextIndex = [], matchIndex = [],
        lastReset = now, electionTimeout = 300 + r, persister = MakePersister, commit = 0\<rparr>"
      by (simp add: raft_Make_def readPersist_def resetElectionTimeout_def)
    then show ?thesis using wf_newRaftLog by (simp add: peer_core_def durable_def newRaftLog_def)
  qed
  with assms show "peers_ok n s" "goroutines_ok n s" "elections_ok n s" "leaders_ok n s"
    by (auto simp: peers_ok_def goroutines_ok_def elections_ok_def leaders_ok_def initial_cluster_def
        ballot_of_def)
qed

lemma reachable_ok:
  assumes "reachable_cluster prompt n s"
  shows "peers_ok n s \<and> goroutines_ok n s"
  using assms by induction (auto simp: initial_ok intro: peers_ok_step goroutines_ok_step)

lemma reachable_elections_ok:
  assumes "reachable_cluster True n s"
  shows "elections_ok n s \<and> leaders_ok n s"
  using assms
proof induction
  case (step s s')
  with reachable_ok [OF step(1)] show ?case using elections_ok_step leaders_ok_step by blast
qed (simp add: initial_ok)

lemma backed_unique:
  assumes "peers_ok n s" "backed n (ballots s) t i" "backed n (ballots s) t j"
  shows "i = j"
proof -
  obtain A B where "majority n A" "majority n B" "\<forall>p \<in> A. (p, t, int i) \<in> ballots s"
    "\<forall>p \<in> B. (p, t, int j) \<in> ballots s"
    using assms(2,3) by (auto simp: backed_def)
  then have "int i = int j"
    using assms(1) maj.one_winner [of n A B "\<lambda>p c. (p, t, c) \<in> ballots s" "int i" "int j"]
    unfolding peers_ok_def by blast
  then show ?thesis by simp
qed

end
