(* ===== verification/RaftSched.thy ===== *)
theory RaftSched
  imports RaftElection
begin

text \<open>
  An executable scheduler for the cluster. An action names the goroutine that moves and what the
  environment chooses (clock readings, random timeouts, commands, snapshots); \<open>exec\<close> runs it when
  it is enabled. Every run of the scheduler is a run of the step relation, so concrete schedules
  can be evaluated.
\<close>

datatype ('c, 'b) action =
    Tick nat int
  | StartElection nat int int
  | VoteSkip nat nat
  | VoteSend nat nat
  | VoteHandle nat nat int
  | VoteFinish nat nat
  | Heartbeat nat
  | HeartbeatEnd nat
  | RepCheck nat
  | RepSkip nat
  | AppendSend nat
  | AppendHandle nat int
  | AppendFinish nat
  | SnapshotSend nat
  | SnapshotHandle nat int
  | SnapshotFinish nat
  | ClientStart nat 'c
  | ServiceSnapshot nat int "'b list"
  | ApplyCommitted nat
  | Restart nat int int

fun exec :: "bool \<Rightarrow> nat \<Rightarrow> ('c, 'b) action \<Rightarrow> ('c, 'b) cluster \<Rightarrow> ('c, 'b) cluster option" where
  "exec prompt n (Tick i now) s =
     (if i < n \<and> ticker_fires now (nodes s i)
      then Some (s\<lparr>timeouts := (timeouts s)(i := timeouts s i + 1)\<rparr>) else None)"
| "exec prompt n (StartElection i now r) s =
     (if i < n \<and> 0 < timeouts s i
      then let rf' = startElection now r (nodes s i) in
        Some ((set_node i rf' s)\<lparr>timeouts := (timeouts s)(i := timeouts s i - 1),
          elections := elections s @ [new_election i (CurrentTerm rf')]\<rparr>)
      else None)"
| "exec prompt n (VoteSkip e p) s =
     (if e < length (elections s) \<and> el_live (elections s ! e) \<and> p < n \<and>
         vcalls (elections s ! e) p = VReady
      then case callPeer_begin Candidate build_RequestVote (nodes s (el_owner (elections s ! e))) of
          Some None \<Rightarrow> Some (set_vcall e p (VDone False) s) | _ \<Rightarrow> None
      else None)"
| "exec prompt n (VoteSend e p) s =
     (if e < length (elections s) \<and> el_live (elections s ! e) \<and> p < n \<and>
         vcalls (elections s ! e) p = VReady
      then case callPeer_begin Candidate build_RequestVote (nodes s (el_owner (elections s ! e))) of
          Some (Some (args, t)) \<Rightarrow>
            if prompt \<longrightarrow> t = el_term (elections s ! e) then Some (set_vcall e p (VSent args t) s) else None
        | _ \<Rightarrow> None
      else None)"
| "exec prompt n (VoteHandle e p now) s =
     (if e < length (elections s) \<and> p < n
      then case vcalls (elections s ! e) p of
          VSent args t \<Rightarrow> do {
            (rf', reply) \<leftarrow> RequestVote now args (nodes s p);
            Some (set_vcall e p (VReplied t reply) (set_node p rf' s))
          }
        | _ \<Rightarrow> None
      else None)"
| "exec prompt n (VoteFinish e p) s =
     (if e < length (elections s) \<and> el_live (elections s ! e) \<and> p < n
      then case vcalls (elections s ! e) p of
          VReplied t reply \<Rightarrow> (let i = el_owner (elections s ! e) in do {
            (rf', v) \<leftarrow> callPeer_finish Candidate t (\<lambda>rf v. Some (apply_RequestVote v reply rf))
                          (nodes s i) (votes (elections s ! e));
            Some ((set_votes e v (set_vcall e p (VDone (v \<noteq> votes (elections s ! e))) (set_node i rf' s)))
              \<lparr>heartbeats := (if rf_Role (nodes s i) \<noteq> Leader \<and> rf_Role rf' = Leader
                 then (heartbeats s)(i := heartbeats s i + 1) else heartbeats s)\<rparr>)
          })
        | _ \<Rightarrow> None
      else None)"
| "exec prompt n (Heartbeat i) s =
     (if i < n \<and> 0 < heartbeats s i \<and> rf_Role (nodes s i) = Leader
      then Some (s\<lparr>replicators := replicators s @ new_replicators n i\<rparr>) else None)"
| "exec prompt n (HeartbeatEnd i) s =
     (if i < n \<and> 0 < heartbeats s i \<and> rf_Role (nodes s i) \<noteq> Leader
      then Some (s\<lparr>heartbeats := (heartbeats s)(i := heartbeats s i - 1)\<rparr>) else None)"
| "exec prompt n (RepCheck k) s =
     (if k < length (replicators s) \<and> rp_live (replicators s ! k)
      then case rp_call (replicators s ! k) of
          RSpawned \<Rightarrow> do {
            b \<leftarrow> needs_snapshot (rp_peer (replicators s ! k)) (nodes s (rp_owner (replicators s ! k)));
            Some (set_rcall k (if b then RInstall else RAppend) s)
          }
        | _ \<Rightarrow> None
      else None)"
| "exec prompt n (RepSkip k) s =
     (if k < length (replicators s) \<and> rp_live (replicators s ! k) \<and>
         rf_Role (nodes s (rp_owner (replicators s ! k))) \<noteq> Leader
      then case rp_call (replicators s ! k) of
          RAppend \<Rightarrow> Some (set_rcall k RDone s) | RInstall \<Rightarrow> Some (set_rcall k RDone s) | _ \<Rightarrow> None
      else None)"
| "exec prompt n (AppendSend k) s =
     (if k < length (replicators s) \<and> rp_live (replicators s ! k)
      then case rp_call (replicators s ! k) of
          RAppend \<Rightarrow>
            (case callPeer_begin Leader (build_AppendEntries (rp_peer (replicators s ! k)))
                    (nodes s (rp_owner (replicators s ! k))) of
               Some (Some (args, t)) \<Rightarrow> Some (set_rcall k (RSentAE args t) s) | _ \<Rightarrow> None)
        | _ \<Rightarrow> None
      else None)"
| "exec prompt n (AppendHandle k now) s =
     (if k < length (replicators s)
      then case rp_call (replicators s ! k) of
          RSentAE args t \<Rightarrow> do {
            (rf', reply) \<leftarrow> AppendEntries now args (nodes s (rp_peer (replicators s ! k)));
            Some (set_rcall k (RGotAE args t reply) (set_node (rp_peer (replicators s ! k)) rf' s))
          }
        | _ \<Rightarrow> None
      else None)"
| "exec prompt n (AppendFinish k) s =
     (if k < length (replicators s) \<and> rp_live (replicators s ! k)
      then case rp_call (replicators s ! k) of
          RGotAE args t reply \<Rightarrow> do {
            (rf', u) \<leftarrow> callPeer_finish Leader t (\<lambda>rf _. map_option (\<lambda>rf'. (rf', ()))
                (apply_AppendEntries (rp_peer (replicators s ! k)) args reply rf))
                (nodes s (rp_owner (replicators s ! k))) ();
            Some (set_rcall k RDone (set_node (rp_owner (replicators s ! k)) rf' s))
          }
        | _ \<Rightarrow> None
      else None)"
| "exec prompt n (SnapshotSend k) s =
     (if k < length (replicators s) \<and> rp_live (replicators s ! k)
      then case rp_call (replicators s ! k) of
          RInstall \<Rightarrow>
            (case callPeer_begin Leader build_InstallSnapshot (nodes s (rp_owner (replicators s ! k))) of
               Some (Some (args, t)) \<Rightarrow> Some (set_rcall k (RSentIS args t) s) | _ \<Rightarrow> None)
        | _ \<Rightarrow> None
      else None)"
| "exec prompt n (SnapshotHandle k now) s =
     (if k < length (replicators s)
      then case rp_call (replicators s ! k) of
          RSentIS args t \<Rightarrow> do {
            (rf', reply, msgs) \<leftarrow> InstallSnapshot now args (nodes s (rp_peer (replicators s ! k)));
            Some (set_rcall k (RGotIS args t reply) (deliver (rp_peer (replicators s ! k)) msgs
              (set_node (rp_peer (replicators s ! k)) rf' s)))
          }
        | _ \<Rightarrow> None
      else None)"
| "exec prompt n (SnapshotFinish k) s =
     (if k < length (replicators s) \<and> rp_live (replicators s ! k)
      then case rp_call (replicators s ! k) of
          RGotIS args t reply \<Rightarrow> do {
            (rf', u) \<leftarrow> callPeer_finish Leader t (\<lambda>rf _. map_option (\<lambda>rf'. (rf', ()))
                (apply_InstallSnapshot (rp_peer (replicators s ! k)) args reply rf))
                (nodes s (rp_owner (replicators s ! k))) ();
            Some (set_rcall k RDone (set_node (rp_owner (replicators s ! k)) rf' s))
          }
        | _ \<Rightarrow> None
      else None)"
| "exec prompt n (ClientStart i cmd) s =
     (if i < n then Some (set_node i (fst (raft_Start cmd (nodes s i))) s) else None)"
| "exec prompt n (ServiceSnapshot i index snap) s =
     (if i < n \<and> index \<le> lastApplied (nodes s i)
      then do { rf' \<leftarrow> raft_Snapshot index snap (nodes s i); Some (set_node i rf' s) } else None)"
| "exec prompt n (ApplyCommitted i) s =
     (if i < n \<and> 0 < commit (nodes s i)
      then do { (rf', msgs) \<leftarrow> applyCommand (nodes s i); Some (deliver i msgs (set_node i rf' s)) }
      else None)"
| "exec prompt n (Restart i now r) s =
     (if i < n
      then do { rf' \<leftarrow> raft_Make n i (persister (nodes s i)) now r;
                Some (kill_goroutines i (set_node i rf' s)) }
      else None)"

fun exec_all :: "bool \<Rightarrow> nat \<Rightarrow> ('c, 'b) action list \<Rightarrow> ('c, 'b) cluster \<Rightarrow> ('c, 'b) cluster option" where
  "exec_all prompt n [] s = Some s"
| "exec_all prompt n (a # as) s = do { s' \<leftarrow> exec prompt n a s; exec_all prompt n as s' }"

definition boot_cluster :: "nat \<Rightarrow> ('c, 'b) cluster" where
  "boot_cluster n = \<lparr>nodes = (\<lambda>i. the (raft_Make n i MakePersister 0 0)), timeouts = (\<lambda>_. 0),
     elections = [], heartbeats = (\<lambda>_. 0), replicators = [], delivered = (\<lambda>_. []), ballots = {}\<rparr>"

section \<open>Scheduled runs are runs\<close>

lemma exec_sound:
  assumes "exec prompt n a s = Some s'"
  shows "cstep prompt n s s'"
proof (cases a)
  case (Tick i now)
  with assms cstep.tick [of i n now s prompt] show ?thesis by (simp split: if_splits)
next
  case (StartElection i now r)
  with assms cstep.start_election [of i n s _ now r prompt] show ?thesis by (simp add: Let_def split: if_splits)
next
  case (VoteFinish e p)
  let ?i = "el_owner (elections s ! e)"
  from assms VoteFinish obtain t reply where
    g: "e < length (elections s)" "el_live (elections s ! e)" "p < n" "vcalls (elections s ! e) p = VReplied t reply"
    by (auto split: if_splits vote_call.splits)
  with assms VoteFinish obtain rf' v where
    fin: "callPeer_finish Candidate t (\<lambda>rf v. Some (apply_RequestVote v reply rf)) (nodes s ?i)
       (votes (elections s ! e)) = Some (rf', v)"
    by (auto simp: Let_def bind_Some_iff)
  have "s' = (set_votes e v (set_vcall e p (VDone (v \<noteq> votes (elections s ! e))) (set_node ?i rf' s)))
       \<lparr>heartbeats := (if rf_Role (nodes s ?i) \<noteq> Leader \<and> rf_Role rf' = Leader
          then (heartbeats s)(?i := heartbeats s ?i + 1) else heartbeats s)\<rparr>"
    using assms VoteFinish g fin by (simp add: Let_def)
  then show ?thesis using cstep.vote_finish [OF g refl fin refl, of prompt] by simp
next
  case (HeartbeatEnd i)
  with assms cstep.heartbeat_end [of i n s prompt] show ?thesis by (simp split: if_splits)
next
  case (RepCheck k)
  from assms RepCheck have g: "k < length (replicators s)" "rp_live (replicators s ! k)"
    "rp_call (replicators s ! k) = RSpawned" by (auto split: if_splits rep_call.splits)
  with assms RepCheck obtain b where
    b: "needs_snapshot (rp_peer (replicators s ! k)) (nodes s (rp_owner (replicators s ! k))) = Some b"
    by (auto simp: bind_Some_iff)
  from cstep.rep_check [OF g b, of prompt n] assms RepCheck g b show ?thesis by simp
next
  case (ClientStart i cmd)
  with assms cstep.client_start [of i n cmd s _ _ _ _ prompt] show ?thesis
    by (metis exec.simps(17) option.distinct(1) option.inject prod.collapse)
qed (use assms in \<open>auto simp: bind_Some_iff intro: cstep.intros
       split: if_splits vote_call.splits rep_call.splits option.splits\<close>)

lemma exec_all_reachable:
  "exec_all prompt n as s = Some s' \<Longrightarrow> reachable_cluster prompt n s \<Longrightarrow> reachable_cluster prompt n s'"
proof (induction as arbitrary: s)
  case (Cons a as)
  then obtain s1 where s1: "exec prompt n a s = Some s1" "exec_all prompt n as s1 = Some s'"
    by (auto simp: bind_Some_iff)
  from Cons.prems(2) exec_sound [OF s1(1)] have "reachable_cluster prompt n s1"
    by (rule reachable_cluster.step)
  with s1(2) show ?case by (rule Cons.IH)
qed simp

lemma boot_reachable: "reachable_cluster prompt n (boot_cluster n)"
proof (rule reachable_cluster.init)
  have "raft_Make n i MakePersister 0 0 = Some (the (raft_Make n i MakePersister 0 0))" for i
    by (simp add: raft_Make_def readPersist_def)
  then show "initial_cluster n (boot_cluster n)"
    unfolding initial_cluster_def boot_cluster_def by (auto simp del: option.collapse)
qed

text \<open>A schedule together with what is looked at in its final state.\<close>

lemma scheduled:
  assumes "map_option f (exec_all prompt n as (boot_cluster n)) = Some x"
  obtains s where "reachable_cluster prompt n s" "f s = x"
proof -
  from assms obtain s where "exec_all prompt n as (boot_cluster n) = Some s" "f s = x" by auto
  then show ?thesis using that exec_all_reachable [OF _ boot_reachable] by blast
qed

section \<open>Schedules\<close>

text \<open>Peer \<open>i\<close> asks peer \<open>p\<close> for its vote in election \<open>e\<close> and the reply comes back.\<close>

definition ask_vote :: "nat \<Rightarrow> nat \<Rightarrow> ('c, 'b) action list" where
  "ask_vote e p = [VoteSend e p, VoteHandle e p 0, VoteFinish e p]"

definition campaign :: "nat \<Rightarrow> int \<Rightarrow> ('c, 'b) action list" where
  "campaign i now = [Tick i now, StartElection i now 0]"

text \<open>
  Five peers. Peer 0 starts an election in term 1, gets peer 1's vote, and times out; the goroutine
  for peer 2 only now takes the lock. It asks for a vote in term 2 and adds it to the votes of
  term 1. Peer 3 wins term 2 with the votes of 4 and 1.
\<close>

definition split_brain :: "(unit, unit) action list" where
  "split_brain = campaign 0 300 @ ask_vote 0 1 @ campaign 0 600 @ ask_vote 0 2 @
     campaign 3 300 @ campaign 3 600 @ ask_vote 3 4 @ ask_vote 3 1"

definition leadership :: "nat list \<Rightarrow> ('c, 'b) cluster \<Rightarrow> (bool \<times> int) list" where
  "leadership is s = map (\<lambda>i. (rf_Role (nodes s i) = Leader, CurrentTerm (nodes s i))) is"

lemma split_brain_run:
  "map_option (leadership [0, 3]) (exec_all False 5 split_brain (boot_cluster 5)) = Some [(True, 2), (True, 2)]"
  by code_simp

end
