(* ===== verification/RaftProps.thy ===== *)
theory RaftProps
  imports RaftSched
begin

text \<open>
  The properties of the Raft implementation, each with a run or a state where it applies. The
  lemmas they rest on are in the component theories.
\<close>

section \<open>Concrete states for the witnesses\<close>

definition fresh_peer :: "nat \<Rightarrow> nat \<Rightarrow> (string, nat) Raft" where
  "fresh_peer n i = the (raft_Make n i MakePersister 0 0)"

definition two_entries :: "string AppendEntriesArgs" where
  "two_entries = \<lparr>aea_Term = 1, aea_LeaderID = 0, aea_PrevLogIndex = 0, aea_PrevLogTerm = 0,
     aea_Entries = [\<lparr>Term = 1, Command = Some ''a''\<rparr>, \<lparr>Term = 1, Command = Some ''b''\<rparr>],
     aea_LeaderCommit = 1\<rparr>"

lemma fresh_peer_unfold: "fresh_peer n i = \<lparr>me = i, npeers = n, CurrentTerm = 0, VotedFor = -1,
    rf_Role = Follower, rf_log = newRaftLog, commitIndex = 0, lastApplied = 0, nextIndex = [],
    matchIndex = [], lastReset = 0, electionTimeout = 300, persister = MakePersister, commit = 0\<rparr>"
  by (simp add: fresh_peer_def raft_Make_def readPersist_def resetElectionTimeout_def)

lemma wf_fresh_peer: "wf_raft (fresh_peer n i)" "peer_core n i (fresh_peer n i)" "commit_in_log (fresh_peer n i)"
  by (simp_all add: fresh_peer_unfold wf_raft_def peer_core_def durable_def wf_newRaftLog commit_in_log_def)
     (simp_all add: newRaftLog_def log_len_def)

section \<open>Elections\<close>

text \<open>
  C2. Election safety. In every reachable state of a cluster whose vote goroutines build their
  requests within the term of their election, at most one peer is leader of a term. The cluster
  crashes, restarts, loses, delays and reorders as it likes.
\<close>

theorem election_safety:
  assumes "reachable_cluster True n s" "i < n" "j < n"
    and "rf_Role (nodes s i) = Leader" "rf_Role (nodes s j) = Leader"
    and "CurrentTerm (nodes s i) = CurrentTerm (nodes s j)"
  shows "i = j"
proof -
  have "leaders_ok n s" "peers_ok n s"
    using reachable_elections_ok [OF assms(1)] reachable_ok [OF assms(1)] by simp_all
  with assms(2-6) show ?thesis
    by (intro backed_unique [of n s "CurrentTerm (nodes s i)"]) (auto simp: leaders_ok_def)
qed

definition one_leader :: "(string, nat) action list" where
  "one_leader = campaign 0 300 @ ask_vote 0 1"

lemma one_leader_run: "map_option (leadership [0]) (exec_all True 3 one_leader (boot_cluster 3)) = Some [(True, 1)]"
  by code_simp

theorem election_safety_witness:
  "\<exists>s :: (string, nat) cluster. reachable_cluster True 3 s \<and>
     {j. j < 3 \<and> rf_Role (nodes s j) = Leader \<and> CurrentTerm (nodes s j) = 1} = {0}"
proof -
  obtain s :: "(string, nat) cluster" where s: "reachable_cluster True 3 s" "leadership [0] s = [(True, 1)]"
    using one_leader_run by (rule scheduled)
  then have "rf_Role (nodes s 0) = Leader" "CurrentTerm (nodes s 0) = 1" by (simp_all add: leadership_def)
  with s(1) election_safety [OF s(1), of 0] show ?thesis by (intro exI [of _ s]) auto
qed

text \<open>
  C20. The restriction is needed. A vote goroutine of an old election that takes the lock after its
  peer has started the next one asks for a vote in the new term and counts it with the votes of
  the old term: five peers reach a state with two leaders in one term.
\<close>

theorem stale_vote_goroutine_splits_brain:
  "\<exists>s :: (unit, unit) cluster. reachable_cluster False 5 s \<and>
     rf_Role (nodes s 0) = Leader \<and> rf_Role (nodes s 3) = Leader \<and>
     CurrentTerm (nodes s 0) = CurrentTerm (nodes s 3)"
proof -
  obtain s :: "(unit, unit) cluster" where "reachable_cluster False 5 s"
    "leadership [0, 3] s = [(True, 2), (True, 2)]"
    using split_brain_run by (rule scheduled)
  then show ?thesis by (intro exI [of _ s]) (simp add: leadership_def)
qed

text \<open>
  A peer votes for at most one candidate per term, whatever critical sections it runs and
  however often it crashes and restarts from its persister in between.
\<close>

theorem one_vote_per_term:
  assumes "(peer_step n i)\<^sup>*\<^sup>* rf rf'" "peer_core n i rf"
    and "CurrentTerm rf = CurrentTerm rf'" "VotedFor rf \<noteq> -1"
  shows "VotedFor rf' = VotedFor rf"
  by (rule peer.one_vote_per_epoch [OF assms])

definition voted_peer :: "(string, nat) Raft" where
  "voted_peer = startElection 300 0 (fresh_peer 3 1)"

theorem one_vote_per_term_witness:
  "\<exists>rf'. (peer_step 3 1)\<^sup>*\<^sup>* voted_peer rf' \<and> rf_Role rf' = Follower \<and> VotedFor rf' = 1"
proof -
  have core: "peer_core 3 1 voted_peer"
    using peer.step_ok [OF peer_step.pElection wf_fresh_peer(2)] by (simp add: voted_peer_def)
  then have "wf_log (rf_log voted_peer)" "0 \<le> snapIndex (rf_log voted_peer)" "durable voted_peer"
    by (simp_all add: peer_core_def)
  then obtain rf' where rf': "raft_Make 3 1 (persister voted_peer) 0 0 = Some rf'"
    "CurrentTerm rf' = CurrentTerm voted_peer" "rf_Role rf' = Follower"
    by (rule raft_Make_restores [where n = 3 and i = 1 and now = 0 and r = 0]) (rule refl, blast)
  then have run: "(peer_step 3 1)\<^sup>*\<^sup>* voted_peer rf'" by (blast intro: peer_step.pRestart)
  have "VotedFor voted_peer = 1" by (simp add: voted_peer_def fresh_peer_unfold)
  with one_vote_per_term [OF run core] rf' run show ?thesis by auto
qed

text \<open>
  RequestVote grants exactly when the peer has not given its vote of that term to another
  candidate and the candidate's log is at least as up to date as its own (last term, then last
  index); a granted vote is on stable storage before the reply leaves.
\<close>

theorem RequestVote_grants:
  assumes "wf_raft rf" "CurrentTerm rf \<le> rva_Term args"
  shows "\<exists>rf' reply. RequestVote now args rf = Some (rf', reply) \<and> rvr_Term reply = rva_Term args \<and>
    (rvr_VoteGranted reply \<longleftrightarrow>
       (CurrentTerm rf < rva_Term args \<or> VotedFor rf \<in> {-1, rva_CandidateID args}) \<and>
       last_pos (rf_log rf) \<le> LogPos (rva_LastLogTerm args) (rva_LastLogIndex args)) \<and>
    (rvr_VoteGranted reply \<longrightarrow> VotedFor rf' = rva_CandidateID args) \<and>
    ReadRaftState (persister rf') = encodeRaftState rf' \<and> wf_raft rf'"
proof -
  have wfl: "wf_log (rf_log rf)" using assms(1) by (simp add: wf_raft_def)
  obtain rf' reply where rv: "RequestVote now args rf = Some (rf', reply)"
    using RequestVote_total [OF wfl] by blast
  have "ReadRaftState (persister rf') = encodeRaftState rf'"
    using rv assms(2) by (auto simp: RequestVote_def Let_def bind_Some_iff encodeRaftState_eq_iff)
  with rv wfl show ?thesis
    by (cases rule: RequestVote_cases)
       (use assms rv wf_RequestVote(1) [OF rv assms(1)] in \<open>auto split: if_splits\<close>)
qed

theorem RequestVote_grants_witness:
  "\<exists>rf' reply. RequestVote 5 \<lparr>rva_Term = 1, rva_CandidateID = 2, rva_LastLogIndex = 0, rva_LastLogTerm = 0\<rparr>
     (fresh_peer 3 1) = Some (rf', reply) \<and> rvr_VoteGranted reply \<and> VotedFor rf' = 2"
  using RequestVote_grants [OF wf_fresh_peer(1), of 3 1
      "\<lparr>rva_Term = 1, rva_CandidateID = 2, rva_LastLogIndex = 0, rva_LastLogTerm = 0\<rparr>" 5]
  by (auto simp: fresh_peer_unfold last_pos_def newRaftLog_def less_eq_log_pos_def lastIndex_def log_len_def)


section \<open>Handlers\<close>

text \<open>
  C23. No request crashes a peer: in every reachable state, under any scheduling, all three RPC
  handlers return for arbitrary arguments, even arguments no correct leader or candidate sends.
\<close>

theorem handlers_never_panic:
  assumes "reachable_cluster prompt n s" "i < n"
  shows "RequestVote now vargs (nodes s i) \<noteq> None \<and> AppendEntries now aargs (nodes s i) \<noteq> None \<and>
    InstallSnapshot now iargs (nodes s i) \<noteq> None"
proof -
  have "peers_ok n s" using reachable_ok [OF assms(1)] by simp
  then have "wf_log (rf_log (nodes s i))" "0 \<le> snapIndex (rf_log (nodes s i))"
    using assms(2) by (simp_all add: peers_ok_def peer_core_def)
  then show ?thesis using RequestVote_total AppendEntries_total InstallSnapshot_total by blast
qed

theorem handlers_never_panic_witness:
  "AppendEntries 7 (two_entries\<lparr>aea_PrevLogIndex := -5\<rparr>) (nodes (boot_cluster 3) 1) \<noteq> None"
proof -
  have "(1 :: nat) < 3" by simp
  from handlers_never_panic [OF boot_reachable [of True 3] this] show ?thesis by blast
qed

text \<open>
  AppendEntries with a matching previous entry succeeds: afterwards the follower holds the
  leader's terms at the leader's indices, and it has dropped or replaced an entry only behind a
  real conflict, so a delayed, shorter request never shortens the log.
\<close>

theorem AppendEntries_replicates:
  assumes "wf_raft rf" "CurrentTerm rf \<le> aea_Term args"
    and "term_at (rf_log rf) (aea_PrevLogIndex args) = Some (aea_PrevLogTerm args)"
  shows "\<exists>rf' reply. AppendEntries now args rf = Some (rf', reply) \<and> aer_Success reply \<and>
    CurrentTerm rf' = aea_Term args \<and> rf_Role rf' = Follower \<and> durable rf' \<and>
    (\<forall>k < length (aea_Entries args).
       term_at (rf_log rf') (aea_PrevLogIndex args + 1 + int k) = Some (Term (aea_Entries args ! k))) \<and>
    (\<forall>j. log_entry (rf_log rf') j \<noteq> log_entry (rf_log rf) j \<longrightarrow>
       (\<exists>k < length (aea_Entries args). aea_PrevLogIndex args + 1 + int k \<le> j \<and>
          term_at (rf_log rf) (aea_PrevLogIndex args + 1 + int k) \<noteq> Some (Term (aea_Entries args ! k))))"
proof -
  have wfl: "wf_log (rf_log rf)" and sn: "0 \<le> snapIndex (rf_log rf)" and d: "durable rf"
    using assms(1) by (simp_all add: wf_raft_def)
  obtain rf' reply where ae: "AppendEntries now args rf = Some (rf', reply)"
    using AppendEntries_total [OF wfl sn] by blast
  from ae wfl show ?thesis
  proof (cases rule: AppendEntries_cases)
    case stale
    with assms(2) show ?thesis by simp
  next
    case (reject i c)
    with checkAppend_match [OF wfl assms(3)] show ?thesis by (metis option.inject prod.inject)
  next
    case (accept m l)
    note acc = checkAppend_accepts [OF wfl sn accept(2)]
    note spec = merged_spec [OF wfl acc(1,2) accept(3) acc(3) accept(4)]
    have success: "aer_Success reply" using accept(14) by simp
    show ?thesis
      using ae success accept(5-7,13) d AppendEntries_installs_terms [OF ae success wfl sn]
        spec(4) acc(4) [OF assms(3)] by fastforce
  qed
qed

theorem AppendEntries_replicates_witness:
  "\<exists>rf' reply. AppendEntries 5 two_entries (fresh_peer 3 1) = Some (rf', reply) \<and> aer_Success reply \<and>
     term_at (rf_log rf') 2 = Some 1"
proof -
  have "wf_raft (fresh_peer 3 1)" by (rule wf_fresh_peer)
  moreover have "CurrentTerm (fresh_peer 3 1) \<le> aea_Term two_entries"
    "term_at (rf_log (fresh_peer 3 1)) (aea_PrevLogIndex two_entries) = Some (aea_PrevLogTerm two_entries)"
    by (simp_all add: fresh_peer_unfold two_entries_def newRaftLog_def term_at_def log_entry_def go_index_def)
  ultimately obtain rf' reply where r: "AppendEntries 5 two_entries (fresh_peer 3 1) = Some (rf', reply)"
    "aer_Success reply" "\<forall>k < length (aea_Entries two_entries).
       term_at (rf_log rf') (aea_PrevLogIndex two_entries + 1 + int k) = Some (Term (aea_Entries two_entries ! k))"
    using AppendEntries_replicates by blast
  from r(3) have "term_at (rf_log rf') 2 = Some 1"
    by (auto simp: two_entries_def dest: spec [of _ 1])
  with r show ?thesis by blast
qed

text \<open>
  AppendEntries that does not fit is refused without touching log, commit index or vote of the
  term: an old term is answered with the newer one, and a previous entry the follower does not hold
  is answered with its log length or with the conflicting term and the first index it knows of it.
\<close>

theorem AppendEntries_rejects:
  assumes "wf_raft rf" "aea_Term args < CurrentTerm rf \<or>
     term_at (rf_log rf) (aea_PrevLogIndex args) \<noteq> Some (aea_PrevLogTerm args) \<and> 0 < aea_PrevLogIndex args"
  shows "\<exists>rf' reply. AppendEntries now args rf = Some (rf', reply) \<and> \<not> aer_Success reply \<and>
    rf_log rf' = rf_log rf \<and> commitIndex rf' = commitIndex rf \<and> aer_Term reply = CurrentTerm rf' \<and>
    CurrentTerm rf' = max (CurrentTerm rf) (aea_Term args) \<and> wf_raft rf' \<and>
    (CurrentTerm rf \<le> aea_Term args \<longrightarrow>
      (case term_at (rf_log rf) (aea_PrevLogIndex args) of
         None \<Rightarrow> aer_XLen reply = log_len (rf_log rf)
       | Some s \<Rightarrow> aer_XTerm reply = s \<and> aer_XIndex reply \<le> aea_PrevLogIndex args \<and>
           (\<forall>j. aer_XIndex reply \<le> j \<and> j \<le> aea_PrevLogIndex args \<longrightarrow> term_at (rf_log rf) j = Some s)))"
proof -
  have wfl: "wf_log (rf_log rf)" and sn: "0 \<le> snapIndex (rf_log rf)" and d: "durable rf"
    using assms(1) by (simp_all add: wf_raft_def)
  obtain rf' reply where ae: "AppendEntries now args rf = Some (rf', reply)"
    using AppendEntries_total [OF wfl sn] by blast
  from ae wfl show ?thesis
  proof (cases rule: AppendEntries_cases)
    case stale
    with ae assms(1) show ?thesis by (auto simp: zero_aer_def)
  next
    case (reject i c)
    have wf': "wf_raft rf'" using assms(1) d reject(4) by (simp add: wf_raft_def)
    from wfl reject(2,3) show ?thesis
    proof (cases rule: checkAppend_conflictE)
      case window
      with ae reject wf' show ?thesis by auto
    next
      case (differs s xi)
      then have "aer_XTerm reply = s" "aer_XIndex reply = xi" using reject(5) by simp_all
      with ae reject(1,4,5) wf' differs show ?thesis by auto
    qed
  next
    case (accept m l)
    from checkAppend_successD [OF wfl sn accept(2)] assms(2) accept(1) show ?thesis by auto
  qed
qed

theorem AppendEntries_rejects_witness:
  "\<exists>rf' reply. AppendEntries 5 (two_entries\<lparr>aea_PrevLogIndex := 4\<rparr>) (fresh_peer 3 1) = Some (rf', reply) \<and>
     \<not> aer_Success reply \<and> aer_XLen reply = 1 \<and> rf_log rf' = newRaftLog"
proof -
  have out: "term_at (rf_log (fresh_peer 3 1)) (aea_PrevLogIndex (two_entries\<lparr>aea_PrevLogIndex := 4\<rparr>)) = None"
    by (simp add: fresh_peer_unfold newRaftLog_def term_at_def log_entry_def go_index_def)
  then have pre: "aea_Term (two_entries\<lparr>aea_PrevLogIndex := 4\<rparr>) < CurrentTerm (fresh_peer 3 1) \<or>
     term_at (rf_log (fresh_peer 3 1)) (aea_PrevLogIndex (two_entries\<lparr>aea_PrevLogIndex := 4\<rparr>))
       \<noteq> Some (aea_PrevLogTerm (two_entries\<lparr>aea_PrevLogIndex := 4\<rparr>)) \<and>
     0 < aea_PrevLogIndex (two_entries\<lparr>aea_PrevLogIndex := 4\<rparr>)" by simp
  from AppendEntries_rejects [OF wf_fresh_peer(1) pre, of 5] out show ?thesis
    by (auto simp: fresh_peer_unfold two_entries_def newRaftLog_def log_len_def)
qed


text \<open>
  InstallSnapshot of a newer snapshot makes the log start there. It keeps the entries behind
  the snapshot exactly when the follower held the snapshot's last entry with the same term, stores
  the snapshot with the matching Raft state, and hands it to the service; an older snapshot
  changes nothing but term, role and timer.
\<close>

theorem InstallSnapshot_installs:
  assumes "wf_raft rf" "CurrentTerm rf \<le> isa_Term args"
  shows "\<exists>rf' reply msgs. InstallSnapshot now args rf = Some (rf', reply, msgs) \<and> wf_raft rf' \<and>
    CurrentTerm rf' = isa_Term args \<and> isr_Term reply = isa_Term args \<and>
    snapIndex (rf_log rf') = max (snapIndex (rf_log rf)) (isa_LastIncludedIndex args) \<and>
    (if isa_LastIncludedIndex args \<le> snapIndex (rf_log rf) then rf_log rf' = rf_log rf \<and> msgs = []
     else term_at (rf_log rf') (isa_LastIncludedIndex args) = Some (isa_LastIncludedTerm args) \<and>
       (\<forall>j > isa_LastIncludedIndex args. log_entry (rf_log rf') j =
          (if term_at (rf_log rf) (isa_LastIncludedIndex args) = Some (isa_LastIncludedTerm args)
           then log_entry (rf_log rf) j else None)) \<and>
       ReadSnapshot (persister rf') = isa_Data args \<and>
       isa_LastIncludedIndex args \<le> lastApplied rf' \<and>
       map am_Snapshot msgs = [Some (isa_Data args)])"
proof -
  have wfl: "wf_log (rf_log rf)" using assms(1) by (simp add: wf_raft_def)
  obtain rf' reply msgs where inst: "InstallSnapshot now args rf = Some (rf', reply, msgs)"
    using InstallSnapshot_total [OF wfl] by (metis prod_cases3)
  note wf' = wf_InstallSnapshot(1) [OF inst assms(1)]
  from inst wfl show ?thesis
  proof (cases rule: InstallSnapshot_cases)
    case stale
    with assms(2) show ?thesis by simp
  next
    case old
    with inst wf' show ?thesis by auto
  next
    case (install l)
    let ?i = "isa_LastIncludedIndex args" and ?t = "isa_LastIncludedTerm args"
    have "term_at l ?i = Some ?t \<and> snapIndex l = ?i \<and> (\<forall>j > ?i. log_entry l j =
        (if term_at (rf_log rf) ?i = Some ?t then log_entry (rf_log rf) j else None))"
      using installSnapshot_frame [OF wfl install(3)] log_entry_installSnapshot [OF wfl install(3)]
        wf_log_snap_entry [OF wf_installSnapshot [OF wfl install(3)]] install(2)
      by (auto simp: term_at_def)
    moreover have "map am_Snapshot msgs = [Some (isa_Data args)]" using install(15) by auto
    ultimately show ?thesis using inst wf' install by auto
  qed
qed


definition snap_args :: "nat InstallSnapshotArgs" where
  "snap_args = \<lparr>isa_Term = 3, isa_LeaderID = 0, isa_LastIncludedIndex = 8, isa_LastIncludedTerm = 2,
     isa_Data = [42]\<rparr>"

theorem InstallSnapshot_installs_witness:
  "\<exists>rf' reply msgs. InstallSnapshot 5 snap_args (fresh_peer 3 1) = Some (rf', reply, msgs) \<and>
     snapIndex (rf_log rf') = 8 \<and> ReadSnapshot (persister rf') = [42]"
  using InstallSnapshot_installs [OF wf_fresh_peer(1), of 3 1 snap_args 5]
  by (auto simp: snap_args_def fresh_peer_unfold newRaftLog_def)

section \<open>Replication and commitment\<close>


definition leader_log :: "string raftLog" where
  "leader_log = \<lparr>entries = [dummy_entry 0, \<lparr>Term = 1, Command = Some ''a''\<rparr>, \<lparr>Term = 4, Command = Some ''b''\<rparr>,
     \<lparr>Term = 4, Command = Some ''c''\<rparr>], snapIndex = 0, snapTerm = 0\<rparr>"

definition follower_log :: "string raftLog" where
  "follower_log = \<lparr>entries = [dummy_entry 0, \<lparr>Term = 1, Command = Some ''a''\<rparr>, \<lparr>Term = 2, Command = Some ''x''\<rparr>,
     \<lparr>Term = 2, Command = Some ''y''\<rparr>], snapIndex = 0, snapTerm = 0\<rparr>"


text \<open>
  The back-off never jumps over agreement: the leader skips only indices at which the follower's
  log really differs from its own, when both logs have non-decreasing terms.
\<close>

theorem backoff_skips_only_disagreement:
  assumes "wf_log f" "wf_log l" "terms_sorted f" "terms_sorted l" "term_at l prev = Some pt"
    and "checkAppend f prev pt es = Some (i, c)" "c \<noteq> no_conflict"
    and "backoffNextIndex prev l (conflict_reply t c) = Some n"
    and "n \<le> j" "snapIndex l < j" "j \<le> prev"
  shows "term_at f j \<noteq> term_at l j"
  by (rule backoff_skips_only_conflicts [OF assms])

theorem backoff_skips_only_disagreement_witness:
  "backoffNextIndex 3 leader_log (conflict_reply 4 (no_conflict\<lparr>XTerm := 2, XIndex := 2\<rparr>)) = Some 2 \<and>
   term_at follower_log 3 \<noteq> term_at leader_log 3"
proof -
  have chk: "checkAppend follower_log 3 4 [] = Some (0, no_conflict\<lparr>XTerm := 2, XIndex := 2\<rparr>)"
    and bk: "backoffNextIndex 3 leader_log (conflict_reply 4 (no_conflict\<lparr>XTerm := 2, XIndex := 2\<rparr>)) = Some 2"
    by code_simp+
  have "wf_log follower_log" "wf_log leader_log" "terms_sorted follower_log" "terms_sorted leader_log"
    "term_at leader_log 3 = Some 4"
    by (simp_all add: wf_log_def terms_sorted_def leader_log_def follower_log_def term_at_def log_entry_def go_index_def)
  from backoff_skips_only_disagreement [OF this chk _ bk, of 3] bk show ?thesis
    by (auto simp: no_conflict_def leader_log_def)
qed




text \<open>
  C10. The commit rule. The leader moves its commit index only to an entry of its own current term
  that a majority of the peers, itself included, holds according to \<open>matchIndex\<close>, and to the last
  such entry of its log; it never panics and the commit index never goes back.
\<close>

theorem updateCommitIndex_commits_majority_entry:
  assumes "wf_raft rf" "rf_Role rf = Leader" "me rf < npeers rf"
  shows "\<exists>rf'. updateCommitIndex rf = Some rf' \<and> commitIndex rf \<le> commitIndex rf' \<and>
    (commitIndex rf' \<noteq> commitIndex rf \<longrightarrow> term_at (rf_log rf) (commitIndex rf') = Some (CurrentTerm rf) \<and>
      (\<exists>Q. majority (npeers rf) Q \<and> me rf \<in> Q \<and> (\<forall>p \<in> Q - {me rf}. commitIndex rf' \<le> matchIndex rf ! p))) \<and>
    (\<forall>k. commitIndex rf' < k \<and> term_at (rf_log rf) k = Some (CurrentTerm rf) \<longrightarrow>
      card (replicas k rf) \<le> npeers rf div 2)"
proof -
  have wfl: "wf_log (rf_log rf)" and len: "length (matchIndex rf) = npeers rf"
    and sn: "snapIndex (rf_log rf) \<le> commitIndex rf"
    using assms(1,2) by (auto simp: wf_raft_def)
  have sub: "replicas k rf \<subseteq> {..<npeers rf}" for k using len assms(3) by (auto simp: replicas_def)
  have later: "card (replicas k rf) \<le> npeers rf div 2"
    if "\<not> committable k rf" "commitIndex rf < k" "term_at (rf_log rf) k = Some (CurrentTerm rf)" for k
    using that sn by (auto simp: committable_def replica_count_card)
  from wfl show ?thesis
  proof (cases rule: updateCommitIndex_cases)
    case (advance k)
    then have k: "commitIndex rf < k" "term_at (rf_log rf) k = Some (CurrentTerm rf)"
      "majority (npeers rf) (replicas k rf)"
      using sub by (auto simp: committable_def majority_def replica_count_card)
    have held: "\<forall>p \<in> replicas k rf - {me rf}. k \<le> matchIndex rf ! p" "me rf \<in> replicas k rf"
      by (auto simp: replicas_def)
    have last: "card (replicas j rf) \<le> npeers rf div 2"
      if "k < j" "term_at (rf_log rf) j = Some (CurrentTerm rf)" for j
      using that k(1) advance(3) [of j] later [of j] by (auto simp: term_at_eq_Some log_entry_iff)
    define rf' where "rf' = rf\<lparr>commitIndex := k, commit := commit rf + 1\<rparr>"
    have "updateCommitIndex rf = Some rf'" "commitIndex rf' = k" using advance(1) by (simp_all add: rf'_def)
    with k held last show ?thesis by (intro exI [of _ rf'] conjI) auto
  next
    case keep
    then have "card (replicas j rf) \<le> npeers rf div 2"
      if "commitIndex rf < j" "term_at (rf_log rf) j = Some (CurrentTerm rf)" for j
      using that later [of j] by (auto simp: term_at_eq_Some log_entry_iff)
    with keep(1) show ?thesis by simp
  qed
qed

definition busy_leader :: "(string, nat) Raft" where
  "busy_leader = persist ((fresh_peer 3 0)\<lparr>CurrentTerm := 4, VotedFor := 0, rf_Role := Leader, rf_log := leader_log,
     nextIndex := [4, 4, 2], matchIndex := [0, 3, 1]\<rparr>)"

lemma wf_busy_leader: "wf_raft busy_leader" "rf_Role busy_leader = Leader" "me busy_leader < npeers busy_leader"
  by (simp_all add: busy_leader_def wf_raft_def fresh_peer_unfold leader_log_def wf_log_def)

theorem updateCommitIndex_commits_majority_entry_witness:
  "\<exists>rf'. updateCommitIndex busy_leader = Some rf' \<and> commitIndex rf' = 3 \<and>
     term_at (rf_log busy_leader) (commitIndex rf') = Some (CurrentTerm busy_leader)"
proof -
  have "map_option commitIndex (updateCommitIndex busy_leader) = Some 3" by code_simp
  moreover have "commitIndex busy_leader = 0" by (simp add: busy_leader_def fresh_peer_unfold)
  ultimately show ?thesis using updateCommitIndex_commits_majority_entry [OF wf_busy_leader] by auto
qed

text \<open>
  What the leader's builder sends is what the handlers expect: with a next index above the
  snapshot and not beyond the log it does not panic, the previous entry and the entries are the
  leader's own, the request reaches the end of the log, and so the leader's commit index is covered by
  the request and the follower's commit index can not go back.
\<close>

theorem build_AppendEntries_sound:
  assumes "wf_raft rf" "commit_in_log rf" "p < length (nextIndex rf)"
    and "snapIndex (rf_log rf) < nextIndex rf ! p" "nextIndex rf ! p \<le> log_len (rf_log rf)"
  shows "\<exists>args. build_AppendEntries p rf = Some args \<and>
    term_at (rf_log rf) (aea_PrevLogIndex args) = Some (aea_PrevLogTerm args) \<and>
    (\<forall>k < length (aea_Entries args).
       log_entry (rf_log rf) (aea_PrevLogIndex args + 1 + int k) = Some (aea_Entries args ! k)) \<and>
    aea_PrevLogIndex args + int (length (aea_Entries args)) = lastIndex (rf_log rf) \<and>
    (\<forall>rg rg' reply now. wf_raft rg \<and> AppendEntries now args rg = Some (rg', reply) \<longrightarrow>
       wf_raft rg' \<and> commitIndex rg \<le> commitIndex rg')"
proof -
  have wfl: "wf_log (rf_log rf)" using assms(1) by (simp add: wf_raft_def)
  obtain args where a: "build_AppendEntries p rf = Some args" "aea_LeaderCommit args = commitIndex rf"
    "term_at (rf_log rf) (aea_PrevLogIndex args) = Some (aea_PrevLogTerm args)"
    "aea_PrevLogIndex args + int (length (aea_Entries args)) = lastIndex (rf_log rf)"
    "\<And>k. k < length (aea_Entries args) \<Longrightarrow>
        log_entry (rf_log rf) (aea_PrevLogIndex args + 1 + int k) = Some (aea_Entries args ! k)"
    by (rule build_AppendEntries_spec [OF wfl assms(3-5)]) blast
  then have "aea_LeaderCommit args \<le> aea_PrevLogIndex args + int (length (aea_Entries args))"
    using assms(2) by (simp add: commit_in_log_def lastIndex_def)
  then have "\<forall>rg rg' reply now. wf_raft rg \<and> AppendEntries now args rg = Some (rg', reply) \<longrightarrow>
       wf_raft rg' \<and> commitIndex rg \<le> commitIndex rg'"
    using wf_AppendEntries by blast
  with a show ?thesis by blast
qed

theorem build_AppendEntries_sound_witness:
  "\<exists>args. build_AppendEntries 2 busy_leader = Some args \<and>
     term_at (rf_log busy_leader) (aea_PrevLogIndex args) = Some (aea_PrevLogTerm args) \<and>
     aea_PrevLogIndex args + int (length (aea_Entries args)) = 3"
proof -
  have "commit_in_log busy_leader" "2 < length (nextIndex busy_leader)"
    "snapIndex (rf_log busy_leader) < nextIndex busy_leader ! 2"
    "nextIndex busy_leader ! 2 \<le> log_len (rf_log busy_leader)" "lastIndex (rf_log busy_leader) = 3"
    by (simp_all add: busy_leader_def commit_in_log_def fresh_peer_unfold leader_log_def log_len_def lastIndex_def)
  with build_AppendEntries_sound [OF wf_busy_leader(1), of 2] show ?thesis by auto
qed


section \<open>Applying, compaction and recovery\<close>

text \<open>
  One wake-up of the apply loop sends exactly the committed and not yet applied commands, in
  index order, each with the command the log holds at its index, and a second wake-up without new
  commitment sends nothing.
\<close>

theorem applyCommand_delivers_in_order:
  assumes "wf_raft rf" "commit_in_log rf"
  shows "\<exists>rf' msgs. applyCommand rf = Some (rf', msgs) \<and> lastApplied rf' = commitIndex rf \<and>
    map CommandIndex msgs = [lastApplied rf + 1..commitIndex rf] \<and>
    (\<forall>m \<in> set msgs. CommandValid m \<and> (\<exists>e. log_entry (rf_log rf) (CommandIndex m) = Some e \<and> am_Command m = Command e)) \<and>
    map_option snd (applyCommand rf') = Some []"
proof -
  define rf' where "rf' = rf\<lparr>commit := commit rf - 1, lastApplied := commitIndex rf\<rparr>"
  let ?msgs = "applied_msgs (lastApplied rf + 1) (commitIndex rf) (rf_log rf)"
  have ap: "applyCommand rf = Some (rf', ?msgs)" using applyCommand_spec [OF assms] by (simp add: rf'_def)
  have "\<exists>e. log_entry (rf_log rf) j = Some e" if "lastApplied rf + 1 \<le> j" "j \<le> commitIndex rf" for j
    using that assms by (auto simp: log_entry_dom wf_raft_def commit_in_log_def)
  then have "\<forall>m \<in> set ?msgs. CommandValid m \<and>
      (\<exists>e. log_entry (rf_log rf) (CommandIndex m) = Some e \<and> am_Command m = Command e)"
    by (fastforce simp: applied_msgs_def command_msg_def)
  moreover have "map CommandIndex ?msgs = [lastApplied rf + 1..commitIndex rf]"
    by (simp add: applied_msgs_def command_msg_def comp_def)
  moreover have "map_option snd (applyCommand rf') = Some []"
    using applyCommand_spec [OF wf_applyCommand [OF ap assms]] by (simp add: rf'_def applied_msgs_def)
  ultimately show ?thesis using ap by (simp add: rf'_def)
qed

theorem applyCommand_delivers_in_order_witness:
  "\<exists>rf' msgs. applyCommand (busy_leader\<lparr>commitIndex := 2\<rparr>) = Some (rf', msgs) \<and> map CommandIndex msgs = [1, 2]"
proof -
  have "durable (busy_leader\<lparr>commitIndex := 2\<rparr>)"
    by (rule durable_cong [of busy_leader]) (simp_all add: busy_leader_def)
  then have "wf_raft (busy_leader\<lparr>commitIndex := 2\<rparr>)" "commit_in_log (busy_leader\<lparr>commitIndex := 2\<rparr>)"
    by (simp_all add: wf_raft_def busy_leader_def commit_in_log_def fresh_peer_unfold leader_log_def
        wf_log_def log_len_def)
  moreover have "[lastApplied (busy_leader\<lparr>commitIndex := 2\<rparr>) + 1..commitIndex (busy_leader\<lparr>commitIndex := 2\<rparr>)] = [1, 2]"
    by (simp add: busy_leader_def fresh_peer_unfold upto.simps)
  ultimately show ?thesis using applyCommand_delivers_in_order by metis
qed

text \<open>
  C33. Crash recovery. In every reachable state, under any scheduling, a restarted peer comes back as
  a follower with the term, the vote and the log it had, and with its applied and committed indices
  at its snapshot; what it had persisted is the state of its memory.
\<close>

theorem restart_restores:
  assumes "reachable_cluster prompt n s" "i < n"
  shows "\<exists>rf'. raft_Make n i (persister (nodes s i)) now r = Some rf' \<and> rf_Role rf' = Follower \<and>
    CurrentTerm rf' = CurrentTerm (nodes s i) \<and> VotedFor rf' = VotedFor (nodes s i) \<and>
    rf_log rf' = rf_log (nodes s i) \<and> wf_raft rf' \<and> commit_in_log rf' \<and>
    commitIndex rf' = snapshotIndex (rf_log (nodes s i)) \<and> lastApplied rf' = commitIndex rf'"
proof -
  have "peer_core n i (nodes s i)" using reachable_ok [OF assms(1)] assms(2) by (simp add: peers_ok_def)
  then have "wf_log (rf_log (nodes s i))" "0 \<le> snapIndex (rf_log (nodes s i))" "durable (nodes s i)"
    by (simp_all add: peer_core_def)
  then show ?thesis
    by (rule raft_Make_restores [where n = n and i = i and now = now and r = r])
       (rule refl, simp add: snapshotIndex_def)
qed

theorem restart_restores_witness:
  "\<exists>s :: (string, nat) cluster. reachable_cluster True 3 s \<and> CurrentTerm (nodes s 0) = 1 \<and>
     (\<exists>rf'. raft_Make 3 0 (persister (nodes s 0)) 7 7 = Some rf' \<and> CurrentTerm rf' = 1 \<and> rf_Role rf' = Follower)"
proof -
  obtain s :: "(string, nat) cluster" where s: "reachable_cluster True 3 s" "leadership [0] s = [(True, 1)]"
    using one_leader_run by (rule scheduled)
  have "(0 :: nat) < 3" by simp
  from restart_restores [OF s(1) this, of 7 7] s show ?thesis
    by (intro exI [of _ s]) (auto simp: leadership_def)
qed

text \<open>
  Compaction keeps what the log says. Taking a snapshot at an applied index never panics, drops
  only entries up to it, keeps every later entry at its index and the last term and index that decide
  elections, and stores snapshot and state together.
\<close>

theorem Snapshot_compacts:
  assumes "wf_raft rf" "index \<le> lastApplied rf" "commit_in_log rf"
  shows "\<exists>rf'. raft_Snapshot index snap rf = Some rf' \<and> wf_raft rf' \<and> commit_in_log rf' \<and>
    snapIndex (rf_log rf') = max index (snapIndex (rf_log rf)) \<and>
    (\<forall>j. snapIndex (rf_log rf') < j \<longrightarrow> log_entry (rf_log rf') j = log_entry (rf_log rf) j) \<and>
    last_pos (rf_log rf') = last_pos (rf_log rf) \<and>
    (snapIndex (rf_log rf) < index \<longrightarrow> ReadSnapshot (persister rf') = snap \<and>
       ReadRaftState (persister rf') = encodeRaftState rf')"
proof -
  obtain rf' where rf': "raft_Snapshot index snap rf = Some rf'" "wf_raft rf'" "commit_in_log rf'"
    "snapIndex (rf_log rf') = max index (snapIndex (rf_log rf))"
    "\<And>j. snapIndex (rf_log rf') < j \<Longrightarrow> log_entry (rf_log rf') j = log_entry (rf_log rf) j"
    "log_len (rf_log rf') = log_len (rf_log rf)"
    "snapIndex (rf_log rf) < index \<Longrightarrow> ReadSnapshot (persister rf') = snap"
    by (rule raft_Snapshot_spec [OF assms]) blast
  have saved: "ReadRaftState (persister rf') = encodeRaftState rf'" if "snapIndex (rf_log rf) < index"
    using rf'(1) that
    by (auto simp: raft_Snapshot_def snapshotIndex_def bind_Some_iff Let_def encodeRaftState_eq_iff)
  have "last_pos (rf_log rf') = last_pos (rf_log rf)" by (rule raft_Snapshot_last_pos [OF assms(1) rf'(1)])
  with rf' saved show ?thesis by blast
qed

theorem Snapshot_compacts_witness:
  "\<exists>rf'. raft_Snapshot 2 [9] (busy_leader\<lparr>commitIndex := 3, lastApplied := 3\<rparr>) = Some rf' \<and>
     snapIndex (rf_log rf') = 2 \<and> last_pos (rf_log rf') = LogPos 4 3"
proof -
  let ?rf = "busy_leader\<lparr>commitIndex := 3, lastApplied := 3\<rparr>"
  have "durable ?rf" by (rule durable_cong [of busy_leader]) (simp_all add: busy_leader_def)
  then have "wf_raft ?rf" "2 \<le> lastApplied ?rf" "commit_in_log ?rf"
    by (simp_all add: wf_raft_def busy_leader_def commit_in_log_def fresh_peer_unfold leader_log_def
        wf_log_def log_len_def)
  from Snapshot_compacts [OF this, of "[9]"] show ?thesis
    by (auto simp: busy_leader_def leader_log_def last_pos_def lastIndex_def log_len_def)
qed

end
