(* ===== verification/RaftHistory.thy ===== *)
theory RaftHistory
  imports RaftElection
begin

text \<open>
  The history behind the state of a cluster, and why it is safe. A peer's log is compacted and its
  acknowledgements are forgotten; the history keeps the complete log of every peer, the log that
  the leader of each term has built, the log with which a peer stood for election, and how much of
  a leader's log each peer has acknowledged in that leader's term. The invariant says that a prefix
  which a majority may still come to acknowledge in some term is in the log of every later leader.
  Six kinds of events change the history, and each keeps the invariant; no message and no other
  state of the code occurs here.
\<close>

section \<open>Logs and histories\<close>

text \<open>The term of a full log at an absolute index; index 0 is the dummy before the first entry.\<close>

definition term_of :: "'c LogEntry list \<Rightarrow> nat \<Rightarrow> int" where
  "term_of L k = (if k = 0 then 0 else Term (L ! (k - 1)))"

definition log_end :: "'c LogEntry list \<Rightarrow> log_pos" where
  "log_end L = LogPos (term_of L (length L)) (int (length L))"

record 'c history =
  alog :: "nat \<Rightarrow> 'c LogEntry list"
  tlog :: "int \<Rightarrow> 'c LogEntry list option"
  acc :: "nat \<Rightarrow> int \<Rightarrow> nat"
  cand :: "nat \<Rightarrow> int \<Rightarrow> 'c LogEntry list option"

text \<open>Every entry of a log comes, with all entries before it, from the leader of its term.\<close>

definition grounded :: "'c history \<Rightarrow> 'c LogEntry list \<Rightarrow> bool" where
  "grounded h L \<longleftrightarrow> (\<forall>k < length L. 1 \<le> Term (L ! k) \<and>
     (\<exists>M. tlog h (Term (L ! k)) = Some M \<and> take (Suc k) L = take (Suc k) M))"

text \<open>How a history grows: leaders append, acknowledgements accumulate, candidacies stay.\<close>

definition grows :: "'c history \<Rightarrow> 'c history \<Rightarrow> bool" where
  "grows h h' \<longleftrightarrow>
     (\<forall>t M. tlog h t = Some M \<longrightarrow> (\<exists>M'. tlog h' t = Some M' \<and> take (length M) M' = M)) \<and>
     (\<forall>i t. acc h i t \<le> acc h' i t) \<and> (\<forall>c t L. cand h c t = Some L \<longrightarrow> cand h' c t = Some L)"

lemma grows_refl [simp]: "grows h h"
  by (simp add: grows_def)

lemma grows_trans [trans]:
  assumes "grows h h'" "grows h' h''"
  shows "grows h h''"
proof -
  have "\<exists>M''. tlog h'' t = Some M'' \<and> take (length M) M'' = M" if tl: "tlog h t = Some M" for t M
  proof -
    obtain M' where M': "tlog h' t = Some M'" "take (length M) M' = M"
      using tl assms(1) unfolding grows_def by blast
    then obtain M'' where M'': "tlog h'' t = Some M''" "take (length M') M'' = M'"
      using assms(2) unfolding grows_def by blast
    from M'(2) have "length M \<le> length M'" by (metis length_take min.cobounded1)
    with M' M'' show ?thesis by (metis min.absorb1 take_take)
  qed
  with assms show ?thesis by (fastforce simp: grows_def intro: le_trans)
qed

lemma grows_tlog:
  assumes "grows h h'" "tlog h t = Some M"
  obtains M' where "tlog h' t = Some M'" "length M \<le> length M'" "\<forall>k \<le> length M. take k M' = take k M"
proof -
  obtain M' where M: "tlog h' t = Some M'" "take (length M) M' = M"
    using assms unfolding grows_def by blast
  then have "length M \<le> length M'" by (metis length_take min.cobounded1)
  moreover have "take k M' = take k M" if "k \<le> length M" for k
    using that M(2) by (metis min.absorb1 take_take)
  ultimately show ?thesis using M(1) that by blast
qed

lemma grounded_mono: "grounded h L \<Longrightarrow> grows h h' \<Longrightarrow> grounded h' L"
  unfolding grounded_def
proof (intro allI impI)
  fix k
  assume g: "\<forall>k<length L. 1 \<le> Term (L ! k) \<and> (\<exists>M. tlog h (Term (L ! k)) = Some M \<and> take (Suc k) L = take (Suc k) M)"
    and e: "grows h h'" and k: "k < length L"
  then obtain M where M: "1 \<le> Term (L ! k)" "tlog h (Term (L ! k)) = Some M" "take (Suc k) L = take (Suc k) M"
    by blast
  from M(3) k have "Suc k \<le> length M" by (metis Suc_leI length_take min.absorb2 min.cobounded1)
  with grows_tlog [OF e M(2)] M show "1 \<le> Term (L ! k) \<and>
      (\<exists>M. tlog h' (Term (L ! k)) = Some M \<and> take (Suc k) L = take (Suc k) M)" by metis
qed

lemma grounded_Nil [simp]: "grounded h []"
  by (simp add: grounded_def)

lemma grounded_take: "grounded h L \<Longrightarrow> grounded h (take m L)"
  by (auto simp: grounded_def min_def)

lemma groundedE:
  assumes "grounded h L" "k < length L"
  obtains M where "tlog h (Term (L ! k)) = Some M" "take (Suc k) L = take (Suc k) M" "k < length M"
    "L ! k = M ! k" "1 \<le> Term (L ! k)"
proof -
  obtain M where M: "1 \<le> Term (L ! k)" "tlog h (Term (L ! k)) = Some M" "take (Suc k) L = take (Suc k) M"
    using assms unfolding grounded_def by blast
  have "length (take (Suc k) M) = Suc k" using M(3) assms(2) by (metis Suc_leI length_take min.absorb2)
  then have "k < length M" by simp
  moreover have "L ! k = M ! k" using M(3) by (metis lessI nth_take)
  ultimately show ?thesis using M that by blast
qed

text \<open>Log matching: two grounded logs that agree on the term at an index agree up to that index.\<close>

lemma grounded_agree:
  assumes "grounded h L" "grounded h L'" "k \<le> length L" "k \<le> length L'" "term_of L k = term_of L' k"
  shows "take k L = take k L'"
proof (cases k)
  case (Suc j)
  with assms have j: "j < length L" "j < length L'" "Term (L ! j) = Term (L' ! j)"
    by (auto simp: term_of_def)
  obtain M where "tlog h (Term (L ! j)) = Some M" "take (Suc j) L = take (Suc j) M"
    by (rule groundedE [OF assms(1) j(1)])
  moreover obtain M' where "tlog h (Term (L' ! j)) = Some M'" "take (Suc j) L' = take (Suc j) M'"
    by (rule groundedE [OF assms(2) j(2)])
  ultimately show ?thesis using j(3) Suc by simp
qed simp

lemma take_eq_nth: "take m L = take m M \<Longrightarrow> m \<le> length M \<Longrightarrow> m \<le> length L \<and> (\<forall>k < m. L ! k = M ! k)"
  by (metis length_take min.absorb2 min.cobounded1 nth_take)

lemma take_eq_mono: "take m L = take m M \<Longrightarrow> k \<le> m \<Longrightarrow> take k L = take k M"
  by (metis min.absorb1 take_take)

section \<open>The invariant\<close>

text \<open>
  A majority has acknowledged the first \<open>m\<close> entries of the leader of term \<open>t\<close>, or may still do so:
  a peer that has left the term behind will not acknowledge any more.
\<close>

definition choosable :: "nat \<Rightarrow> 'c history \<Rightarrow> (nat \<Rightarrow> int) \<Rightarrow> int \<Rightarrow> nat \<Rightarrow> bool" where
  "choosable n h T t m \<longleftrightarrow> (\<exists>Q. majority n Q \<and> (\<forall>i \<in> Q. m \<le> acc h i t \<or> T i \<le> t))"

definition open_prefix :: "nat \<Rightarrow> 'c history \<Rightarrow> (nat \<Rightarrow> int) \<Rightarrow> int \<Rightarrow> nat \<Rightarrow> 'c LogEntry list \<Rightarrow> bool" where
  "open_prefix n h T t m M \<longleftrightarrow> tlog h t = Some M \<and> 0 < m \<and> m \<le> length M \<and> Term (M ! (m - 1)) = t \<and>
     choosable n h T t m"

text \<open>The shape of the logs, with \<open>T\<close> the peers' terms and \<open>B\<close> the ballots cast.\<close>

definition logs_ok :: "nat \<Rightarrow> 'c history \<Rightarrow> (nat \<Rightarrow> int) \<Rightarrow> (nat \<times> int \<times> int) set \<Rightarrow> bool" where
  "logs_ok n h T B \<longleftrightarrow>
     (\<forall>i. grounded h (alog h i) \<and> (\<forall>e \<in> set (alog h i). Term e \<le> T i)) \<and>
     (\<forall>t M. tlog h t = Some M \<longrightarrow> grounded h M \<and> (\<forall>e \<in> set M. Term e \<le> t) \<and> (\<exists>c. backed n B t c)) \<and>
     (\<forall>c t L. cand h c t = Some L \<longrightarrow> grounded h L \<and> (\<forall>e \<in> set L. Term e < t) \<and> t \<le> T c) \<and>
     (\<forall>i t M. tlog h t = Some M \<longrightarrow> acc h i t \<le> length M) \<and>
     (\<forall>i t. 0 < acc h i t \<longrightarrow> t \<le> T i \<and> tlog h t \<noteq> None) \<and>
     (\<forall>i t c. (i, t, c) \<in> B \<longrightarrow> t \<le> T i \<and> (\<exists>L. cand h (nat c) t = Some L))"

text \<open>Later leaders have it, those who acknowledged it hold it, and so do those they voted for later.\<close>

definition later_leaders :: "nat \<Rightarrow> 'c history \<Rightarrow> (nat \<Rightarrow> int) \<Rightarrow> bool" where
  "later_leaders n h T \<longleftrightarrow> (\<forall>t m M u M'. open_prefix n h T t m M \<longrightarrow> t < u \<longrightarrow> tlog h u = Some M' \<longrightarrow>
     take m M = take m M')"

definition holders :: "nat \<Rightarrow> 'c history \<Rightarrow> (nat \<Rightarrow> int) \<Rightarrow> bool" where
  "holders n h T \<longleftrightarrow> (\<forall>i t m M. open_prefix n h T t m M \<longrightarrow> m \<le> acc h i t \<longrightarrow>
     take m (alog h i) = take m M)"

definition later_candidates :: "nat \<Rightarrow> 'c history \<Rightarrow> (nat \<Rightarrow> int) \<Rightarrow> (nat \<times> int \<times> int) set \<Rightarrow> bool" where
  "later_candidates n h T B \<longleftrightarrow> (\<forall>i t m M u c L. open_prefix n h T t m M \<longrightarrow> m \<le> acc h i t \<longrightarrow> t < u \<longrightarrow>
     (i, u, int c) \<in> B \<longrightarrow> cand h c u = Some L \<longrightarrow> take m L = take m M)"

definition history_ok :: "nat \<Rightarrow> 'c history \<Rightarrow> (nat \<Rightarrow> int) \<Rightarrow> (nat \<times> int \<times> int) set \<Rightarrow> bool" where
  "history_ok n h T B \<longleftrightarrow> logs_ok n h T B \<and> later_leaders n h T \<and> holders n h T \<and> later_candidates n h T B"

lemma logs_okD:
  assumes "logs_ok n h T B"
  shows "grounded h (alog h i)" "e \<in> set (alog h i) \<Longrightarrow> Term e \<le> T i"
    "tlog h t = Some M \<Longrightarrow> grounded h M" "tlog h t = Some M \<Longrightarrow> e \<in> set M \<Longrightarrow> Term e \<le> t"
    "tlog h t = Some M \<Longrightarrow> \<exists>c. backed n B t c"
    "cand h c t = Some L \<Longrightarrow> grounded h L" "cand h c t = Some L \<Longrightarrow> e \<in> set L \<Longrightarrow> Term e < t"
    "cand h c t = Some L \<Longrightarrow> t \<le> T c"
    "tlog h t = Some M \<Longrightarrow> acc h i t \<le> length M" "0 < acc h i t \<Longrightarrow> t \<le> T i"
    "0 < acc h i t \<Longrightarrow> tlog h t \<noteq> None"
    "(i, t, d) \<in> B \<Longrightarrow> t \<le> T i" "(i, t, d) \<in> B \<Longrightarrow> \<exists>L. cand h (nat d) t = Some L"
  using assms unfolding logs_ok_def by blast+

lemma history_okD:
  assumes "history_ok n h T B"
  shows "logs_ok n h T B"
    "open_prefix n h T t m M \<Longrightarrow> t < u \<Longrightarrow> tlog h u = Some M' \<Longrightarrow> take m M' = take m M"
    "open_prefix n h T t m M \<Longrightarrow> m \<le> acc h i t \<Longrightarrow> take m (alog h i) = take m M"
    "open_prefix n h T t m M \<Longrightarrow> m \<le> acc h i t \<Longrightarrow> t < u \<Longrightarrow> (i, u, int c) \<in> B \<Longrightarrow>
       cand h c u = Some L \<Longrightarrow> take m L = take m M"
  using assms unfolding history_ok_def later_leaders_def holders_def later_candidates_def by metis+

text \<open>Being open is lost over time and never gained.\<close>

lemma choosable_past:
  assumes "choosable n h' T' t m" "\<And>i. T i \<le> T' i"
    and "\<And>i. m \<le> acc h' i t \<Longrightarrow> m \<le> acc h i t \<or> T i \<le> t"
  shows "choosable n h T t m"
  using assms unfolding choosable_def by (meson order_trans)

lemma open_prefix_past:
  assumes "open_prefix n h' T' t m M" "tlog h' t = tlog h t" "\<And>i. T i \<le> T' i"
    and "\<And>i. m \<le> acc h' i t \<Longrightarrow> m \<le> acc h i t \<or> T i \<le> t"
  shows "open_prefix n h T t m M"
  using assms choosable_past [of n h' T' t m T h] unfolding open_prefix_def by auto

lemma open_prefix_term:
  assumes "open_prefix n h T t m M" "take m L = take m M"
  shows "m \<le> length L" "L ! (m - 1) \<in> set L" "Term (L ! (m - 1)) = t"
  using assms take_eq_nth [of m L M] nth_mem [of "m - 1" L] by (auto simp: open_prefix_def)

section \<open>Entering a term\<close>

lemma history_raise:
  assumes "history_ok n h T B" "\<And>i. T i \<le> T' i"
  shows "history_ok n h T' B"
proof -
  have past: "open_prefix n h T t m M" if "open_prefix n h T' t m M" for t m M
    using that by (rule open_prefix_past) (use assms(2) in auto)
  have "logs_ok n h T' B"
    using history_okD(1) [OF assms(1)] assms(2) unfolding logs_ok_def by (meson order_trans)
  with assms(1) past show ?thesis
    unfolding history_ok_def later_leaders_def holders_def later_candidates_def by blast
qed

section \<open>Voting\<close>

text \<open>Terms do not decrease along a grounded log.\<close>

lemma grounded_sorted:
  assumes "logs_ok n h T B" "grounded h L" "j \<le> k" "k < length L"
  shows "Term (L ! j) \<le> Term (L ! k)"
proof -
  obtain M where M: "tlog h (Term (L ! k)) = Some M" "take (Suc k) L = take (Suc k) M" "k < length M"
    by (rule groundedE [OF assms(2,4)])
  from M(2) have "L ! j = M ! j" using assms(3) by (metis le_imp_less_Suc nth_take)
  moreover have "M ! j \<in> set M" using M(3) assms(3) by simp
  ultimately show ?thesis using logs_okD(4) [OF assms(1) M(1)] by simp
qed

text \<open>
  The voting rule: a candidate whose log ends no earlier than the voter's has every open prefix
  that the voter has.
\<close>

lemma up_to_date_has_prefix:
  assumes ok: "history_ok n h T B" and op: "open_prefix n h T t m M" and V: "take m V = take m M"
    and gV: "grounded h V" and gL: "grounded h L" and pos: "log_end V \<le> log_end L"
  shows "take m L = take m M"
proof -
  note logs = history_okD(1) [OF ok]
  have tl: "tlog h t = Some M" and m: "0 < m" "m \<le> length M" using op by (simp_all add: open_prefix_def)
  note atV = open_prefix_term [OF op V]
  have endV: "t \<le> term_of V (length V)"
    using grounded_sorted [OF logs gV, of "m - 1" "length V - 1"] atV m by (auto simp: term_of_def)
  have "1 \<le> t" using groundedE [OF gV, of "m - 1"] atV m by (metis One_nat_def Suc_pred less_eq_Suc_le)
  with endV pos have "L \<noteq> []" by (auto simp: less_eq_log_pos_def log_end_def term_of_def)
  then have k: "length L - 1 < length L" and pL: "term_of L (length L) = Term (L ! (length L - 1))"
    by (auto simp: term_of_def)
  obtain M' where M': "tlog h (Term (L ! (length L - 1))) = Some M'" "take (length L) L = take (length L) M'"
      "L ! (length L - 1) = M' ! (length L - 1)"
    using groundedE [OF gL k] k by (metis Suc_diff_1 length_greater_0_conv \<open>L \<noteq> []\<close>)
  define u where "u = Term (L ! (length L - 1))"
  consider "t < u" | "u = t" "length V \<le> length L"
    using pos endV pL by (cases "t < u") (auto simp: less_eq_log_pos_def log_end_def u_def)
  then show ?thesis
  proof cases
    case 1
    with M' have eq: "take m M' = take m M" using history_okD(2) [OF ok op] by (simp add: u_def)
    have "m \<le> length L"
    proof (rule ccontr)
      assume "\<not> m \<le> length L"
      with eq m have "M' ! (length L - 1) = M ! (length L - 1)" "length L - 1 < length M"
        using take_eq_nth [of m M' M] k by auto
      then have "u \<le> t" using logs_okD(4) [OF logs tl] M'(3) by (simp add: u_def)
      with 1 show False by simp
    qed
    with M'(2) eq show ?thesis by (metis take_eq_mono)
  next
    case 2
    with M' tl have "M' = M" by (simp add: u_def)
    with M'(2) 2 atV(1) show ?thesis by (metis le_trans take_eq_mono)
  qed
qed

lemma history_vote:
  assumes ok: "history_ok n h T B" and c: "cand h c u = Some L" and i: "u \<le> T i"
    and pos: "log_end (alog h i) \<le> log_end L"
  shows "history_ok n h T (insert (i, u, int c) B)"
proof -
  note logs = history_okD(1) [OF ok]
  have "take m L' = take m M"
    if op: "open_prefix n h T t m M" "m \<le> acc h j t" "t < u'"
      and b: "(j, u', int c') \<in> insert (i, u, int c) B" "cand h c' u' = Some L'" for j t m M u' c' L'
  proof (cases "(j, u', int c') \<in> B")
    case True
    then show ?thesis using history_okD(4) [OF ok op] b(2) by blast
  next
    case False
    with b c have eq: "j = i" "L' = L" by auto
    show ?thesis
      using up_to_date_has_prefix [OF ok op(1) history_okD(3) [OF ok op(1,2)], of L] pos
        logs_okD(1,6) [OF logs] c by (simp add: eq)
  qed
  moreover have "\<exists>d. backed n (insert (i, u, int c) B) t d" if "tlog h t = Some M" for t M
    using logs_okD(5) [OF logs that] backed_mono by blast
  then have "logs_ok n h T (insert (i, u, int c) B)"
    using logs c i unfolding logs_ok_def by auto
  ultimately show ?thesis
    using ok unfolding history_ok_def later_candidates_def by blast
qed

text \<open>Standing for election: the peer enters a new term, remembers its log and votes for itself.\<close>

lemma history_campaign:
  assumes ok: "history_ok n h T B" and T': "T' = T(i := u)" "T i < u"
    and h': "h' = h\<lparr>cand := (cand h)(i := (cand h i)(u := Some (alog h i)))\<rparr>"
  shows "history_ok n h' T' (insert (i, u, int i) B)" "grows h h'"
proof -
  have raised: "history_ok n h T' B" by (rule history_raise [OF ok]) (use T' in auto)
  note logs = history_okD(1) [OF ok] and logs' = history_okD(1) [OF raised]
  have none: "cand h i u = None" using logs_okD(8) [OF logs, of i u] T'(2) by (cases "cand h i u") auto
  show ext: "grows h h'" by (auto simp: grows_def h' none)
  have g: "grounded h' L \<longleftrightarrow> grounded h L" for L by (simp add: grounded_def h')
  have op: "open_prefix n h' T' t m M \<longleftrightarrow> open_prefix n h T' t m M" for t m M
    by (simp add: open_prefix_def choosable_def h')
  have "grounded h L \<and> (\<forall>e \<in> set L. Term e < t) \<and> t \<le> T' c" if "cand h' c t = Some L" for c t L
    using that logs_okD(6-8) [OF logs', of c t L] logs_okD(1) [OF logs, of i] logs_okD(2) [OF logs, of _ i] T'
    by (fastforce simp: h' split: if_splits)
  moreover have "\<exists>L. cand h' c t = Some L" if "cand h c t = Some L" for c t L
    using that ext by (auto simp: grows_def)
  ultimately have "logs_ok n h' T' B"
    using logs' unfolding logs_ok_def g by (auto simp: h')
  moreover have "later_candidates n h' T' B"
    unfolding later_candidates_def op
  proof (intro allI impI)
    fix j t m M u' c' L'
    assume a: "open_prefix n h T' t m M" "m \<le> acc h' j t" "t < u'" "(j, u', int c') \<in> B" "cand h' c' u' = Some L'"
    then have "cand h c' u' = Some L'"
      using logs_okD(13) [OF logs, of j u' "int c'"] none by (auto simp: h' split: if_splits)
    with a show "take m L' = take m M" using history_okD(4) [OF raised] by (simp add: h')
  qed
  ultimately have "history_ok n h' T' B"
    using raised unfolding history_ok_def later_leaders_def holders_def op by (simp add: h')
  then show "history_ok n h' T' (insert (i, u, int i) B)"
    by (rule history_vote [where L = "alog h i"]) (use T' in \<open>simp_all add: h'\<close>)
qed

section \<open>Winning an election\<close>

text \<open>
  The new leader's log has every open prefix: the majority that may still acknowledge it and the
  majority that voted share a peer, which has left the old term and so has acknowledged it before.
\<close>

lemma winner_has_prefix:
  assumes ok: "history_ok n h T B" and b: "backed n B u c" and c: "cand h c u = Some L"
    and op: "open_prefix n h T t m M" "t < u"
  shows "take m L = take m M"
proof -
  obtain Q where Q: "majority n Q" "\<forall>i \<in> Q. m \<le> acc h i t \<or> T i \<le> t"
    using op by (auto simp: open_prefix_def choosable_def)
  obtain R where R: "majority n R" "\<forall>i \<in> R. (i, u, int c) \<in> B" using b by (auto simp: backed_def)
  obtain i where i: "i \<in> Q" "i \<in> R" using maj.quorums_meet [OF Q(1) R(1)] by blast
  then have "u \<le> T i" using R(2) logs_okD(12) [OF history_okD(1) [OF ok]] by blast
  with i Q(2) op(2) have "m \<le> acc h i t" by auto
  with i R(2) c show ?thesis using history_okD(4) [OF ok op(1) _ op(2)] by blast
qed

lemma history_elect:
  assumes ok: "history_ok n h T B" and b: "backed n B u c" and c: "cand h c u = Some L"
    and new: "tlog h u = None" and h': "h' = h\<lparr>tlog := (tlog h)(u := Some L)\<rparr>"
  shows "history_ok n h' T B" "grows h h'"
proof -
  note logs = history_okD(1) [OF ok]
  show ext: "grows h h'" by (auto simp: grows_def h' new)
  have past: "t \<noteq> u \<and> open_prefix n h T t m M" if op: "open_prefix n h' T t m M" for t m M
  proof -
    have "t \<noteq> u"
    proof
      assume "t = u"
      with op have "M = L" "m - 1 < length L" "Term (L ! (m - 1)) = u" by (auto simp: open_prefix_def h')
      then show False using logs_okD(7) [OF logs c, of "L ! (m - 1)"] by simp
    qed
    with op show ?thesis by (simp add: open_prefix_def choosable_def h')
  qed
  have gr: "grounded h' K" if "grounded h K" for K using grounded_mono [OF that ext] .
  have acc0: "acc h i u = 0" for i using logs_okD(11) [OF logs, of i u] new by auto
  have "grounded h' M \<and> (\<forall>e \<in> set M. Term e \<le> t) \<and> (\<exists>c. backed n B t c)" if "tlog h' t = Some M" for t M
    using that logs_okD(3-5) [OF logs, of t M] logs_okD(6) [OF logs c] logs_okD(7) [OF logs c] b gr
    by (cases "t = u") (fastforce simp: h')+
  moreover have "acc h' i t \<le> length M" if "tlog h' t = Some M" for i t M
    using that logs_okD(9) [OF logs, of t M i] acc0 by (cases "t = u") (auto simp: h')
  moreover have "t \<le> T i \<and> tlog h' t \<noteq> None" if "0 < acc h' i t" for i t
    using that logs_okD(10,11) [OF logs, of i t] by (auto simp: h')
  ultimately have "logs_ok n h' T B"
    using logs gr unfolding logs_ok_def by (simp add: h')
  moreover have "later_leaders n h' T"
    unfolding later_leaders_def
  proof (intro allI impI)
    fix t m M v M'
    assume a: "open_prefix n h' T t m M" "t < v" "tlog h' v = Some M'"
    then show "take m M = take m M'"
      using past [OF a(1)] winner_has_prefix [OF ok b c, of t m M] history_okD(2) [OF ok, of t m M v M']
      by (cases "v = u") (auto simp: h')
  qed
  moreover have fr: "acc h' = acc h" "alog h' = alog h" "cand h' = cand h" by (simp_all add: h')
  have "holders n h' T" "later_candidates n h' T B"
    unfolding holders_def later_candidates_def fr using past history_okD(3,4) [OF ok] by blast+
  ultimately show "history_ok n h' T B" by (simp add: history_ok_def)
qed

section \<open>A leader appends\<close>

text \<open>
  The new prefix is open only while a majority is still in the leader's term, and then there is no
  later leader yet.
\<close>

lemma no_later_leader:
  assumes "logs_ok n h T B" "\<And>i. acc h i t < m" "choosable n h T t m" "tlog h u = Some M"
  shows "u \<le> t"
proof -
  obtain c R where R: "majority n R" "\<forall>i \<in> R. (i, u, int c) \<in> B"
    using logs_okD(5) [OF assms(1,4)] by (auto simp: backed_def)
  obtain Q where Q: "majority n Q" "\<forall>i \<in> Q. m \<le> acc h i t \<or> T i \<le> t"
    using assms(3) by (auto simp: choosable_def)
  obtain i where i: "i \<in> Q" "i \<in> R" using maj.quorums_meet [OF Q(1) R(1)] by blast
  then have "T i \<le> t" using Q(2) assms(2) by (meson leD)
  moreover have "u \<le> T i" using i R(2) logs_okD(12) [OF assms(1)] by blast
  ultimately show ?thesis by simp
qed

lemma history_append:
  assumes ok: "history_ok n h T B" and c: "T c = u" "tlog h u = Some (alog h c)" and e: "Term e = u" "1 \<le> u"
    and h': "h' = h\<lparr>alog := (alog h)(c := alog h c @ [e]), tlog := (tlog h)(u := Some (alog h c @ [e]))\<rparr>"
  shows "history_ok n h' T B" "grows h h'"
proof -
  note logs = history_okD(1) [OF ok]
  let ?L = "alog h c"
  show ext: "grows h h'" using c by (auto simp: grows_def h')
  have past: "(t = u \<and> m = Suc (length ?L) \<and> M = ?L @ [e]) \<or>
      (\<exists>M0. open_prefix n h T t m M0 \<and> take m M = take m M0)"
    if op: "open_prefix n h' T t m M" for t m M
  proof (cases "t = u \<and> m = Suc (length ?L)")
    case False
    then have "open_prefix n h T t m (if t = u then ?L else M)" "take m M = take m (if t = u then ?L else M)"
      using op c by (auto simp: open_prefix_def choosable_def h' nth_append le_Suc_eq split: if_splits)
    then show ?thesis by blast
  qed (use op in \<open>auto simp: open_prefix_def h'\<close>)
  have acc_less: "acc h i u < Suc (length ?L)" for i using logs_okD(9) [OF logs c(2)] by (simp add: le_imp_less_Suc)
  have gr: "grounded h' K" if "grounded h K" for K using grounded_mono [OF that ext] .
  have new: "grounded h' (?L @ [e])"
    using gr [OF logs_okD(1) [OF logs, of c]] e
    by (auto simp: grounded_def nth_append less_Suc_eq) (auto simp: h')
  have "grounded h' (alog h' i) \<and> (\<forall>e \<in> set (alog h' i). Term e \<le> T i)" for i
    using new gr logs_okD(1) [OF logs, of i] logs_okD(2) [OF logs, of _ i] c(1) e by (auto simp: h')
  moreover have "grounded h' M \<and> (\<forall>e \<in> set M. Term e \<le> t) \<and> (\<exists>c. backed n B t c)"
    if "tlog h' t = Some M" for t M
    using that logs_okD(3-5) [OF logs, of t M] logs_okD(4) [OF logs c(2)] logs_okD(5) [OF logs c(2)] new e(1) gr
    by (cases "t = u") (fastforce simp: h')+
  moreover have "acc h' i t \<le> length M" if "tlog h' t = Some M" for i t M
    using that logs_okD(9) [OF logs, of t M i] acc_less [of i] by (cases "t = u") (auto simp: h')
  moreover have "t \<le> T i \<and> tlog h' t \<noteq> None" if "0 < acc h' i t" for i t
    using that logs_okD(10,11) [OF logs, of i t] by (auto simp: h')
  ultimately have "logs_ok n h' T B"
    using logs gr unfolding logs_ok_def by (simp add: h')
  moreover have "later_leaders n h' T"
    unfolding later_leaders_def
  proof (intro allI impI)
    fix t m M v M'
    assume a: "open_prefix n h' T t m M" "t < v" "tlog h' v = Some M'"
    from past [OF a(1)] show "take m M = take m M'"
    proof
      assume new: "t = u \<and> m = Suc (length ?L) \<and> M = ?L @ [e]"
      with a have "tlog h v = Some M'" "choosable n h T u m" by (auto simp: open_prefix_def choosable_def h')
      with no_later_leader [OF logs _ this(2,1)] acc_less new a(2) show ?thesis by auto
    next
      assume "\<exists>M0. open_prefix n h T t m M0 \<and> take m M = take m M0"
      then obtain M0 where M0: "open_prefix n h T t m M0" "take m M = take m M0" by blast
      show ?thesis
      proof (cases "v = u")
        case False
        with a have "tlog h v = Some M'" by (simp add: h')
        with M0 history_okD(2) [OF ok M0(1) a(2)] show ?thesis by simp
      next
        case True
        then have "take m ?L = take m M0" "M' = ?L @ [e]" using history_okD(2) [OF ok M0(1)] a c(2) by (auto simp: h')
        moreover have "m \<le> length ?L" by (rule open_prefix_term(1) [OF M0(1) calculation(1)])
        ultimately show ?thesis using M0(2) by simp
      qed
    qed
  qed
  moreover have "holders n h' T"
    unfolding holders_def
  proof (intro allI impI)
    fix i t m M
    assume a: "open_prefix n h' T t m M" "m \<le> acc h' i t"
    from past [OF a(1)] a(2) acc_less [of i] obtain M0 where M0: "open_prefix n h T t m M0" "take m M = take m M0"
      by (auto simp: h')
    then have eq: "take m (alog h i) = take m M0" using history_okD(3) [OF ok M0(1)] a(2) by (simp add: h')
    then have "m \<le> length (alog h i)" by (rule open_prefix_term(1) [OF M0(1)])
    with eq M0(2) show "take m (alog h' i) = take m M" by (auto simp: h')
  qed
  moreover have "later_candidates n h' T B"
    unfolding later_candidates_def
  proof (intro allI impI)
    fix i t m M v d L
    assume a: "open_prefix n h' T t m M" "m \<le> acc h' i t" "t < v" "(i, v, int d) \<in> B" "cand h' d v = Some L"
    from past [OF a(1)] a(2) acc_less [of i] obtain M0 where M0: "open_prefix n h T t m M0" "take m M = take m M0"
      by (auto simp: h')
    with a show "take m L = take m M" using history_okD(4) [OF ok M0(1)] by (auto simp: h')
  qed
  ultimately show "history_ok n h' T B" by (simp add: history_ok_def)
qed

section \<open>A peer adopts a leader's log\<close>

text \<open>
  A peer in the leader's term takes over the first \<open>m\<close> entries: it keeps its log when it has them
  already, since what follows may be acknowledged, and cuts it there otherwise.
\<close>

definition adopted :: "nat \<Rightarrow> 'c LogEntry list \<Rightarrow> 'c LogEntry list \<Rightarrow> 'c LogEntry list" where
  "adopted m M L = (if take m L = take m M then L else take m M)"

lemma take_adopted: "m \<le> length M \<Longrightarrow> take m (adopted m M L) = take m M"
  by (simp add: adopted_def)

text \<open>What the old log shares with the leader's log survives.\<close>

lemma adopted_keeps: "take k L = take k M \<Longrightarrow> take k (adopted m M L) = take k M"
  by (cases "k \<le> m") (auto simp: adopted_def dest: take_eq_mono [of k L M m])

lemma history_adopt:
  assumes ok: "history_ok n h T B" and i: "T i = u" "tlog h u = Some M" and m: "m \<le> length M"
    and h': "h' = h\<lparr>alog := (alog h)(i := adopted m M (alog h i)),
                    acc := (acc h)(i := (acc h i)(u := max (acc h i u) m))\<rparr>"
  shows "history_ok n h' T B" "grows h h'"
proof -
  note logs = history_okD(1) [OF ok]
  show ext: "grows h h'" by (auto simp: grows_def h')
  have g: "grounded h' L \<longleftrightarrow> grounded h L" for L by (simp add: grounded_def h')
  have past: "open_prefix n h T t k K" if "open_prefix n h' T t k K" for t k K
    using that by (rule open_prefix_past) (use i in \<open>auto simp: h' split: if_splits\<close>)
  have "grounded h (alog h' j) \<and> (\<forall>e \<in> set (alog h' j). Term e \<le> T j)" for j
    using logs_okD(1) [OF logs, of j] logs_okD(2) [OF logs, of _ j] grounded_take [OF logs_okD(3) [OF logs i(2)], of m]
      logs_okD(4) [OF logs i(2)] i(1) in_set_takeD [of _ m M]
    by (auto simp: h' adopted_def)
  moreover have "acc h' j t \<le> length K" if "tlog h' t = Some K" for j t K
    using that logs_okD(9) [OF logs, of t K j] i(2) m by (auto simp: h')
  moreover have "t \<le> T j \<and> tlog h' t \<noteq> None" if "0 < acc h' j t" for j t
    using that logs_okD(10,11) [OF logs, of j t] i by (auto simp: h' split: if_splits)
  ultimately have "logs_ok n h' T B"
    using logs unfolding logs_ok_def g by (simp add: h')
  moreover have "later_leaders n h' T"
    using past history_okD(2) [OF ok] unfolding later_leaders_def by (fastforce simp: h')
  moreover have "take k (alog h' j) = take k K" if op: "open_prefix n h' T t k K" "k \<le> acc h' j t" for j t k K
  proof (cases "j = i \<and> t = u \<and> acc h i u < k")
    case True
    then have "k \<le> m" "K = M" using op i(2) by (auto simp: h' open_prefix_def)
    with True take_adopted [OF m, of "alog h i"] show ?thesis by (auto simp: h' dest: take_eq_mono)
  next
    case False
    with op(2) have held: "take k (alog h j) = take k K"
      using history_okD(3) [OF ok past [OF op(1)], of j] by (auto simp: h' split: if_splits)
    have "take k K = take k M" if "j = i"
    proof -
      have "0 < acc h i t" using False that op by (auto simp: h' open_prefix_def split: if_splits)
      then have "t \<le> u" using logs_okD(10) [OF logs] i(1) by blast
      moreover have "K = M" if "t = u" using that op(1) i(2) by (simp add: open_prefix_def h')
      ultimately show ?thesis using history_okD(2) [OF ok past [OF op(1)] _ i(2)] by fastforce
    qed
    with held adopted_keeps [of k "alog h i" M m] show ?thesis by (auto simp: h')
  qed
  then have "holders n h' T" unfolding holders_def by blast
  moreover have "take k L = take k K"
    if op: "open_prefix n h' T t k K" "k \<le> acc h' j t" "t < v" "(j, v, int c) \<in> B" "cand h' c v = Some L"
    for j t k K v c L
  proof -
    have "\<not> (j = i \<and> t = u)" using op(3,4) logs_okD(12) [OF logs] i(1) by fastforce
    with op have "k \<le> acc h j t" by (auto simp: h' split: if_splits)
    with op history_okD(4) [OF ok past [OF op(1)]] show ?thesis by (simp add: h')
  qed
  then have "later_candidates n h' T B" unfolding later_candidates_def by blast
  ultimately show "history_ok n h' T B" by (simp add: history_ok_def)
qed

section \<open>What is committed\<close>

text \<open>A majority has acknowledged the first \<open>m\<close> entries of the leader of term \<open>t\<close>, the last of its own term.\<close>

definition committed :: "nat \<Rightarrow> 'c history \<Rightarrow> int \<Rightarrow> nat \<Rightarrow> 'c LogEntry list \<Rightarrow> bool" where
  "committed n h t m M \<longleftrightarrow> tlog h t = Some M \<and> 0 < m \<and> m \<le> length M \<and> Term (M ! (m - 1)) = t \<and>
     (\<exists>Q. majority n Q \<and> (\<forall>i \<in> Q. m \<le> acc h i t))"

lemma committed_open: "committed n h t m M \<Longrightarrow> open_prefix n h T t m M"
  by (auto simp: committed_def open_prefix_def choosable_def)

text \<open>The first \<open>k\<close> entries of a log are committed, in term \<open>u\<close> or before.\<close>

definition committed_prefix :: "nat \<Rightarrow> 'c history \<Rightarrow> int \<Rightarrow> nat \<Rightarrow> 'c LogEntry list \<Rightarrow> bool" where
  "committed_prefix n h u k L \<longleftrightarrow> k \<le> length L \<and>
     (k = 0 \<or> (\<exists>t m M. t \<le> u \<and> committed n h t m M \<and> k \<le> m \<and> take k L = take k M))"

text \<open>The entry at an index is chosen once it is part of a committed prefix.\<close>

definition chosen :: "nat \<Rightarrow> 'c history \<Rightarrow> nat \<Rightarrow> 'c LogEntry \<Rightarrow> bool" where
  "chosen n h k e \<longleftrightarrow> (\<exists>t m M. committed n h t m M \<and> k < m \<and> M ! k = e)"

lemma committed_mono:
  assumes "committed n h t m M" "grows h h'"
  obtains M' where "committed n h' t m M'" "take m M' = take m M"
proof -
  have tl: "tlog h t = Some M" "m \<le> length M" "0 < m" using assms(1) by (simp_all add: committed_def)
  obtain M' where M': "tlog h' t = Some M'" "length M \<le> length M'" "take m M' = take m M"
    using grows_tlog [OF assms(2) tl(1)] tl(2) by metis
  then have "M' ! (m - 1) = M ! (m - 1)" using take_eq_nth [of m M' M] tl by simp
  with M' tl assms have "committed n h' t m M'"
    unfolding committed_def grows_def by (metis le_trans)
  with M'(3) show ?thesis using that by blast
qed

lemma committed_prefix_mono:
  assumes "committed_prefix n h u k L" "grows h h'" "u \<le> u'"
  shows "committed_prefix n h' u' k L"
  using assms committed_mono [OF _ assms(2)] unfolding committed_prefix_def
  by (smt (verit) order_trans take_eq_mono)

lemma chosen_mono: "chosen n h k e \<Longrightarrow> grows h h' \<Longrightarrow> chosen n h' k e"
  unfolding chosen_def by (metis committed_mono nth_take)

text \<open>Committed prefixes agree, so at most one entry is chosen at an index.\<close>

lemma committed_agree:
  assumes ok: "history_ok n h T B" and c: "committed n h t m M" "committed n h t' m' M'" "k \<le> m" "k \<le> m'"
  shows "take k M = take k M'"
proof -
  have tl: "tlog h t = Some M" "tlog h t' = Some M'" using c by (simp_all add: committed_def)
  note op = committed_open [OF c(1), of T] committed_open [OF c(2), of T]
  consider "t < t'" | "t' < t" | "t = t'" by linarith
  then show ?thesis
  proof cases
    case 1
    then show ?thesis using history_okD(2) [OF ok op(1) _ tl(2)] c(3) by (metis take_eq_mono)
  next
    case 2
    then show ?thesis using history_okD(2) [OF ok op(2) _ tl(1)] c(4) by (metis take_eq_mono)
  qed (use tl in simp)
qed

lemma chosen_unique: "history_ok n h T B \<Longrightarrow> chosen n h k e \<Longrightarrow> chosen n h k e' \<Longrightarrow> e = e'"
  unfolding chosen_def using committed_agree [of n h T B _ _ _ _ _ _ "Suc k"] by (metis Suc_leI lessI nth_take)

lemma committed_prefix_chosen:
  assumes "committed_prefix n h u k L" "j < k"
  shows "chosen n h j (L ! j)"
  using assms unfolding committed_prefix_def chosen_def by (metis less_nat_zero_code nth_take order_less_le_trans)

text \<open>A committed prefix is in the log of every leader of its term and after.\<close>

lemma committed_prefix_leader:
  assumes ok: "history_ok n h T B" and c: "committed_prefix n h u k L" "u \<le> v" and M: "tlog h v = Some M"
  shows "take k L = take k M" "k \<le> length M"
proof -
  have "take k L = take k M \<and> k \<le> length M"
  proof (cases "k = 0")
    case False
    with c obtain t m K where K: "t \<le> u" "committed n h t m K" "k \<le> m" "take k L = take k K" "k \<le> length L"
      by (auto simp: committed_prefix_def)
    have op: "open_prefix n h T t m K" by (rule committed_open [OF K(2)])
    have "take m M = take m K"
    proof (cases "t = v")
      case True
      with op M show ?thesis by (simp add: open_prefix_def)
    qed (use history_okD(2) [OF ok op _ M] K(1) c(2) in simp)
    with K open_prefix_term(1) [OF op] show ?thesis by (metis le_trans take_eq_mono)
  qed simp
  then show "take k L = take k M" "k \<le> length M" by simp_all
qed

end
