(* ===== verification/RaftCompact.thy ===== *)
theory RaftCompact
  imports RaftHistory
begin

text \<open>
  The compacted log of \<open>raftlog.go\<close> represents a full log and a position up to which it has been
  compacted. Every operation of the Go type is an operation on the full log: appending, cutting and
  reading act on the same index, compaction changes the position only, and the two ways a follower
  takes over a leader's entries (the splice of AppendEntries and InstallSnapshot) both amount to
  adopting a prefix of the leader's log.
\<close>

definition compact :: "nat \<Rightarrow> 'c LogEntry list \<Rightarrow> 'c raftLog" where
  "compact s L = \<lparr>entries = dummy_entry (term_of L s) # drop s L, snapIndex = int s, snapTerm = term_of L s\<rparr>"

lemma compact_fields [simp]:
  "snapIndex (compact s L) = int s" "snapTerm (compact s L) = term_of L s" "wf_log (compact s L)"
  by (simp_all add: compact_def wf_log_def)

lemma compact_new: "newRaftLog = compact 0 []"
  by (simp add: compact_def newRaftLog_def term_of_def)

lemma compact_log_len [simp]: "s \<le> length L \<Longrightarrow> log_len (compact s L) = int (length L) + 1"
  by (simp add: compact_def log_len_def)

lemma compact_log_entry:
  assumes "s \<le> length L"
  shows "log_entry (compact s L) i =
    (if i = int s then Some (dummy_entry (term_of L s))
     else if int s < i \<and> i \<le> int (length L) then Some (L ! nat (i - 1)) else None)"
proof -
  have "s + nat (i - int s) - Suc 0 = nat (i - 1)" if "int s < i" using that by simp
  with assms show ?thesis
    by (auto simp: log_entry_def compact_def go_index_Cons go_index_def)
qed

lemma compact_term_at:
  assumes "s \<le> length L"
  shows "term_at (compact s L) i =
    (if int s \<le> i \<and> i \<le> int (length L) then Some (term_of L (nat i)) else None)"
  using assms by (auto simp: term_at_def compact_log_entry term_of_def nat_diff_distrib')

lemma compact_last_pos: "s \<le> length L \<Longrightarrow> last_pos (compact s L) = log_end L"
  using last_conv_nth [of L]
  by (auto simp: last_pos_def log_end_def lastIndex_def term_of_def compact_def log_len_def last_drop)

lemma term_of_append: "k \<le> length L \<Longrightarrow> term_of (L @ es) k = term_of L k"
  by (auto simp: term_of_def nth_append)

lemma term_of_take: "k \<le> m \<Longrightarrow> term_of (take m L) k = term_of L k"
  by (auto simp: term_of_def)

lemma term_of_cong: "take k L = take k M \<Longrightarrow> term_of L k = term_of M k"
  by (metis order_refl term_of_take)

lemma compact_append: "s \<le> length L \<Longrightarrow> log_append (compact s L) es = compact s (L @ es)"
  by (simp add: log_append_def compact_def term_of_append)

lemma compact_truncate:
  assumes "s \<le> k" "k \<le> length L"
  shows "truncateTo (compact s L) (int k + 1) = Some (compact s (take k L))"
proof -
  have "nat (max (int k + 1 - int s) 1) = Suc (k - s)" using assms(1) by simp
  with assms show ?thesis
    by (simp add: truncateTo_eq_Some) (simp add: compact_def term_of_take drop_take)
qed

lemma compact_snapshotAt:
  assumes "s \<le> k" "k \<le> length L"
  shows "snapshotAt (compact s L) (int k) = Some (compact k L)"
proof -
  have "nat (int k + 1 - int s) = Suc (k - s)" using assms(1) by simp
  with assms show ?thesis
    by (auto simp: snapshotAt_eq_Some compact_log_entry) (auto simp: compact_def term_of_def nat_diff_distrib)
qed

text \<open>Two grounded logs share a prefix exactly when both have its last entry with the same term.\<close>

lemma shares_prefix_iff:
  assumes "grounded h L" "grounded h M" "k \<le> length M"
  shows "take k L = take k M \<longleftrightarrow> k \<le> length L \<and> term_of L k = term_of M k"
  using assms grounded_agree [OF assms(1,2), of k] take_eq_nth [of k L M] term_of_cong by blast

lemma compact_installSnapshot:
  assumes "s \<le> length L" "s < k" "k \<le> length M" "grounded h L" "grounded h M"
  shows "installSnapshot (compact s L) (int k) (term_of M k) = Some (compact k (adopted k M L))"
proof (cases "take k L = take k M")
  case True
  with assms have "k \<le> length L" "term_of L k = term_of M k" by (simp_all add: shares_prefix_iff [OF assms(4,5,3)])
  with assms True show ?thesis
    by (simp add: installSnapshot_eq compact_term_at compact_snapshotAt adopted_def)
next
  case False
  with assms have "term_at (compact s L) (int k) \<noteq> Some (term_of M k)"
    by (auto simp: compact_term_at shares_prefix_iff [OF assms(4,5,3)])
  with assms False show ?thesis
    by (simp add: installSnapshot_eq adopted_def) (simp add: compact_def term_of_take)
qed

text \<open>The entries of an AppendEntries request are a segment of the leader's log.\<close>

definition segment :: "nat \<Rightarrow> 'c LogEntry list \<Rightarrow> 'c LogEntry list \<Rightarrow> bool" where
  "segment p es M \<longleftrightarrow> (\<exists>xs ys. M = xs @ es @ ys \<and> length xs = p)"

lemma segment_length: "segment p es M \<Longrightarrow> p + length es \<le> length M"
  by (auto simp: segment_def)

lemma segment_nth: "segment p es M \<Longrightarrow> k < length es \<Longrightarrow> es ! k = M ! (p + k)"
  by (auto simp: segment_def nth_append)

lemma segment_mono: "segment p es M \<Longrightarrow> take (length M) M' = M \<Longrightarrow> segment p es M'"
  unfolding segment_def by (metis append_assoc append_take_drop_id)

lemma take_segment: "segment p es M \<Longrightarrow> m \<le> length es \<Longrightarrow> take (p + m) M @ drop m es = take (p + length es) M"
  by (auto simp: segment_def)

lemma compact_merged:
  assumes s: "s \<le> p" "p \<le> length L" and g: "grounded h L" "grounded h M" and seg: "segment p es M"
    and start: "take p L = take p M" and m: "m \<le> length es"
    and match: "\<And>k. k < m \<Longrightarrow> term_at (compact s L) (int p + 1 + int k) = Some (Term (es ! k))"
    and stop: "m < length es \<Longrightarrow> term_at (compact s L) (int p + 1 + int m) \<noteq> Some (Term (es ! m))"
    and merged: "merged (compact s L) (int p) es m l'"
  shows "l' = compact s (adopted (p + length es) M L)"
proof -
  have sL: "s \<le> length L" using s by simp
  have len: "p + length es \<le> length M" by (rule segment_length [OF seg])
  have at: "term_at (compact s L) (int p + 1 + int k) = Some (Term (es ! k)) \<longleftrightarrow>
      p + Suc k \<le> length L \<and> term_of L (p + Suc k) = term_of M (p + Suc k)" if "k < length es" for k
    using s that segment_nth [OF seg that]
    by (auto simp: compact_term_at [OF sL] term_of_def nat_add_distrib)
  have sharing: "take (p + m) L = take (p + m) M"
  proof (cases m)
    case (Suc j)
    with match [of j] at [of j] m have "p + m \<le> length L \<and> term_of L (p + m) = term_of M (p + m)" by simp
    then show ?thesis using shares_prefix_iff [OF g, of "p + m"] len m by simp
  qed (use start in simp)
  have pm: "p + m \<le> length L" using sharing take_eq_nth [of "p + m" L M] len m by simp
  show ?thesis
  proof (cases "m < length es")
    case False
    with sharing m merged show ?thesis by (simp add: merged_def adopted_def)
  next
    case True
    with stop at [of m] have "\<not> (p + Suc m \<le> length L \<and> term_of L (p + Suc m) = term_of M (p + Suc m))" by simp
    then have "take (p + Suc m) L \<noteq> take (p + Suc m) M"
      using shares_prefix_iff [OF g, of "p + Suc m"] len True by simp
    then have differ: "take (p + length es) L \<noteq> take (p + length es) M"
      using True by (meson take_eq_mono nat_add_left_cancel_le Suc_leI)
    have "truncateTo (compact s L) (int p + 1 + int m) = Some (compact s (take (p + m) L))"
      using compact_truncate [of s "p + m" L] s pm by (simp add: algebra_simps)
    with True merged have "l' = log_append (compact s (take (p + m) L)) (drop m es)"
      by (simp add: merged_def)
    also have "\<dots> = compact s (take (p + m) M @ drop m es)"
      using s pm len by (simp add: compact_append sharing)
    finally show ?thesis using differ take_segment [OF seg m] by (simp add: adopted_def)
  qed
qed

text \<open>A leader's log, from some index on, is a segment of the full log.\<close>

lemma compact_since:
  assumes "s < k" "k \<le> length L + 1"
  shows "log_since (compact s L) (int k) = drop (k - 1) L"
proof -
  have "nat (int k - int s) = Suc (k - 1 - s)" using assms(1) by simp
  with assms show ?thesis by (auto simp: log_since_def compact_def Let_def)
qed

lemma segment_drop: "k \<le> length L \<Longrightarrow> segment k (drop k L) L"
  unfolding segment_def by (intro exI [of _ "take k L"] exI [of _ "[]"]) simp

end
