(* ===== verification/RaftSafety.thy ===== *)
theory RaftSafety
  imports RaftCompact
begin

text \<open>
  The invariant that ties a cluster to its history: every peer's compacted log represents its full
  log, what a peer believes committed is committed, a leader's log is the log of its term and its
  \<open>matchIndex\<close> is covered by acknowledgements, requests and replies in flight speak about the logs
  they were built from, and every command handed to a service is chosen. Each critical section of
  the code is one event of the history or none.
\<close>

section \<open>The invariant\<close>

definition peer_ok :: "nat \<Rightarrow> 'c history \<Rightarrow> nat \<Rightarrow> ('c, 'b) Raft \<Rightarrow> bool" where
  "peer_ok n h i rf \<longleftrightarrow> wf_raft rf \<and> 0 \<le> CurrentTerm rf \<and> nat (snapIndex (rf_log rf)) \<le> length (alog h i) \<and>
     rf_log rf = compact (nat (snapIndex (rf_log rf))) (alog h i) \<and>
     committed_prefix n h (CurrentTerm rf) (nat (commitIndex rf)) (alog h i) \<and>
     (rf_Role rf \<noteq> Follower \<longrightarrow> 1 \<le> CurrentTerm rf) \<and>
     (rf_Role rf = Leader \<longrightarrow> tlog h (CurrentTerm rf) = Some (alog h i) \<and>
        length (alog h i) \<le> acc h i (CurrentTerm rf) \<and>
        (\<forall>p < n. snapIndex (rf_log rf) < matchIndex rf ! p \<longrightarrow>
           matchIndex rf ! p \<le> int (acc h p (CurrentTerm rf)))) \<and>
     (rf_Role rf = Candidate \<longrightarrow> cand h i (CurrentTerm rf) = Some (alog h i))"

definition append_ok :: "nat \<Rightarrow> 'c history \<Rightarrow> 'c AppendEntriesArgs \<Rightarrow> int \<Rightarrow> bool" where
  "append_ok n h a t \<longleftrightarrow> aea_Term a = t \<and> (\<exists>M p lc. tlog h t = Some M \<and> aea_PrevLogIndex a = int p \<and>
     aea_PrevLogTerm a = term_of M p \<and> segment p (aea_Entries a) M \<and> aea_LeaderCommit a = int lc \<and>
     lc \<le> p + length (aea_Entries a) \<and> committed_prefix n h t lc M)"

definition install_ok :: "nat \<Rightarrow> 'c history \<Rightarrow> 'b InstallSnapshotArgs \<Rightarrow> int \<Rightarrow> bool" where
  "install_ok n h a t \<longleftrightarrow> isa_Term a = t \<and> (\<exists>M k. tlog h t = Some M \<and> isa_LastIncludedIndex a = int k \<and>
     isa_LastIncludedTerm a = term_of M k \<and> committed_prefix n h t k M)"

fun vote_ok :: "'c history \<Rightarrow> nat \<Rightarrow> vote_call \<Rightarrow> bool" where
  "vote_ok h c (VSent args t) \<longleftrightarrow>
     (\<exists>L. cand h c t = Some L \<and> LogPos (rva_LastLogTerm args) (rva_LastLogIndex args) = log_end L)"
| "vote_ok h c _ = True"

fun rep_ok :: "nat \<Rightarrow> 'c history \<Rightarrow> nat \<Rightarrow> ('c, 'b) rep_call \<Rightarrow> bool" where
  "rep_ok n h p (RSentAE a t) = append_ok n h a t"
| "rep_ok n h p (RGotAE a t r) \<longleftrightarrow>
     (aer_Success r \<longrightarrow> aea_PrevLogIndex a + int (length (aea_Entries a)) \<le> int (acc h p t))"
| "rep_ok n h p (RSentIS a t) = install_ok n h a t"
| "rep_ok n h p (RGotIS a t r) \<longleftrightarrow> (isr_Term r \<le> t \<longrightarrow> isa_LastIncludedIndex a \<le> int (acc h p t))"
| "rep_ok n h p _ = True"

definition message_ok :: "nat \<Rightarrow> 'c history \<Rightarrow> ('c, 'b) ApplyMsg \<Rightarrow> bool" where
  "message_ok n h m \<longleftrightarrow> (CommandValid m \<longrightarrow>
     (\<exists>k e. CommandIndex m = int k + 1 \<and> chosen n h k e \<and> am_Command m = Command e))"

text \<open>The goroutines and the messages of a cluster.\<close>

definition traffic_ok :: "nat \<Rightarrow> 'c history \<Rightarrow> ('c, 'b) cluster \<Rightarrow> bool" where
  "traffic_ok n h s \<longleftrightarrow>
     (\<forall>el \<in> set (elections s). \<forall>p. vote_ok h (el_owner el) (vcalls el p)) \<and>
     (\<forall>rp \<in> set (replicators s). rep_ok n h (rp_peer rp) (rp_call rp)) \<and>
     (\<forall>i. \<forall>m \<in> set (delivered s i). message_ok n h m)"

text \<open>The leader of a term has been elected and is no longer a candidate in that term.\<close>

definition led :: "nat \<Rightarrow> 'c history \<Rightarrow> ('c, 'b) cluster \<Rightarrow> bool" where
  "led n h s \<longleftrightarrow> (\<forall>t. tlog h t \<noteq> None \<longrightarrow> (\<exists>c < n. backed n (ballots s) t c \<and>
     t \<le> CurrentTerm (nodes s c) \<and>
     (CurrentTerm (nodes s c) = t \<longrightarrow> rf_Role (nodes s c) \<noteq> Candidate)))"

definition cluster_ok :: "nat \<Rightarrow> 'c history \<Rightarrow> ('c, 'b) cluster \<Rightarrow> bool" where
  "cluster_ok n h s \<longleftrightarrow> history_ok n h (\<lambda>i. CurrentTerm (nodes s i)) (ballots s) \<and>
     (\<forall>i < n. peer_ok n h i (nodes s i)) \<and> led n h s \<and> traffic_ok n h s"

section \<open>Growing the history\<close>

lemma committed_prefix_cong:
  "committed_prefix n h u k L \<Longrightarrow> take k L' = take k L \<Longrightarrow> committed_prefix n h u k L'"
  unfolding committed_prefix_def using take_eq_nth [of k L' L] by auto

lemma committed_prefix_le: "committed_prefix n h u k L \<Longrightarrow> j \<le> k \<Longrightarrow> committed_prefix n h u j L"
  unfolding committed_prefix_def by (auto dest: take_eq_mono intro: le_trans)

lemma append_ok_mono:
  assumes "append_ok n h a t" "grows h h'"
  shows "append_ok n h' a t"
proof -
  obtain M p lc where a: "aea_Term a = t" "tlog h t = Some M" "aea_PrevLogIndex a = int p"
    "aea_PrevLogTerm a = term_of M p" "segment p (aea_Entries a) M" "aea_LeaderCommit a = int lc"
    "lc \<le> p + length (aea_Entries a)" "committed_prefix n h t lc M"
    using assms(1) unfolding append_ok_def by blast
  obtain M' where M': "tlog h' t = Some M'" "length M \<le> length M'" "\<forall>k \<le> length M. take k M' = take k M"
    by (rule grows_tlog [OF assms(2) a(2)])
  have len: "p + length (aea_Entries a) \<le> length M" by (rule segment_length [OF a(5)])
  then have "term_of M' p = term_of M p" "take lc M' = take lc M" "segment p (aea_Entries a) M'"
    using a(5,7) M'(3) segment_mono [OF a(5), of M'] by (auto intro!: term_of_cong)
  moreover have "committed_prefix n h' t lc M" by (rule committed_prefix_mono [OF a(8) assms(2) order_refl])
  ultimately show ?thesis
    unfolding append_ok_def using a M'(1) committed_prefix_cong by metis
qed

lemma install_ok_mono:
  assumes "install_ok n h a t" "grows h h'"
  shows "install_ok n h' a t"
proof -
  obtain M k where a: "isa_Term a = t" "tlog h t = Some M" "isa_LastIncludedIndex a = int k"
    "isa_LastIncludedTerm a = term_of M k" "committed_prefix n h t k M"
    using assms(1) unfolding install_ok_def by blast
  obtain M' where M': "tlog h' t = Some M'" "length M \<le> length M'" "\<forall>k \<le> length M. take k M' = take k M"
    by (rule grows_tlog [OF assms(2) a(2)])
  have "k \<le> length M" using a(5) by (simp add: committed_prefix_def)
  then have eq: "take k M' = take k M" using M'(3) by blast
  have "committed_prefix n h' t k M" by (rule committed_prefix_mono [OF a(5) assms(2) order_refl])
  with eq a M'(1) show ?thesis
    unfolding install_ok_def using committed_prefix_cong term_of_cong by metis
qed

lemma grows_acc: "grows h h' \<Longrightarrow> acc h i t \<le> acc h' i t"
  by (simp add: grows_def)

lemma rep_ok_mono: "rep_ok n h p rc \<Longrightarrow> grows h h' \<Longrightarrow> rep_ok n h' p rc"
  by (cases rc) (auto intro: append_ok_mono install_ok_mono dest: grows_acc [where h = h and h' = h', THEN of_nat_mono] order_trans)

lemma vote_ok_mono: "vote_ok h c vc \<Longrightarrow> grows h h' \<Longrightarrow> vote_ok h' c vc"
  by (cases vc) (auto simp: grows_def)

lemma message_ok_mono: "message_ok n h m \<Longrightarrow> grows h h' \<Longrightarrow> message_ok n h' m"
  unfolding message_ok_def using chosen_mono by blast

lemma traffic_ok_mono: "traffic_ok n h s \<Longrightarrow> grows h h' \<Longrightarrow> traffic_ok n h' s"
  unfolding traffic_ok_def using vote_ok_mono rep_ok_mono message_ok_mono by blast

lemma peer_ok_mono:
  assumes "peer_ok n h i rf" "grows h h'" "alog h' i = alog h i"
    and "rf_Role rf = Leader \<Longrightarrow> tlog h' (CurrentTerm rf) = tlog h (CurrentTerm rf)"
  shows "peer_ok n h' i rf"
proof -
  have "committed_prefix n h' (CurrentTerm rf) (nat (commitIndex rf)) (alog h i)"
    using assms(1) by (auto simp: peer_ok_def intro: committed_prefix_mono [OF _ assms(2)])
  moreover have "matchIndex rf ! p \<le> int (acc h' p t)" if "matchIndex rf ! p \<le> int (acc h p t)" for p t
    using that grows_acc [OF assms(2), of p t] by simp
  moreover have "cand h i t = Some L \<longrightarrow> cand h' i t = Some L" for t L using assms(2) by (simp add: grows_def)
  ultimately show ?thesis
    using assms(1,3,4) grows_acc [OF assms(2), of i "CurrentTerm rf"] unfolding peer_ok_def by auto
qed

section \<open>Traffic\<close>

lemma delivered_frames [simp]:
  "delivered (set_node i rf s) = delivered s" "delivered (set_vcall e p vc s) = delivered s"
  "delivered (set_votes e v s) = delivered s" "delivered (set_rcall k rc s) = delivered s"
  by (simp_all add: set_node_def set_vcall_def set_votes_def set_rcall_def)

lemma traffic_ok_frames [simp]:
  "traffic_ok n h (set_node i rf s) = traffic_ok n h s"
  "traffic_ok n h (set_votes e v s) = traffic_ok n h s"
  "traffic_ok n h (s\<lparr>timeouts := ts\<rparr>) = traffic_ok n h s"
  "traffic_ok n h (s\<lparr>heartbeats := hs\<rparr>) = traffic_ok n h s"
  by (simp_all add: traffic_ok_def all_set_conv_all_nth)

lemma traffic_ok_vcall:
  "traffic_ok n h s \<Longrightarrow> e < length (elections s) \<Longrightarrow> vote_ok h (el_owner (elections s ! e)) vc \<Longrightarrow>
    traffic_ok n h (set_vcall e p vc s)"
  unfolding traffic_ok_def set_vcall_def
  by (auto dest!: set_update_subset_insert [THEN subsetD])

lemma traffic_ok_rcall:
  "traffic_ok n h s \<Longrightarrow> k < length (replicators s) \<Longrightarrow> rep_ok n h (rp_peer (replicators s ! k)) rc \<Longrightarrow>
    traffic_ok n h (set_rcall k rc s)"
  unfolding traffic_ok_def set_rcall_def
  by (auto dest!: set_update_subset_insert [THEN subsetD])

lemma traffic_ok_deliver:
  "traffic_ok n h s \<Longrightarrow> \<forall>m \<in> set ms. message_ok n h m \<Longrightarrow> traffic_ok n h (deliver i ms s)"
  by (auto simp: traffic_ok_def deliver_def)

lemma traffic_ok_kill: "traffic_ok n h s \<Longrightarrow> traffic_ok n h (kill_goroutines i s)"
  by (auto simp: traffic_ok_def kill_goroutines_def)

lemma traffic_okD:
  assumes "traffic_ok n h s"
  shows "e < length (elections s) \<Longrightarrow> vote_ok h (el_owner (elections s ! e)) (vcalls (elections s ! e) p)"
    "k < length (replicators s) \<Longrightarrow> rep_ok n h (rp_peer (replicators s ! k)) (rp_call (replicators s ! k))"
    "m \<in> set (delivered s i) \<Longrightarrow> message_ok n h m"
  using assms nth_mem unfolding traffic_ok_def by blast+

section \<open>One peer moves\<close>

lemma cluster_ok_move:
  assumes ok: "cluster_ok n h s" and i: "i < n" and ext: "grows h h'"
    and s': "nodes s' = (nodes s)(i := rf')" "ballots s \<subseteq> ballots s'"
    and hist: "history_ok n h' ((\<lambda>j. CurrentTerm (nodes s j))(i := CurrentTerm rf')) (ballots s')"
    and others: "\<And>j. j \<noteq> i \<Longrightarrow> alog h' j = alog h j"
    and leads: "\<And>t. tlog h' t = tlog h t \<or> t = CurrentTerm rf' \<and> rf_Role rf' = Leader"
    and peer: "peer_ok n h' i rf'"
    and cand: "rf_Role rf' = Candidate \<Longrightarrow> CurrentTerm rf' = CurrentTerm (nodes s i) \<Longrightarrow> rf_Role (nodes s i) = Candidate"
    and up: "CurrentTerm (nodes s i) \<le> CurrentTerm rf'" 
    and new: "leaders_ok n s'" "peers_ok n s'" and traffic: "traffic_ok n h' s'"
  shows "cluster_ok n h' s'"
proof -
  have T': "(\<lambda>j. CurrentTerm (nodes s' j)) = (\<lambda>j. CurrentTerm (nodes s j))(i := CurrentTerm rf')"
    by (auto simp: s')
  have lead_i: "backed n (ballots s') (CurrentTerm rf') i" if "rf_Role rf' = Leader"
    using that new(1) i by (auto simp: leaders_ok_def s')
  have "peer_ok n h' j (nodes s' j)" if j: "j < n" for j
  proof (cases "j = i")
    case False
    have "tlog h' (CurrentTerm (nodes s j)) = tlog h (CurrentTerm (nodes s j))" if "rf_Role (nodes s j) = Leader"
    proof (rule ccontr)
      assume "tlog h' (CurrentTerm (nodes s j)) \<noteq> tlog h (CurrentTerm (nodes s j))"
      with leads have l: "CurrentTerm (nodes s j) = CurrentTerm rf'" "rf_Role rf' = Leader" by blast+
      have "backed n (ballots s') (CurrentTerm (nodes s j)) j"
        using that new(1) j False by (auto simp: leaders_ok_def s')
      with lead_i [OF l(2)] l(1) backed_unique [OF new(2)] False show False by metis
    qed
    moreover have "peer_ok n h j (nodes s j)" using ok j by (simp add: cluster_ok_def)
    ultimately have "peer_ok n h' j (nodes s j)" using peer_ok_mono [OF _ ext others [OF False]] by blast
    with False show ?thesis by (simp add: s')
  qed (use peer s' in simp)
  moreover have "led n h' s'"
    unfolding led_def
  proof (intro allI impI)
    fix t
    assume t: "tlog h' t \<noteq> None"
    show "\<exists>c < n. backed n (ballots s') t c \<and> t \<le> CurrentTerm (nodes s' c) \<and>
        (CurrentTerm (nodes s' c) = t \<longrightarrow> rf_Role (nodes s' c) \<noteq> Candidate)"
    proof (cases "tlog h' t = tlog h t")
      case True
      with t ok obtain c where c: "c < n" "backed n (ballots s) t c" "t \<le> CurrentTerm (nodes s c)"
        "CurrentTerm (nodes s c) = t \<longrightarrow> rf_Role (nodes s c) \<noteq> Candidate"
        by (auto simp: cluster_ok_def led_def)
      with backed_mono [OF c(2) s'(2)] cand up show ?thesis by (intro exI [of _ c]) (auto simp: s')
    next
      case False
      with leads [of t] lead_i i show ?thesis by (intro exI [of _ i]) (auto simp: s')
    qed
  qed
  ultimately show ?thesis using hist traffic by (simp add: cluster_ok_def T')
qed

text \<open>A step of the scheduler that leaves the peers alone.\<close>

lemma cluster_ok_idle:
  "cluster_ok n h s \<Longrightarrow> nodes s' = nodes s \<Longrightarrow> ballots s' = ballots s \<Longrightarrow> traffic_ok n h s' \<Longrightarrow> cluster_ok n h s'"
  by (simp add: cluster_ok_def led_def)

end
