(* ===== verification/RaftEvents.thy ===== *)
theory RaftEvents
  imports RaftSafety
begin

text \<open>
  The critical sections of a peer as events of the history. For each handler, callback and service
  call there is a history after it in which the peer is consistent again and in which what the
  section sends, answers or delivers is true.
\<close>

section \<open>Events\<close>

definition event ::
  "nat \<Rightarrow> 'c history \<Rightarrow> (nat \<Rightarrow> int) \<Rightarrow> (nat \<times> int \<times> int) set \<Rightarrow> nat \<Rightarrow> ('c, 'b) Raft \<Rightarrow> 'c history \<Rightarrow> bool" where
  "event n h T B i rf' h' \<longleftrightarrow> grows h h' \<and> history_ok n h' (T(i := CurrentTerm rf')) B \<and>
     (\<forall>j. j \<noteq> i \<longrightarrow> alog h' j = alog h j) \<and>
     (\<forall>t. tlog h' t = tlog h t \<or> t = CurrentTerm rf' \<and> rf_Role rf' = Leader) \<and> peer_ok n h' i rf'"

lemma eventI_quiet:
  assumes "history_ok n h T B" "T i \<le> CurrentTerm rf'" "peer_ok n h i rf'"
  shows "event n h T B i rf' h"
  unfolding event_def using assms history_raise [OF assms(1), of "T(i := CurrentTerm rf')"] by auto

lemma peer_okD:
  assumes "peer_ok n h i rf"
  shows "wf_raft rf" "wf_log (rf_log rf)" "0 \<le> snapIndex (rf_log rf)" "commit_in_log rf"
    "nat (snapIndex (rf_log rf)) \<le> length (alog h i)"
    "rf_log rf = compact (nat (snapIndex (rf_log rf))) (alog h i)"
    "committed_prefix n h (CurrentTerm rf) (nat (commitIndex rf)) (alog h i)"
    "snapIndex (rf_log rf) \<le> commitIndex rf" "nat (commitIndex rf) \<le> length (alog h i)"
    "log_len (rf_log rf) = int (length (alog h i)) + 1"
proof -
  show 1: "wf_raft rf" "wf_log (rf_log rf)" "0 \<le> snapIndex (rf_log rf)"
    "nat (snapIndex (rf_log rf)) \<le> length (alog h i)"
    "rf_log rf = compact (nat (snapIndex (rf_log rf))) (alog h i)"
    "committed_prefix n h (CurrentTerm rf) (nat (commitIndex rf)) (alog h i)"
    using assms by (simp_all add: peer_ok_def wf_raft_def)
  show "snapIndex (rf_log rf) \<le> commitIndex rf" using 1(1) by (simp add: wf_raft_def)
  show ci: "nat (commitIndex rf) \<le> length (alog h i)" using 1(6) by (simp add: committed_prefix_def)
  show len: "log_len (rf_log rf) = int (length (alog h i)) + 1"
    using compact_log_len [OF 1(4)] 1(5) by simp
  show "commit_in_log rf" using ci len by (simp add: commit_in_log_def)
qed

lemma peer_ok_same:
  assumes "peer_ok n h i rf" "wf_raft rf'" "rf_log rf' = rf_log rf" "commitIndex rf' = commitIndex rf"
    and "CurrentTerm rf' = CurrentTerm rf" "rf_Role rf' = rf_Role rf" "matchIndex rf' = matchIndex rf"
  shows "peer_ok n h i rf'"
  using assms unfolding peer_ok_def by simp

lemma peer_ok_follower:
  assumes "peer_ok n h i rf" "wf_raft rf'" "rf_log rf' = rf_log rf" "commitIndex rf' = commitIndex rf"
    and "CurrentTerm rf \<le> CurrentTerm rf'" "rf_Role rf' = Follower"
  shows "peer_ok n h i rf'"
  using assms committed_prefix_mono [OF _ grows_refl assms(5)] unfolding peer_ok_def by auto

section \<open>Votes\<close>

lemma vote_event:
  assumes hist: "history_ok n h T B" and T: "T i = CurrentTerm rf" and peer: "peer_ok n h i rf"
    and vote: "RequestVote now args rf = Some (rf', reply)"
    and args: "rva_CandidateID args = int c" "vote_ok h c (VSent args (rva_Term args))"
    and B: "ballot_of i rf \<subseteq> B"
  shows "event n h T (B \<union> ballot_of i rf') i rf' h"
proof -
  note p = peer_okD [OF peer]
  have wf': "wf_raft rf'" by (rule wf_RequestVote(1) [OF vote p(1)])
  obtain L where L: "cand h c (rva_Term args) = Some L"
    "LogPos (rva_LastLogTerm args) (rva_LastLogIndex args) = log_end L"
    using args(2) by auto
  from vote p(2) show ?thesis
  proof (cases rule: RequestVote_cases)
    case stale
    with hist peer T B show ?thesis by (intro eventI_quiet) (simp_all add: sup.absorb1)
  next
    case (fresh v)
    have peer': "peer_ok n h i rf'"
      using peer_ok_same [OF peer wf'] peer_ok_follower [OF peer wf'] fresh by (auto split: if_splits)
    have up: "history_ok n h (T(i := rva_Term args)) B"
      by (rule history_raise [OF hist]) (use fresh(1) T in auto)
    show ?thesis
    proof (cases "rvr_VoteGranted reply")
      case False
      with fresh B have "ballot_of i rf' \<subseteq> B" by (auto simp: ballot_of_def split: if_splits)
      with up peer' fresh(5) show ?thesis by (auto simp: event_def sup.absorb1)
    next
      case True
      then have "log_end (alog h i) \<le> log_end L"
        using fresh(3) L(2) compact_last_pos [OF p(5)] p(6) by simp
      then have "history_ok n h (T(i := rva_Term args)) (insert (i, rva_Term args, int c) B)"
        by (intro history_vote [OF up L(1)]) simp_all
      moreover have "ballot_of i rf' = {(i, rva_Term args, int c)}"
        using fresh True args(1) by (simp add: ballot_of_def)
      ultimately show ?thesis using peer' fresh(5) by (simp add: event_def)
    qed
  qed
qed

lemma campaign_event:
  assumes hist: "history_ok n h T B" and T: "T i = CurrentTerm rf" and peer: "peer_ok n h i rf"
    and me: "me rf = i" and rf': "rf' = startElection now r rf"
  shows "\<exists>h'. event n h T (B \<union> ballot_of i rf') i rf' h'"
proof -
  define h' where "h' = h\<lparr>cand := (cand h)(i := (cand h i)(CurrentTerm rf' := Some (alog h i)))\<rparr>"
  note p = peer_okD [OF peer]
  have camp: "history_ok n h' (T(i := CurrentTerm rf')) (insert (i, CurrentTerm rf', int i) B)" "grows h h'"
    by (rule history_campaign [OF hist refl _ h'_def]; simp add: T rf')+
  have b: "ballot_of i rf' = {(i, CurrentTerm rf', int i)}" by (simp add: ballot_of_def rf' me)
  have "committed_prefix n h' (CurrentTerm rf') (nat (commitIndex rf)) (alog h i)"
    by (rule committed_prefix_mono [OF p(7) camp(2)]) (simp add: rf')
  moreover have "alog h' = alog h" "tlog h' = tlog h" "cand h' i (CurrentTerm rf') = Some (alog h i)"
    by (simp_all add: h'_def)
  moreover have "wf_raft rf'" using wf_startElection [OF p(1)] rf' by simp
  ultimately have "peer_ok n h' i rf'"
    using peer rf' unfolding peer_ok_def by auto
  with camp b show ?thesis by (intro exI [of _ h']) (auto simp: event_def h'_def)
qed

text \<open>A leader acknowledges its own log.\<close>

lemma history_self:
  assumes ok: "history_ok n h T B" and i: "T i = u" "tlog h u = Some (alog h i)"
    and h': "h' = h\<lparr>acc := (acc h)(i := (acc h i)(u := max (acc h i u) (length (alog h i))))\<rparr>"
  shows "history_ok n h' T B" "grows h h'"
proof -
  have eq: "h' = h\<lparr>alog := (alog h)(i := adopted (length (alog h i)) (alog h i) (alog h i)),
      acc := (acc h)(i := (acc h i)(u := max (acc h i u) (length (alog h i))))\<rparr>"
    by (simp add: h' adopted_def)
  show "history_ok n h' T B" "grows h h'" using history_adopt [OF ok i order_refl eq] by simp_all
qed

lemma win_event:
  assumes hist: "history_ok n h T B" and T: "T i = CurrentTerm rf" and peer: "peer_ok n h i rf"
    and cand: "rf_Role rf = Candidate" and new: "tlog h (CurrentTerm rf) = None"
    and b: "backed n B (CurrentTerm rf) i" and np: "npeers rf = n"
    and rf': "rf' = rf\<lparr>rf_Role := Leader, nextIndex := replicate (npeers rf) (log_len (rf_log rf)),
         matchIndex := replicate (npeers rf) (snapshotIndex (rf_log rf))\<rparr>" and wf': "wf_raft rf'"
  shows "\<exists>h'. event n h T B i rf' h'"
proof -
  let ?t = "CurrentTerm rf" and ?L = "alog h i"
  have cand: "cand h i ?t = Some ?L" "1 \<le> ?t" using peer cand by (simp_all add: peer_ok_def)
  define h1 where "h1 = h\<lparr>tlog := (tlog h)(?t := Some ?L)\<rparr>"
  define h' where "h' = h1\<lparr>acc := (acc h1)(i := (acc h1 i)(?t := max (acc h1 i ?t) (length (alog h1 i))))\<rparr>"
  have h1: "history_ok n h1 T B" "grows h h1" using history_elect [OF hist b cand(1) new h1_def] by simp_all
  have h': "history_ok n h' T B" "grows h1 h'"
    using history_self [OF h1(1) T _ h'_def] by (simp_all add: h1_def)
  have ext: "grows h h'" using grows_trans [OF h1(2) h'(2)] .
  have fields: "alog h' = alog h" "tlog h' = (tlog h)(?t := Some ?L)" "length ?L \<le> acc h' i ?t" "cand h' = cand h"
    by (simp_all add: h'_def h1_def)
  have "committed_prefix n h' ?t (nat (commitIndex rf)) ?L"
    by (rule committed_prefix_mono [OF peer_okD(7) [OF peer] ext order_refl])
  with peer wf' fields cand(2) np have "peer_ok n h' i rf'"
    unfolding peer_ok_def by (simp add: rf' snapshotIndex_def)
  moreover have "T(i := ?t) = T" using T by auto
  ultimately show ?thesis using h'(1) ext fields by (intro exI [of _ h']) (auto simp: event_def rf')
qed

section \<open>AppendEntries\<close>

text \<open>Adopting a prefix of the leader's log keeps what the peer knows to be committed.\<close>

lemma adopt_event:
  assumes hist: "history_ok n h T B" and T: "T i = CurrentTerm rf" and peer: "peer_ok n h i rf"
    and u: "CurrentTerm rf \<le> u" and M: "tlog h u = Some M" "m \<le> length M"
  obtains h' where "history_ok n h' (T(i := u)) B" "grows h h'" "tlog h' = tlog h"
    "\<forall>j. j \<noteq> i \<longrightarrow> alog h' j = alog h j" "alog h' i = adopted m M (alog h i)" "m \<le> acc h' i u"
    "take (nat (commitIndex rf)) (alog h' i) = take (nat (commitIndex rf)) M"
    "committed_prefix n h' u (nat (commitIndex rf)) (alog h' i)"
proof -
  define h' where "h' = h\<lparr>alog := (alog h)(i := adopted m M (alog h i)),
                    acc := (acc h)(i := (acc h i)(u := max (acc h i u) m))\<rparr>"
  note p = peer_okD [OF peer]
  have up: "history_ok n h (T(i := u)) B" by (rule history_raise [OF hist]) (use u T in auto)
  have h': "history_ok n h' (T(i := u)) B" "grows h h'"
    using history_adopt [OF up _ M h'_def] by simp_all
  have share: "take (nat (commitIndex rf)) (alog h i) = take (nat (commitIndex rf)) M"
    by (rule committed_prefix_leader(1) [OF hist p(7) u M(1)])
  have new: "take (nat (commitIndex rf)) (alog h' i) = take (nat (commitIndex rf)) M"
    using adopted_keeps [OF share] by (simp add: h'_def)
  with share have "committed_prefix n h u (nat (commitIndex rf)) (alog h' i)"
    using committed_prefix_cong [OF committed_prefix_mono [OF p(7) grows_refl u]] by simp
  then have "committed_prefix n h' u (nat (commitIndex rf)) (alog h' i)"
    by (rule committed_prefix_mono [OF _ h'(2) order_refl])
  with h' new show ?thesis by (intro that [of h']) (simp_all add: h'_def)
qed

lemma append_event:
  assumes hist: "history_ok n h T B" and T: "T i = CurrentTerm rf" and peer: "peer_ok n h i rf"
    and args: "append_ok n h args t" and ae: "AppendEntries now args rf = Some (rf', reply)"
  shows "\<exists>h'. event n h T B i rf' h' \<and>
    (aer_Success reply \<longrightarrow> aea_PrevLogIndex args + int (length (aea_Entries args)) \<le> int (acc h' i t))"
proof -
  note p = peer_okD [OF peer] and logs = history_okD(1) [OF hist]
  obtain M pr lc where a: "aea_Term args = t" "tlog h t = Some M" "aea_PrevLogIndex args = int pr"
    "aea_PrevLogTerm args = term_of M pr" "segment pr (aea_Entries args) M" "aea_LeaderCommit args = int lc"
    "lc \<le> pr + length (aea_Entries args)" "committed_prefix n h t lc M"
    using args unfolding append_ok_def by blast
  have wf': "wf_raft rf'" by (rule wf_AppendEntries(1) [OF ae p(1)]) (use a in simp)
  from ae p(2) show ?thesis
  proof (cases rule: AppendEntries_cases)
    case stale
    with eventI_quiet [OF hist _ peer] T show ?thesis by (intro exI [of _ h]) (simp add: zero_aer_def)
  next
    case (reject j c)
    have "peer_ok n h i rf'" using peer_ok_follower [OF peer wf'] reject(1,4) by simp
    with eventI_quiet [OF hist, of i rf'] reject T show ?thesis by (intro exI [of _ h]) simp
  next
    case (accept m l)
    let ?len = "pr + length (aea_Entries args)" and ?s = "nat (snapIndex (rf_log rf))"
    note chk = checkAppend_accepts [OF p(2,3) accept(2)]
    have "term_at (rf_log rf) (int pr) = Some (term_of M pr) \<or> int pr = 0 \<and> term_at (rf_log rf) 0 = Some 0"
      using checkAppend_successD [OF p(2,3) accept(2)] a(3,4) by simp
    moreover have "term_of M 0 = 0" by (simp add: term_of_def)
    ultimately have prev: "term_at (rf_log rf) (int pr) = Some (term_of M pr)" by auto
    have range: "?s \<le> pr" "pr \<le> length (alog h i)" "term_of (alog h i) pr = term_of M pr"
      using prev p(3) compact_term_at [OF p(5), of "int pr"] p(6) by (auto split: if_splits)
    have len: "?len \<le> length M" by (rule segment_length [OF a(5)])
    have start: "take pr (alog h i) = take pr M"
      using grounded_agree [OF logs_okD(1,3) [OF logs]] a(2) range len by simp
    obtain h' where h': "history_ok n h' (T(i := t)) B" "grows h h'" "tlog h' = tlog h"
      "\<forall>j. j \<noteq> i \<longrightarrow> alog h' j = alog h j" "alog h' i = adopted ?len M (alog h i)" "?len \<le> acc h' i t"
      "take (nat (commitIndex rf)) (alog h' i) = take (nat (commitIndex rf)) M"
      "committed_prefix n h' t (nat (commitIndex rf)) (alog h' i)"
      using adopt_event [OF hist T peer _ a(2) len] accept(1) a(1) by blast
    have log: "rf_log rf' = compact ?s (alog h' i)"
      unfolding h'(5) accept(5)
    proof (rule compact_merged [OF range(1,2) logs_okD(1,3) [OF logs] a(5) start accept(3)])
      show "tlog h t = Some M" by (rule a(2))
      show "merged (compact ?s (alog h i)) (int pr) (aea_Entries args) m l"
        using accept(4) a(3) p(6) by simp
      show "term_at (compact ?s (alog h i)) (int pr + 1 + int k) = Some (Term (aea_Entries args ! k))" if "k < m" for k
        using chk(3) [OF that] a(3) p(6) by simp
      show "term_at (compact ?s (alog h i)) (int pr + 1 + int m) \<noteq> Some (Term (aea_Entries args ! m))"
        if "m < length (aea_Entries args)"
        using chk(4) [OF _ that] prev a(3,4) p(6) by simp
    qed
    have lc: "committed_prefix n h' t lc (alog h' i)"
    proof (rule committed_prefix_cong [OF committed_prefix_mono [OF a(8) h'(2) order_refl]])
      show "take lc (alog h' i) = take lc M"
        using take_eq_mono [OF take_adopted [OF len, of "alog h i"] a(7)] h'(5) by simp
    qed
    have "nat (commitIndex rf') \<le> nat (commitIndex rf) \<or> nat (commitIndex rf') \<le> lc"
      using accept(9) a(3,6,7) p(8) log p(3) by (auto simp: new_commit_def accept(5))
    then have "committed_prefix n h' t (nat (commitIndex rf')) (alog h' i)"
      using committed_prefix_le [OF h'(8)] committed_prefix_le [OF lc] by blast
    moreover have "?s \<le> length (alog h' i)"
    proof -
      have "min ?len (length (alog h' i)) = ?len"
        using arg_cong [OF take_adopted [OF len, of "alog h i"], of length] len h'(5) by simp
      with range(1) show ?thesis by simp
    qed
    moreover have "0 \<le> t" using peer accept(1) a(1) by (simp add: peer_ok_def)
    ultimately have "peer_ok n h' i rf'"
      using wf' log accept(6,7) a(1) by (simp add: peer_ok_def)
    with h' accept(6) a(1,3) show ?thesis
      by (intro exI [of _ h']) (simp add: event_def)
  qed
qed

section \<open>InstallSnapshot\<close>

lemma install_event:
  assumes hist: "history_ok n h T B" and T: "T i = CurrentTerm rf" and peer: "peer_ok n h i rf"
    and args: "install_ok n h args t" and ins: "InstallSnapshot now args rf = Some (rf', reply, msgs)"
  shows "\<exists>h'. event n h T B i rf' h' \<and>
    (isr_Term reply \<le> t \<longrightarrow> isa_LastIncludedIndex args \<le> int (acc h' i t))"
proof -
  note p = peer_okD [OF peer] and logs = history_okD(1) [OF hist]
  let ?s = "nat (snapIndex (rf_log rf))" and ?ci = "nat (commitIndex rf)"
  obtain M k where a: "isa_Term args = t" "tlog h t = Some M" "isa_LastIncludedIndex args = int k"
    "isa_LastIncludedTerm args = term_of M k" "committed_prefix n h t k M"
    using args unfolding install_ok_def by blast
  have k: "k \<le> length M" using a(5) by (simp add: committed_prefix_def)
  have wf': "wf_raft rf'" by (rule wf_InstallSnapshot(1) [OF ins p(1)])
  obtain h' where h': "history_ok n h' (T(i := t)) B" "grows h h'" "tlog h' = tlog h"
      "\<forall>j. j \<noteq> i \<longrightarrow> alog h' j = alog h j" "alog h' i = adopted k M (alog h i)" "k \<le> acc h' i t"
      "take ?ci (alog h' i) = take ?ci M" "committed_prefix n h' t ?ci (alog h' i)" if "CurrentTerm rf \<le> t"
    using adopt_event [OF hist T peer _ a(2) k] by metis
  from ins p(2) show ?thesis
  proof (cases rule: InstallSnapshot_cases)
    case stale
    with eventI_quiet [OF hist _ peer] T a(1) show ?thesis by (intro exI [of _ h]) simp
  next
    case old
    have le: "CurrentTerm rf \<le> t" using old(1) a(1) by simp
    note h' = h' [OF le]
    have "k \<le> ?ci" using old(2) a(3) p(8) by simp
    then have "take k (alog h i) = take k M"
      using committed_prefix_leader(1) [OF hist p(7) le a(2)] by (rule take_eq_mono [rotated])
    then have "alog h' i = alog h i" by (simp add: h'(5) adopted_def)
    then have "peer_ok n h' i rf'"
      using peer wf' old h'(8) le a(1) unfolding peer_ok_def by (simp add: max_def)
    with h' old le a(1,3) show ?thesis by (intro exI [of _ h']) (simp add: event_def max_def)
  next
    case (install l)
    have le: "CurrentTerm rf \<le> t" using install(1) a(1) by simp
    note h' = h' [OF le]
    have "rf_log rf' = compact k (alog h' i)"
      using compact_installSnapshot [OF p(5) _ k logs_okD(1) [OF logs] logs_okD(3) [OF logs a(2)]]
        install(2-4) a(3,4) p(3,6) h'(5) by (metis nat_less_iff option.inject)
    moreover have kk: "take k (alog h' i) = take k M" using take_adopted [OF k] h'(5) by simp
    then have "committed_prefix n h' t k (alog h' i)"
      using committed_prefix_cong committed_prefix_mono [OF a(5) h'(2) order_refl] by blast
    then have "committed_prefix n h' t (nat (commitIndex rf')) (alog h' i)" "k \<le> length (alog h' i)"
      using h'(8) install(8) a(3) by (auto simp: max_def committed_prefix_def)
    moreover have "0 \<le> t" using peer le by (simp add: peer_ok_def)
    ultimately have "peer_ok n h' i rf'"
      using wf' install(5,6) a(1) by (simp add: peer_ok_def)
    with h' install(5,6) a(1,3) show ?thesis by (intro exI [of _ h']) (simp add: event_def)
  qed
qed

section \<open>The leader's callbacks\<close>

text \<open>What the commit rule accepts is committed: the peers it counts have acknowledged the entry.\<close>

lemma committable_committed:
  assumes peer: "peer_ok n h i rf" and leader: "rf_Role rf = Leader" and me: "me rf = i" "npeers rf = n" "i < n"
    and k: "committable k rf"
  shows "committed n h (CurrentTerm rf) (nat k) (alog h i)" "nat k \<le> length (alog h i)"
proof -
  note p = peer_okD [OF peer]
  have lead: "tlog h (CurrentTerm rf) = Some (alog h i)" "length (alog h i) \<le> acc h i (CurrentTerm rf)"
    "\<And>p. p < n \<Longrightarrow> snapIndex (rf_log rf) < matchIndex rf ! p \<Longrightarrow> matchIndex rf ! p \<le> int (acc h p (CurrentTerm rf))"
    using peer leader by (auto simp: peer_ok_def)
  have mi: "length (matchIndex rf) = n" using p(1) leader me(2) by (simp add: wf_raft_def)
  have kk: "snapIndex (rf_log rf) < k" "term_at (rf_log rf) k = Some (CurrentTerm rf)"
    "n div 2 < card (replicas k rf)"
    using k me(2) by (simp_all add: committable_def replica_count_card)
  then have at: "0 < nat k" "nat k \<le> length (alog h i)" "term_of (alog h i) (nat k) = CurrentTerm rf"
    using compact_term_at [OF p(5), of k] p(3,6) by (auto split: if_splits)
  then show "nat k \<le> length (alog h i)" by simp
  have "nat k \<le> acc h q (CurrentTerm rf)" if "q \<in> replicas k rf" for q
  proof (cases "q = i")
    case False
    with that mi me(1) have "q < n" "k \<le> matchIndex rf ! q" by (auto simp: replicas_def)
    with lead(3) [of q] kk(1) show ?thesis by linarith
  qed (use lead(2) at(2) in simp)
  moreover have "majority n (replicas k rf)"
    using kk(3) mi me by (auto simp: majority_def replicas_def)
  ultimately show "committed n h (CurrentTerm rf) (nat k) (alog h i)"
    using lead(1) at unfolding committed_def by (auto simp: term_of_def)
qed

lemma commit_peer_ok:
  assumes peer: "peer_ok n h i rf" and leader: "rf_Role rf = Leader" and me: "me rf = i" "npeers rf = n" "i < n"
    and uc: "updateCommitIndex rf = Some rf'"
  shows "peer_ok n h i rf'"
  using peer_okD(2) [OF peer]
proof (cases rule: updateCommitIndex_cases)
  case (advance k)
  note c = committable_committed [OF peer leader me advance(2)]
  have "committed_prefix n h (CurrentTerm rf) (nat k) (alog h i)"
    unfolding committed_prefix_def using c by blast
  moreover have "wf_raft rf'" by (rule wf_updateCommitIndex(1) [OF uc peer_okD(1) [OF peer]])
  moreover have "rf' = rf\<lparr>commitIndex := k, commit := commit rf + 1\<rparr>" using advance(1) uc by simp
  ultimately show ?thesis using peer unfolding peer_ok_def by simp
qed (use peer uc in simp)

text \<open>Recording an acknowledgement in \<open>matchIndex\<close>.\<close>

lemma match_peer_ok:
  assumes peer: "peer_ok n h i rf" and leader: "rf_Role rf = Leader" and p: "p < n" "npeers rf = n"
    and v: "v \<le> int (acc h p (CurrentTerm rf)) \<or> v = matchIndex rf ! p"
    and rf': "rf' = rf\<lparr>matchIndex := (matchIndex rf)[p := v], nextIndex := ni\<rparr>" "length ni = length (nextIndex rf)"
  shows "peer_ok n h i rf'"
proof -
  have mi: "length (matchIndex rf) = n" and d: "durable rf"
    using peer_okD(1) [OF peer] leader p(2) by (simp_all add: wf_raft_def)
  have "durable rf'" using d by (rule durable_cong) (simp_all add: rf')
  then have "wf_raft rf'" using peer_okD(1) [OF peer] rf' by (simp add: wf_raft_def)
  moreover have "matchIndex rf' ! q \<le> int (acc h q (CurrentTerm rf))"
    if "q < n" "snapIndex (rf_log rf) < matchIndex rf' ! q" for q
    using that peer leader v mi by (cases "q = p") (auto simp: rf' peer_ok_def)
  ultimately show ?thesis using peer leader rf' unfolding peer_ok_def by simp
qed

lemma becomeFollower_event:
  assumes "history_ok n h T B" "T i = CurrentTerm rf" "peer_ok n h i rf" "CurrentTerm rf < t"
  shows "event n h T B i (becomeFollower t rf) h"
  using assms peer_ok_follower [OF assms(3) wf_becomeFollower [OF peer_okD(1) [OF assms(3)]], of t]
  by (intro eventI_quiet) simp_all

lemma append_reply_event:
  assumes hist: "history_ok n h T B" and T: "T i = CurrentTerm rf" and peer: "peer_ok n h i rf"
    and me: "me rf = i" "npeers rf = n" "i < n" and p: "p < n"
    and reply: "rep_ok n h p (RGotAE args t reply)"
    and fin: "callPeer_finish Leader t (\<lambda>rf _. map_option (\<lambda>rf'. (rf', ()))
      (apply_AppendEntries p args reply rf)) rf () = Some (rf', u)"
  shows "event n h T B i rf' h"
  using fin
proof (cases rule: callPeer_finishE)
  case ignored
  with hist T peer show ?thesis by (intro eventI_quiet) simp_all
next
  case applied
  have ap: "apply_AppendEntries p args reply rf = Some rf'" using applied(3) by auto
  then show ?thesis
  proof (cases rule: apply_AppendEntries_cases)
    case newer
    with becomeFollower_event [OF hist T peer] show ?thesis by simp
  next
    case (progress mi ni)
    define rf1 where "rf1 = rf\<lparr>matchIndex := mi, nextIndex := ni\<rparr>"
    have "peer_ok n h i rf1"
      by (rule match_peer_ok [OF peer applied(1) p me(2), where v = "aea_PrevLogIndex args + int (length (aea_Entries args))" and ni = ni])
         (use progress(2-4) reply applied(2) in \<open>auto simp: rf1_def go_simps\<close>)
    then have "peer_ok n h i rf'"
      by (rule commit_peer_ok) (use applied(1) me progress(5) in \<open>simp_all add: rf1_def\<close>)
    moreover have "CurrentTerm rf' = CurrentTerm rf"
      using wf_updateCommitIndex(4) [OF progress(5)] peer_okD(1) [OF \<open>peer_ok n h i rf1\<close>] by (simp add: rf1_def)
    ultimately show ?thesis using hist T by (intro eventI_quiet) simp_all
  next
    case stale
    with hist T peer show ?thesis by (intro eventI_quiet) simp_all
  next
    case (backoff m ni)
    have "peer_ok n h i rf'"
      by (rule peer_ok_same [OF peer wf_apply_AppendEntries(1) [OF ap peer_okD(1) [OF peer]]])
         (simp_all add: backoff)
    with hist T backoff(5) show ?thesis by (intro eventI_quiet) simp_all
  qed
qed

lemma install_reply_event:
  assumes hist: "history_ok n h T B" and T: "T i = CurrentTerm rf" and peer: "peer_ok n h i rf"
    and me: "npeers rf = n" and p: "p < n"
    and reply: "rep_ok n h p (RGotIS args t reply)"
    and fin: "callPeer_finish Leader t (\<lambda>rf _. map_option (\<lambda>rf'. (rf', ()))
      (apply_InstallSnapshot p args reply rf)) rf () = Some (rf', u)"
  shows "event n h T B i rf' h"
  using fin
proof (cases rule: callPeer_finishE)
  case ignored
  with hist T peer show ?thesis by (intro eventI_quiet) simp_all
next
  case applied
  then have ap: "apply_InstallSnapshot p args reply rf = Some rf'" by auto
  show ?thesis
  proof (cases "CurrentTerm rf < isr_Term reply")
    case True
    with ap becomeFollower_event [OF hist T peer True] show ?thesis by (simp add: apply_InstallSnapshot_def)
  next
    case False
    define ni where "ni = (nextIndex rf)[p := max (nextIndex rf ! p) (isa_LastIncludedIndex args + 1)]"
    have rf': "rf' = rf\<lparr>matchIndex := (matchIndex rf)[p := max (matchIndex rf ! p) (isa_LastIncludedIndex args)],
        nextIndex := ni\<rparr>" "length ni = length (nextIndex rf)"
      using ap False by (auto simp: apply_InstallSnapshot_def bind_Some_iff go_simps ni_def)
    have "isa_LastIncludedIndex args \<le> int (acc h p (CurrentTerm rf))"
      using reply False applied(2) by simp
    then have "peer_ok n h i rf'"
      by (intro match_peer_ok [OF peer applied(1) p me _ rf']) (auto simp: max_def)
    with hist T rf' show ?thesis by (intro eventI_quiet) simp_all
  qed
qed

lemma vote_reply_event:
  assumes hist: "history_ok n h T B" and T: "T i = CurrentTerm rf" and peer: "peer_ok n h i rf"
    and np: "npeers rf = n"
    and fin: "callPeer_finish Candidate t (\<lambda>rf v. Some (apply_RequestVote v reply rf)) rf v = Some (rf', v')"
    and b: "rf_Role rf' = Leader \<Longrightarrow> backed n B (CurrentTerm rf') i"
    and new: "rf_Role rf = Candidate \<Longrightarrow> backed n B (CurrentTerm rf) i \<Longrightarrow> tlog h (CurrentTerm rf) = None"
  shows "\<exists>h'. event n h T B i rf' h'"
  using fin
proof (cases rule: callPeer_finishE)
  case ignored
  with eventI_quiet [OF hist _ peer] T show ?thesis by auto
next
  case applied
  then have ap: "apply_RequestVote v reply rf = (rf', v')" by simp
  have quiet: "event n h T B i rf h" using eventI_quiet [OF hist _ peer] T by simp
  from ap show ?thesis
  proof (cases rule: apply_RequestVote_cases)
    case newer
    with becomeFollower_event [OF hist T peer] show ?thesis by blast
  next
    case win
    have wf': "wf_raft rf'" by (rule wf_apply_RequestVote [OF ap peer_okD(1) [OF peer]])
    have "backed n B (CurrentTerm rf) i" using b win(5) by simp
    with win_event [OF hist T peer applied(1) new [OF applied(1)] _ np win(5) wf'] show ?thesis by blast
  qed (use quiet in auto)
qed

section \<open>The service's calls\<close>

lemma start_event:
  assumes hist: "history_ok n h T B" and T: "T i = CurrentTerm rf" and peer: "peer_ok n h i rf"
    and st: "raft_Start cmd rf = (rf', idx, t, ok)"
  shows "\<exists>h'. event n h T B i rf' h'"
proof (cases "rf_Role rf = Leader")
  case False
  then have "rf' = rf" using st by (simp add: raft_Start_def)
  with eventI_quiet [OF hist _ peer] T show ?thesis by auto
next
  case True
  let ?t = "CurrentTerm rf" and ?s = "nat (snapIndex (rf_log rf))"
  define e where "e = \<lparr>Term = ?t, Command = Some cmd\<rparr>"
  define h1 where "h1 = h\<lparr>alog := (alog h)(i := alog h i @ [e]), tlog := (tlog h)(?t := Some (alog h i @ [e]))\<rparr>"
  define h' where "h' = h1\<lparr>acc := (acc h1)(i := (acc h1 i)(?t := max (acc h1 i ?t) (length (alog h1 i))))\<rparr>"
  note p = peer_okD [OF peer]
  have lead: "tlog h ?t = Some (alog h i)" "1 \<le> ?t"
    "\<And>p. p < n \<Longrightarrow> snapIndex (rf_log rf) < matchIndex rf ! p \<Longrightarrow> matchIndex rf ! p \<le> int (acc h p ?t)"
    using peer True by (auto simp: peer_ok_def)
  have h1: "history_ok n h1 T B" "grows h h1"
    using history_append [OF hist T lead(1) _ lead(2) h1_def] by (simp_all add: e_def)
  have h': "history_ok n h' T B" "grows h1 h'"
    using history_self [OF h1(1) T _ h'_def] by (simp_all add: h1_def)
  have ext: "grows h h'" using grows_trans [OF h1(2) h'(2)] .
  have fields: "alog h' i = alog h i @ [e]" "tlog h' = (tlog h)(?t := Some (alog h' i))"
      "length (alog h' i) \<le> acc h' i ?t" "\<And>j. j \<noteq> i \<Longrightarrow> alog h' j = alog h j"
    by (simp_all add: h'_def h1_def)
  have rf': "rf' = persist (rf\<lparr>rf_log := log_append (rf_log rf) [e]\<rparr>)"
    using st True by (auto simp: raft_Start_def Let_def e_def)
  have log: "log_append (rf_log rf) [e] = compact ?s (alog h' i)"
    using compact_append [OF p(5), of "[e]"] p(6) fields(1) by simp
  have "committed_prefix n h ?t (nat (commitIndex rf)) (alog h' i)"
    by (rule committed_prefix_cong [OF p(7)]) (use p(9) fields(1) in simp)
  then have "committed_prefix n h' ?t (nat (commitIndex rf)) (alog h' i)"
    by (rule committed_prefix_mono [OF _ ext order_refl])
  moreover have "wf_raft rf'" by (rule raft_Start_spec(1) [OF st p(1)])
  moreover have "matchIndex rf ! p \<le> int (acc h' p ?t)" if "p < n" "snapIndex (rf_log rf) < matchIndex rf ! p" for p
    using lead(3) [OF that] grows_acc [OF ext, of p ?t] by simp
  ultimately have "peer_ok n h' i rf'"
    using p(3,5) True lead(2) fields log unfolding peer_ok_def rf' by simp
  moreover have "T(i := ?t) = T" using T by auto
  ultimately show ?thesis
    using h'(1) ext fields True by (intro exI [of _ h']) (auto simp: event_def rf')
qed

lemma snapshot_event:
  assumes hist: "history_ok n h T B" and T: "T i = CurrentTerm rf" and peer: "peer_ok n h i rf"
    and sn: "raft_Snapshot index snap rf = Some rf'" "index \<le> lastApplied rf"
  shows "event n h T B i rf' h"
proof -
  note p = peer_okD [OF peer]
  obtain rf2 where rf2: "raft_Snapshot index snap rf = Some rf2" "wf_raft rf2"
    by (rule raft_Snapshot_spec [OF p(1) sn(2) p(4), of snap])
  then have wf': "wf_raft rf'" using sn(1) by simp
  have "peer_ok n h i rf'"
  proof (cases "index \<le> snapIndex (rf_log rf)")
    case True
    with sn(1) peer show ?thesis by (simp add: raft_Snapshot_def snapshotIndex_def)
  next
    case False
    let ?s = "nat (snapIndex (rf_log rf))"
    have "index \<le> commitIndex rf" using sn(2) p(1) by (simp add: wf_raft_def)
    then have k: "?s \<le> nat index" "nat index \<le> length (alog h i)" using False p(9) by linarith+
    have "snapshotAt (rf_log rf) index = Some (compact (nat index) (alog h i))"
      using compact_snapshotAt [OF k] p(3,6) False by simp
    with False sn(1) have rf': "rf_log rf' = compact (nat index) (alog h i)" "CurrentTerm rf' = CurrentTerm rf"
      "rf_Role rf' = rf_Role rf" "matchIndex rf' = matchIndex rf" "commitIndex rf' = commitIndex rf"
      by (auto simp: raft_Snapshot_def snapshotIndex_def Let_def)
    with peer wf' k False show ?thesis unfolding peer_ok_def by auto
  qed
  moreover have "CurrentTerm rf' = CurrentTerm rf"
    using sn(1) by (auto simp: raft_Snapshot_def Let_def bind_Some_iff split: if_splits)
  ultimately show ?thesis using hist T by (intro eventI_quiet) simp_all
qed

text \<open>The apply loop hands over chosen entries only.\<close>

lemma apply_event:
  assumes hist: "history_ok n h T B" and T: "T i = CurrentTerm rf" and peer: "peer_ok n h i rf"
    and ap: "applyCommand rf = Some (rf', msgs)"
  shows "event n h T B i rf' h" "\<forall>m \<in> set msgs. message_ok n h m"
proof -
  note p = peer_okD [OF peer]
  have eq: "rf' = rf\<lparr>commit := commit rf - 1, lastApplied := commitIndex rf\<rparr>"
    "msgs = applied_msgs (lastApplied rf + 1) (commitIndex rf) (rf_log rf)"
    using ap applyCommand_spec [OF p(1,4)] by simp_all
  have "peer_ok n h i rf'"
    using peer_ok_same [OF peer wf_applyCommand(1) [OF ap p(1,4)]] by (simp add: eq)
  then show "event n h T B i rf' h" using hist T by (intro eventI_quiet) (simp_all add: eq)
  have "message_ok n h (command_msg k (the (log_entry (rf_log rf) k)))"
    if k: "lastApplied rf + 1 \<le> k" "k \<le> commitIndex rf" for k
  proof -
    have b: "snapIndex (rf_log rf) < k" using p(1) k by (simp add: wf_raft_def)
    then have "log_entry (rf_log rf) k = Some (alog h i ! nat (k - 1))"
      using compact_log_entry [OF p(5), of k] p(3,6,9) k by (simp add: nat_le_iff)
    moreover have "chosen n h (nat (k - 1)) (alog h i ! nat (k - 1))"
      by (rule committed_prefix_chosen [OF p(7)]) (use b k p(3) in linarith)
    moreover have "k = int (nat (k - 1)) + 1" using b p(3) by simp
    ultimately show ?thesis
      unfolding message_ok_def by (intro impI exI [of _ "nat (k - 1)"] exI [of _ "alog h i ! nat (k - 1)"]) (simp add: command_msg_def)
  qed
  then show "\<forall>m \<in> set msgs. message_ok n h m" by (auto simp: eq applied_msgs_def)
qed

lemma restart_event:
  assumes hist: "history_ok n h T B" and T: "T i = CurrentTerm rf" and peer: "peer_ok n h i rf"
    and mk: "raft_Make n i (persister rf) now r = Some rf'"
  shows "event n h T B i rf' h"
proof -
  note p = peer_okD [OF peer]
  obtain rf1 where rf1: "raft_Make n i (persister rf) now r = Some rf1" "wf_raft rf1"
    "CurrentTerm rf1 = CurrentTerm rf" "rf_log rf1 = rf_log rf" "rf_Role rf1 = Follower"
    "commitIndex rf1 = snapIndex (rf_log rf)"
    by (rule raft_Make_restores [OF p(2,3), where n = n and i = i and now = now and r = r])
       (use p(1) in \<open>auto simp: wf_raft_def\<close>)
  then have rf': "rf' = rf1" using mk by simp
  have "committed_prefix n h (CurrentTerm rf) (nat (snapIndex (rf_log rf))) (alog h i)"
    by (rule committed_prefix_le [OF p(7)]) (use p(8) in simp)
  with peer rf1 have "peer_ok n h i rf'" unfolding rf' peer_ok_def by simp
  with hist T rf1 rf' show ?thesis by (intro eventI_quiet) simp_all
qed

end
