(* ===== verification/RaftAgreement.thy ===== *)
theory RaftAgreement
  imports RaftEvents
begin

text \<open>
  Every reachable cluster has a history, and what follows from it: log matching, leader
  completeness and state machine safety.
\<close>

section \<open>Steps\<close>

lemma ballot_kept:
  assumes "peers_ok n s" "i < n"
    and "VotedFor rf' = -1 \<or> VotedFor rf' = VotedFor (nodes s i) \<and> CurrentTerm rf' = CurrentTerm (nodes s i)"
  shows "ballots s \<union> ballot_of i rf' = ballots s"
proof -
  have "ballot_of i (nodes s i) \<subseteq> ballots s" using assms(1,2) unfolding peers_ok_def by blast
  with assms(3) show ?thesis by (auto simp: ballot_of_def split: if_splits)
qed

lemma cluster_ok_event:
  assumes ok: "cluster_ok n h s" and i: "i < n"
    and ev: "event n h (\<lambda>j. CurrentTerm (nodes s j)) (ballots s \<union> ballot_of i rf') i rf' h'"
    and s': "nodes s' = (nodes s)(i := rf')" "ballots s' = ballots s \<union> ballot_of i rf'"
    and core: "core_step n i (nodes s i) rf'"
    and cand: "rf_Role rf' = Candidate \<Longrightarrow> CurrentTerm rf' = CurrentTerm (nodes s i) \<Longrightarrow> rf_Role (nodes s i) = Candidate"
    and new: "leaders_ok n s'" "peers_ok n s'" and traffic: "traffic_ok n h' s'"
  shows "cluster_ok n h' s'"
  by (rule cluster_ok_move [OF ok i _ s'(1) _ _ _ _ _ cand _ new traffic])
     (use ev core in \<open>auto simp: event_def core_step_def s'\<close>)

text \<open>Only \<open>startElection\<close> makes a candidate, and only it and \<open>RequestVote\<close> cast a vote.\<close>

definition quiet :: "('c, 'b) Raft \<Rightarrow> ('c, 'b) Raft \<Rightarrow> bool" where
  "quiet rf rf' \<longleftrightarrow> (rf_Role rf' = Candidate \<longrightarrow> rf_Role rf = Candidate) \<and>
     (VotedFor rf' = -1 \<or> VotedFor rf' = VotedFor rf \<and> CurrentTerm rf' = CurrentTerm rf)"

lemma quiet_refl [simp]: "quiet rf rf"
  by (simp add: quiet_def)

lemma quiet_becomeFollower [simp]: "quiet rf (becomeFollower t rf)"
  by (simp add: quiet_def)

lemma quiet_handlers:
  assumes "wf_log (rf_log rf)"
  shows "AppendEntries now aargs rf = Some (rf', areply) \<Longrightarrow> quiet rf rf'"
    "InstallSnapshot now iargs rf = Some (rf', ireply, msgs) \<Longrightarrow> quiet rf rf'"
proof -
  show "quiet rf rf'" if "AppendEntries now aargs rf = Some (rf', areply)"
    using that assms by (cases rule: AppendEntries_cases) (auto simp: quiet_def)
  show "quiet rf rf'" if "InstallSnapshot now iargs rf = Some (rf', ireply, msgs)"
    using that assms by (cases rule: InstallSnapshot_cases) (auto simp: quiet_def)
qed

lemma quiet_append_reply:
  assumes "wf_raft rf" "callPeer_finish Leader t (\<lambda>rf _. map_option (\<lambda>rf'. (rf', ()))
      (apply_AppendEntries p args reply rf)) rf () = Some (rf', u)"
  shows "quiet rf rf'"
  using assms(2)
proof (cases rule: callPeer_finishE)
  case applied
  then have "apply_AppendEntries p args reply rf = Some rf'" by auto
  then show ?thesis
  proof (cases rule: apply_AppendEntries_cases)
    case (progress mi ni)
    have "durable (rf\<lparr>matchIndex := mi, nextIndex := ni\<rparr>)"
      by (rule durable_cong [of rf]) (use assms(1) in \<open>simp_all add: wf_raft_def\<close>)
    then have "wf_raft (rf\<lparr>matchIndex := mi, nextIndex := ni\<rparr>)"
      using assms(1) progress(3,4) by (auto simp: wf_raft_def go_simps)
    from wf_updateCommitIndex [OF progress(5) this] show ?thesis by (simp add: quiet_def)
  qed (simp_all add: quiet_def)
qed simp

lemma quiet_install_reply:
  assumes "callPeer_finish Leader t (\<lambda>rf _. map_option (\<lambda>rf'. (rf', ()))
      (apply_InstallSnapshot p args reply rf)) rf () = Some (rf', u)"
  shows "quiet rf rf'"
  using assms
proof (cases rule: callPeer_finishE)
  case applied
  then show ?thesis
    by (auto simp: apply_InstallSnapshot_def bind_Some_iff quiet_def split: if_splits)
qed simp

lemma quiet_vote_reply:
  assumes "callPeer_finish Candidate t (\<lambda>rf v. Some (apply_RequestVote v reply rf)) rf v = Some (rf', v')"
  shows "quiet rf rf'"
  using assms
proof (cases rule: callPeer_finishE)
  case applied
  then have "apply_RequestVote v reply rf = (rf', v')" by simp
  then show ?thesis by (cases rule: apply_RequestVote_cases) (simp_all add: quiet_def)
qed simp

lemma quiet_service:
  shows "raft_Start cmd rf = (rf', idx, t, ok) \<Longrightarrow> quiet rf rf'"
    "raft_Snapshot index snap rf = Some rf' \<Longrightarrow> quiet rf rf'"
    "applyCommand rf = Some (rf', msgs) \<Longrightarrow> quiet rf rf'"
  using apply_loop_fields
  by (fastforce simp: raft_Start_def raft_Snapshot_def applyCommand_def quiet_def Let_def
      bind_Some_iff split: if_splits)+

lemma quiet_restart:
  assumes "peer_ok n h i rf" "raft_Make n i (persister rf) now r = Some rf'"
  shows "quiet rf rf'"
proof -
  note p = peer_okD [OF assms(1)]
  obtain rf1 where "raft_Make n i (persister rf) now r = Some rf1"
    "CurrentTerm rf1 = CurrentTerm rf" "VotedFor rf1 = VotedFor rf" "rf_Role rf1 = Follower"
    by (rule raft_Make_restores [OF p(2,3), where n = n and i = i and now = now and r = r])
       (use p(1) in \<open>auto simp: wf_raft_def\<close>)
  with assms(2) show ?thesis by (simp add: quiet_def)
qed

text \<open>A step in which one peer moves without voting.\<close>

lemma cluster_ok_quiet:
  assumes ok: "cluster_ok n h s" and i: "i < n" and peers: "peers_ok n s"
    and ev: "event n h (\<lambda>j. CurrentTerm (nodes s j)) (ballots s) i rf' h'"
    and step: "peer_step n i (nodes s i) rf'" "quiet (nodes s i) rf'"
    and s': "nodes s' = (nodes s)(i := rf')" "ballots s' = ballots s \<union> ballot_of i rf'"
    and new: "leaders_ok n s'" "peers_ok n s'" and traffic: "traffic_ok n h' s'"
  shows "cluster_ok n h' s'"
proof -
  have same: "ballots s \<union> ballot_of i rf' = ballots s"
    by (rule ballot_kept [OF peers i]) (use step(2) in \<open>auto simp: quiet_def\<close>)
  have "peer_core n i (nodes s i)" using peers i by (simp add: peers_ok_def)
  then have core: "core_step n i (nodes s i) rf'" by (rule peer_core_step [OF step(1)])
  show ?thesis
    by (rule cluster_ok_event [OF ok i _ s' core _ new traffic])
       (use ev step(2) in \<open>simp_all add: same quiet_def\<close>)
qed

section \<open>Requests\<close>

lemma vote_request_ok:
  assumes "peer_ok n h i rf" "callPeer_begin Candidate build_RequestVote rf = Some (Some (args, t))"
  shows "vote_ok h i (VSent args t)"
proof -
  note p = peer_okD [OF assms(1)]
  note b = callPeer_beginE [OF assms(2)]
  have "LogPos (rva_LastLogTerm args) (rva_LastLogIndex args) = last_pos (rf_log rf)"
    using b(2) wf_log_lastTerm [OF p(2)] by (auto simp: build_RequestVote_def bind_Some_iff last_pos_def)
  moreover have "last_pos (rf_log rf) = log_end (alog h i)" using compact_last_pos [OF p(5)] p(6) by simp
  moreover have "cand h i t = Some (alog h i)" using assms(1) b by (simp add: peer_ok_def)
  ultimately show ?thesis by simp
qed

lemma append_request_ok:
  assumes "peer_ok n h i rf" "callPeer_begin Leader (build_AppendEntries p) rf = Some (Some (args, t))"
  shows "append_ok n h args t"
proof -
  let ?L = "alog h i" and ?s = "nat (snapIndex (rf_log rf))"
  note p = peer_okD [OF assms(1)]
  note b = callPeer_beginE [OF assms(2)]
  from b(2) obtain ni e where ni: "log_entry (rf_log rf) (ni - 1) = Some e"
    "args = \<lparr>aea_Term = CurrentTerm rf, aea_LeaderID = int (me rf), aea_PrevLogIndex = ni - 1,
      aea_PrevLogTerm = Term e, aea_Entries = (if log_len (rf_log rf) > ni then log_since (rf_log rf) ni else []),
      aea_LeaderCommit = commitIndex rf\<rparr>"
    by (auto simp: build_AppendEntries_def bind_Some_iff Let_def)
  define k where "k = nat (ni - 1)"
  have range: "int ?s \<le> ni - 1" "ni - 1 \<le> int (length ?L)" "ni = int k + 1"
    using ni(1) p(3,10) by (auto simp: log_entry_iff k_def)
  have k: "?s \<le> k" "k \<le> length ?L" using range by linarith+
  have tm: "Term e = term_of ?L k"
  proof -
    have "term_at (compact ?s ?L) (ni - 1) = Some (term_of ?L k)"
      using compact_term_at [OF p(5), of "int k"] k p(3) by (simp add: range(3) nat_le_iff)
    then show ?thesis using ni(1) by (simp add: p(6) [symmetric] term_at_def)
  qed
  have "log_since (rf_log rf) ni = drop k ?L"
    using compact_since [of ?s "Suc k" ?L] k range(3) by (simp add: p(6) [symmetric] add.commute)
  then have "aea_Entries args = drop k ?L" using ni(2) p(10) range by auto
  with ni(2) k b p(7,8,9) range(3) tm segment_drop [OF k(2)] p(3) assms(1) show ?thesis
    unfolding append_ok_def by (intro conjI exI [of _ ?L] exI [of _ k] exI [of _ "nat (commitIndex rf)"]) (auto simp: peer_ok_def)
qed

lemma install_request_ok:
  assumes "peer_ok n h i rf" "callPeer_begin Leader build_InstallSnapshot rf = Some (Some (args, t))"
  shows "install_ok n h args t"
proof -
  let ?s = "nat (snapIndex (rf_log rf))"
  note p = peer_okD [OF assms(1)]
  note b = callPeer_beginE [OF assms(2)]
  have "snapTerm (rf_log rf) = term_of (alog h i) ?s" using p(6) by (metis compact_fields(2))
  moreover have "committed_prefix n h t ?s (alog h i)"
    by (rule committed_prefix_le) (use p(7,8) b(3) in auto)
  ultimately show ?thesis
    using b assms(1) p(3) unfolding install_ok_def
    by (auto simp: build_InstallSnapshot_def snapshotIndex_def snapshotTerm_def peer_ok_def intro!: exI [of _ ?s])
qed

section \<open>The invariant of reachable clusters\<close>

lemma cluster_ok_initial:
  assumes "initial_cluster n s"
  shows "cluster_ok n \<lparr>alog = (\<lambda>_. []), tlog = (\<lambda>_. None), acc = (\<lambda>_ _. 0), cand = (\<lambda>_ _. None)\<rparr> s"
    (is "cluster_ok n ?h s")
proof -
  have "peer_ok n ?h i (nodes s i)" if i: "i < n" for i
  proof -
    obtain now r where "raft_Make n i MakePersister now r = Some (nodes s i)"
      using assms i by (auto simp: initial_cluster_def)
    then have "nodes s i = \<lparr>me = i, npeers = n, CurrentTerm = 0, VotedFor = -1, rf_Role = Follower,
        rf_log = newRaftLog, commitIndex = 0, lastApplied = 0, nextIndex = [], matchIndex = [],
        lastReset = now, electionTimeout = 300 + r, persister = MakePersister, commit = 0\<rparr>"
      by (simp add: raft_Make_def readPersist_def resetElectionTimeout_def)
    then show ?thesis
      by (simp add: peer_ok_def wf_raft_def durable_def committed_prefix_def compact_new)
  qed
  moreover have "history_ok n ?h (\<lambda>i. CurrentTerm (nodes s i)) (ballots s)"
    using assms by (simp add: history_ok_def logs_ok_def later_leaders_def holders_def later_candidates_def
        open_prefix_def initial_cluster_def)
  moreover have "traffic_ok n ?h s" "led n ?h s"
    using assms by (simp_all add: traffic_ok_def led_def initial_cluster_def)
  ultimately show ?thesis by (simp add: cluster_ok_def)
qed

text \<open>What is known of a state \<open>s\<close> with history \<open>h\<close> and of the state \<open>s'\<close> a step leads to.\<close>

definition around :: "nat \<Rightarrow> 'c history \<Rightarrow> ('c, 'b) cluster \<Rightarrow> ('c, 'b) cluster \<Rightarrow> bool" where
  "around n h s s' \<longleftrightarrow> cluster_ok n h s \<and> goroutines_ok n s \<and> peers_ok n s \<and> elections_ok n s \<and>
     leaders_ok n s' \<and> peers_ok n s'"

lemma aroundD:
  assumes "around n h s s'"
  shows "cluster_ok n h s" "goroutines_ok n s" "peers_ok n s" "elections_ok n s" "leaders_ok n s'" "peers_ok n s'"
    "history_ok n h (\<lambda>j. CurrentTerm (nodes s j)) (ballots s)" "led n h s" "traffic_ok n h s"
    "i < n \<Longrightarrow> peer_ok n h i (nodes s i)" "i < n \<Longrightarrow> peer_core n i (nodes s i)"
    "i < n \<Longrightarrow> me (nodes s i) = i" "i < n \<Longrightarrow> npeers (nodes s i) = n" "i < n \<Longrightarrow> wf_log (rf_log (nodes s i))"
    "grows h h' \<Longrightarrow> traffic_ok n h' s"
  using assms traffic_ok_mono [of n h s h']
  by (simp_all add: around_def cluster_ok_def peers_ok_def peer_core_def)

lemma idle_step:
  "around n h s s' \<Longrightarrow> nodes s' = nodes s \<Longrightarrow> ballots s' = ballots s \<Longrightarrow> traffic_ok n h s' \<Longrightarrow>
    \<exists>h'. cluster_ok n h' s'"
  using cluster_ok_idle aroundD(1) by blast

lemma quiet_step:
  assumes "around n h s s'" "i < n" "peer_step n i (nodes s i) rf'" "quiet (nodes s i) rf'"
    and "event n h (\<lambda>j. CurrentTerm (nodes s j)) (ballots s) i rf' h'"
    and "nodes s' = (nodes s)(i := rf')" "ballots s' = ballots s \<union> ballot_of i rf'"
    and "traffic_ok n h' s \<Longrightarrow> traffic_ok n h' s'"
  shows "\<exists>h'. cluster_ok n h' s'"
proof -
  note ar = aroundD [OF assms(1)]
  have "grows h h'" using assms(5) by (simp add: event_def)
  then have "traffic_ok n h' s'" using assms(8) ar(15) by blast
  then have "cluster_ok n h' s'"
    by (rule cluster_ok_quiet [OF ar(1) assms(2) ar(3) assms(5,3,4,6,7) ar(5,6)])
  then show ?thesis by blast
qed

lemma start_election_step:
  assumes "around n h s s'" "i < n" "rf' = startElection now r (nodes s i)"
    and s': "s' = (set_node i rf' s)\<lparr>timeouts := ts, elections := elections s @ [new_election i (CurrentTerm rf')]\<rparr>"
  shows "\<exists>h'. cluster_ok n h' s'"
proof -
  note ar = aroundD [OF assms(1)]
  obtain h' where ev: "event n h (\<lambda>j. CurrentTerm (nodes s j)) (ballots s \<union> ballot_of i rf') i rf' h'"
    using campaign_event [OF ar(7) refl ar(10) ar(12)] assms(2,3) by blast
  then have "traffic_ok n h' s" by (intro ar(15)) (simp add: event_def)
  then have "traffic_ok n h' s'" using s' by (auto simp: traffic_ok_def new_election_def)
  moreover have "core_step n i (nodes s i) rf'"
    using peer_core_step [OF peer_step.pElection ar(11)] assms(2,3) by simp
  ultimately have "cluster_ok n h' s'"
    by (intro cluster_ok_event [OF ar(1) assms(2) ev _ _ _ _ ar(5,6)]) (use assms(3) s' in simp_all)
  then show ?thesis by blast
qed

lemma vote_handle_step:
  assumes "around n h s s'" "e < length (elections s)" "p < n"
    "vcalls (elections s ! e) p = VSent args t" "RequestVote now args (nodes s p) = Some (rf', reply)"
    and s': "s' = set_vcall e p (VReplied t reply) (set_node p rf' s)"
  shows "\<exists>h'. cluster_ok n h' s'"
proof -
  note ar = aroundD [OF assms(1)]
  let ?c = "el_owner (elections s ! e)"
  have "vcall_ok (ballots s) (elections s ! e) p (VSent args t)"
    using ar(4) assms(2-4) by (metis elections_ok_def election_ok_def)
  then have args: "rva_Term args = t" "rva_CandidateID args = int ?c" by simp_all
  have "vote_ok h ?c (VSent args t)" using traffic_okD(1) [OF ar(9) assms(2), of p] assms(4) by simp
  moreover have "ballot_of p (nodes s p) \<subseteq> ballots s" using ar(3) assms(3) unfolding peers_ok_def by blast
  ultimately have ev: "event n h (\<lambda>j. CurrentTerm (nodes s j)) (ballots s \<union> ballot_of p rf') p rf' h"
    using vote_event [OF ar(7) refl ar(10) assms(5) args(2)] args(1) assms(3) by simp
  have "core_step n p (nodes s p) rf'"
    by (rule peer_core_step [OF peer_step.pVote [OF assms(5)] ar(11) [OF assms(3)]])
  moreover have "rf_Role (nodes s p) = Candidate"
    if "rf_Role rf' = Candidate" "CurrentTerm rf' = CurrentTerm (nodes s p)"
    using assms(5) ar(14) [OF assms(3)]
    by (cases rule: RequestVote_cases) (use that in \<open>auto split: if_splits\<close>)
  moreover have "traffic_ok n h s'" using ar(9) assms(2) by (simp add: s' traffic_ok_vcall)
  ultimately have "cluster_ok n h s'"
    by (intro cluster_ok_event [OF ar(1) assms(3) ev _ _ _ _ ar(5,6)]) (simp_all add: s')
  then show ?thesis by blast
qed

lemma vote_finish_step:
  assumes "around n h s s'" "e < length (elections s)" "i = el_owner (elections s ! e)"
    and fin: "callPeer_finish Candidate t (\<lambda>rf v. Some (apply_RequestVote v reply rf)) (nodes s i) v0 = Some (rf', v)"
    and s': "s' = (set_votes e v (set_vcall e p (VDone b) (set_node i rf' s)))\<lparr>heartbeats := beats\<rparr>"
  shows "\<exists>h'. cluster_ok n h' s'"
proof -
  note ar = aroundD [OF assms(1)]
  have i: "i < n" using assms(2,3) goroutines_okD(1) [OF ar(2)] by simp
  have fr: "nodes s' = (nodes s)(i := rf')" "ballots s' = ballots s \<union> ballot_of i rf'" by (simp_all add: s')
  have q: "quiet (nodes s i) rf'" by (rule quiet_vote_reply [OF fin])
  have same: "ballots s' = ballots s"
    using ballot_kept [OF ar(3) i, of rf'] q fr(2) by (auto simp: quiet_def)
  have "backed n (ballots s) (CurrentTerm rf') i" if "rf_Role rf' = Leader"
    using that ar(5) i fr(1) unfolding leaders_ok_def same by auto
  moreover have "tlog h (CurrentTerm (nodes s i)) = None"
    if "rf_Role (nodes s i) = Candidate" "backed n (ballots s) (CurrentTerm (nodes s i)) i"
    using that ar(8) backed_unique [OF ar(3) that(2)] unfolding led_def by metis
  ultimately obtain h' where "event n h (\<lambda>j. CurrentTerm (nodes s j)) (ballots s) i rf' h'"
    using vote_reply_event [OF ar(7) refl ar(10,13) [OF i] fin] by metis
  then show ?thesis
    by (rule quiet_step [OF assms(1) i peer_step.pVoteReply [OF fin] q])
       (use assms(2) fr in \<open>simp_all add: s' traffic_ok_vcall\<close>)
qed

lemma append_handle_step:
  assumes "around n h s s'" "k < length (replicators s)" "j = rp_peer (replicators s ! k)"
    and "rp_call (replicators s ! k) = RSentAE aargs t" "AppendEntries now aargs (nodes s j) = Some (rf', areply)"
    and s': "s' = set_rcall k (RGotAE aargs t areply) (set_node j rf' s)"
  shows "\<exists>h'. cluster_ok n h' s'"
proof -
  note ar = aroundD [OF assms(1)]
  have j: "j < n" using assms(2,3) goroutines_okD(3) [OF ar(2)] by simp
  have "append_ok n h aargs t" using traffic_okD(2) [OF ar(9) assms(2)] assms(4) by simp
  then obtain h' where ev: "event n h (\<lambda>j. CurrentTerm (nodes s j)) (ballots s) j rf' h'"
    "aer_Success areply \<longrightarrow> aea_PrevLogIndex aargs + int (length (aea_Entries aargs)) \<le> int (acc h' j t)"
    using append_event [OF ar(7) refl ar(10) [OF j] _ assms(5)] by blast
  show ?thesis
    by (rule quiet_step [OF assms(1) j peer_step.pAppend [OF assms(5)] quiet_handlers(1) [OF ar(14) [OF j] assms(5)] ev(1)])
       (use assms(2,3) ev(2) in \<open>simp_all add: s' traffic_ok_rcall\<close>)
qed

lemma append_finish_step:
  assumes "around n h s s'" "k < length (replicators s)" "i = rp_owner (replicators s ! k)"
    and "rp_call (replicators s ! k) = RGotAE aargs t areply"
    and fin: "callPeer_finish Leader t (\<lambda>rf _. map_option (\<lambda>rf'. (rf', ()))
      (apply_AppendEntries (rp_peer (replicators s ! k)) aargs areply rf)) (nodes s i) () = Some (rf', u)"
    and s': "s' = set_rcall k RDone (set_node i rf' s)"
  shows "\<exists>h'. cluster_ok n h' s'"
proof -
  note ar = aroundD [OF assms(1)]
  have i: "i < n" "rp_peer (replicators s ! k) < n"
    using assms(2,3) goroutines_okD(2,3) [OF ar(2)] by simp_all
  have "rep_ok n h (rp_peer (replicators s ! k)) (RGotAE aargs t areply)"
    using traffic_okD(2) [OF ar(9) assms(2)] assms(4) by simp
  then have "event n h (\<lambda>j. CurrentTerm (nodes s j)) (ballots s) i rf' h"
    using append_reply_event [OF ar(7) refl ar(10,12,13) [OF i(1)] i _ fin] by blast
  then show ?thesis
    by (rule quiet_step [OF assms(1) i(1) peer_step.pAppendReply [OF fin]
          quiet_append_reply [OF peer_okD(1) [OF ar(10) [OF i(1)]] fin]])
       (use assms(2) in \<open>simp_all add: s' traffic_ok_rcall\<close>)
qed

lemma snapshot_handle_step:
  assumes "around n h s s'" "k < length (replicators s)" "j = rp_peer (replicators s ! k)"
    and "rp_call (replicators s ! k) = RSentIS iargs t" "InstallSnapshot now iargs (nodes s j) = Some (rf', ireply, msgs)"
    and s': "s' = set_rcall k (RGotIS iargs t ireply) (deliver j msgs (set_node j rf' s))"
  shows "\<exists>h'. cluster_ok n h' s'"
proof -
  note ar = aroundD [OF assms(1)]
  have j: "j < n" using assms(2,3) goroutines_okD(3) [OF ar(2)] by simp
  have "install_ok n h iargs t" using traffic_okD(2) [OF ar(9) assms(2)] assms(4) by simp
  then obtain h' where ev: "event n h (\<lambda>j. CurrentTerm (nodes s j)) (ballots s) j rf' h'"
    "isr_Term ireply \<le> t \<longrightarrow> isa_LastIncludedIndex iargs \<le> int (acc h' j t)"
    using install_event [OF ar(7) refl ar(10) [OF j] _ assms(5)] by blast
  have "\<forall>m \<in> set msgs. message_ok n h' m"
    using assms(5) by (auto simp: InstallSnapshot_def Let_def bind_Some_iff message_ok_def split: if_splits)
  with assms(2,3) ev(2) have "traffic_ok n h' s \<Longrightarrow> traffic_ok n h' s'"
    by (auto simp: s' intro!: traffic_ok_rcall traffic_ok_deliver)
  then show ?thesis
    by (rule quiet_step [OF assms(1) j peer_step.pInstall [OF assms(5)] quiet_handlers(2) [OF ar(14) [OF j] assms(5)] ev(1), rotated 2])
       (simp_all add: s')
qed

lemma snapshot_finish_step:
  assumes "around n h s s'" "k < length (replicators s)" "i = rp_owner (replicators s ! k)"
    and "rp_call (replicators s ! k) = RGotIS iargs t ireply"
    and fin: "callPeer_finish Leader t (\<lambda>rf _. map_option (\<lambda>rf'. (rf', ()))
      (apply_InstallSnapshot (rp_peer (replicators s ! k)) iargs ireply rf)) (nodes s i) () = Some (rf', u)"
    and s': "s' = set_rcall k RDone (set_node i rf' s)"
  shows "\<exists>h'. cluster_ok n h' s'"
proof -
  note ar = aroundD [OF assms(1)]
  have i: "i < n" "rp_peer (replicators s ! k) < n"
    using assms(2,3) goroutines_okD(2,3) [OF ar(2)] by simp_all
  have "rep_ok n h (rp_peer (replicators s ! k)) (RGotIS iargs t ireply)"
    using traffic_okD(2) [OF ar(9) assms(2)] assms(4) by simp
  then have "event n h (\<lambda>j. CurrentTerm (nodes s j)) (ballots s) i rf' h"
    using install_reply_event [OF ar(7) refl ar(10,13) [OF i(1)] i(2) _ fin] by blast
  then show ?thesis
    by (rule quiet_step [OF assms(1) i(1) peer_step.pInstallReply [OF fin] quiet_install_reply [OF fin]])
       (use assms(2) in \<open>simp_all add: s' traffic_ok_rcall\<close>)
qed

lemma service_step:
  assumes "around n h s s'" "i < n" and s': "nodes s' = (nodes s)(i := rf')" "ballots s' = ballots s \<union> ballot_of i rf'"
  shows "raft_Start cmd (nodes s i) = (rf', idx, t, okay) \<Longrightarrow> s' = set_node i rf' s \<Longrightarrow> \<exists>h'. cluster_ok n h' s'"
    "raft_Snapshot index snap (nodes s i) = Some rf' \<Longrightarrow> index \<le> lastApplied (nodes s i) \<Longrightarrow>
       s' = set_node i rf' s \<Longrightarrow> \<exists>h'. cluster_ok n h' s'"
    "applyCommand (nodes s i) = Some (rf', msgs) \<Longrightarrow> s' = deliver i msgs (set_node i rf' s) \<Longrightarrow>
       \<exists>h'. cluster_ok n h' s'"
    "raft_Make n i (persister (nodes s i)) now r = Some rf' \<Longrightarrow> s' = kill_goroutines i (set_node i rf' s) \<Longrightarrow>
       \<exists>h'. cluster_ok n h' s'"
proof -
  note ar = aroundD [OF assms(1)]
  note step = quiet_step [OF assms(1,2) _ _ _ s']
  show "\<exists>h'. cluster_ok n h' s'" if c: "raft_Start cmd (nodes s i) = (rf', idx, t, okay)" "s' = set_node i rf' s"
  proof -
    obtain h' where "event n h (\<lambda>j. CurrentTerm (nodes s j)) (ballots s) i rf' h'"
      using start_event [OF ar(7) refl ar(10) [OF assms(2)] c(1)] by blast
    then show ?thesis by (rule step [OF peer_step.pStart [OF c(1)] quiet_service(1) [OF c(1)]]) (simp add: c(2))
  qed
  show "\<exists>h'. cluster_ok n h' s'"
    if c: "raft_Snapshot index snap (nodes s i) = Some rf'" "index \<le> lastApplied (nodes s i)" "s' = set_node i rf' s"
    by (rule step [OF peer_step.pSnapshot [OF c(1)] quiet_service(2) [OF c(1)]
          snapshot_event [OF ar(7) refl ar(10) [OF assms(2)] c(1,2)]]) (simp add: c(3))
  show "\<exists>h'. cluster_ok n h' s'"
    if c: "applyCommand (nodes s i) = Some (rf', msgs)" "s' = deliver i msgs (set_node i rf' s)"
    by (rule step [OF peer_step.pApply [OF c(1)] quiet_service(3) [OF c(1)]
          apply_event(1) [OF ar(7) refl ar(10) [OF assms(2)] c(1)]])
       (use apply_event(2) [OF ar(7) refl ar(10) [OF assms(2)] c(1)] in \<open>simp add: c(2) traffic_ok_deliver\<close>)
  show "\<exists>h'. cluster_ok n h' s'"
    if c: "raft_Make n i (persister (nodes s i)) now r = Some rf'" "s' = kill_goroutines i (set_node i rf' s)"
    by (rule step [OF peer_step.pRestart [OF c(1)] quiet_restart [OF ar(10) [OF assms(2)] c(1)]
          restart_event [OF ar(7) refl ar(10) [OF assms(2)] c(1)]]) (simp add: c(2) traffic_ok_kill)
qed

lemma cluster_ok_step:
  assumes step: "cstep True n s s'" and ar: "around n h s s'"
  shows "\<exists>h'. cluster_ok n h' s'"
  using step
proof (cases rule: cstep.cases)
  case (vote_send e p args t)
  have "vote_ok h (el_owner (elections s ! e)) (VSent args t)"
    by (rule vote_request_ok [OF aroundD(10) [OF ar]]) (use vote_send goroutines_okD(1) [OF aroundD(2) [OF ar]] in auto)
  with vote_send aroundD(9) [OF ar] show ?thesis by (intro idle_step [OF ar]) (simp_all add: traffic_ok_vcall)
next
  case (append_send k aargs t)
  have "append_ok n h aargs t"
    by (rule append_request_ok [OF aroundD(10) [OF ar]]) (use append_send goroutines_okD(2) [OF aroundD(2) [OF ar]] in auto)
  with append_send aroundD(9) [OF ar] show ?thesis by (intro idle_step [OF ar]) (simp_all add: traffic_ok_rcall)
next
  case (snapshot_send k iargs t)
  have "install_ok n h iargs t"
    by (rule install_request_ok [OF aroundD(10) [OF ar]]) (use snapshot_send goroutines_okD(2) [OF aroundD(2) [OF ar]] in auto)
  with snapshot_send aroundD(9) [OF ar] show ?thesis by (intro idle_step [OF ar]) (simp_all add: traffic_ok_rcall)
next
  case (heartbeat i)
  with aroundD(9) [OF ar] show ?thesis
    by (intro idle_step [OF ar]) (auto simp: traffic_ok_def new_replicators_def)
next
  case start_election
  then show ?thesis by (intro start_election_step [OF ar]) auto
next
  case vote_handle
  then show ?thesis by (intro vote_handle_step [OF ar])
next
  case vote_finish
  then show ?thesis by (intro vote_finish_step [OF ar])
next
  case append_handle
  then show ?thesis by (intro append_handle_step [OF ar])
next
  case append_finish
  then show ?thesis by (intro append_finish_step [OF ar])
next
  case snapshot_handle
  then show ?thesis by (intro snapshot_handle_step [OF ar])
next
  case snapshot_finish
  then show ?thesis by (intro snapshot_finish_step [OF ar])
next
  case (client_start i cmd rf' idx t ok)
  show ?thesis by (rule service_step(1) [OF ar client_start(2) _ _ client_start(3,1)]) (simp_all add: client_start(1))
next
  case (service_snapshot i index snap rf')
  show ?thesis
    by (rule service_step(2) [OF ar service_snapshot(2) _ _ service_snapshot(4,3,1)]) (simp_all add: service_snapshot(1))
next
  case (apply_committed i rf' msgs)
  show ?thesis by (rule service_step(3) [OF ar apply_committed(2) _ _ apply_committed(4,1)]) (simp_all add: apply_committed(1))
next
  case (restart i now r rf')
  show ?thesis by (rule service_step(4) [OF ar restart(2) _ _ restart(3,1)]) (simp_all add: restart(1))
qed (rule idle_step [OF ar]; use aroundD(9) [OF ar] in \<open>auto intro!: traffic_ok_vcall traffic_ok_rcall\<close>)+

lemma reachable_cluster_ok:
  assumes "reachable_cluster True n s"
  shows "\<exists>h. cluster_ok n h s"
  using assms
proof induction
  case (init s)
  then show ?case using cluster_ok_initial by blast
next
  case (step s s')
  have "reachable_cluster True n s'" using step(1,2) by (rule reachable_cluster.step)
  with step reachable_ok reachable_elections_ok obtain h where "around n h s s'"
    unfolding around_def by blast
  with step(2) show ?case by (rule cluster_ok_step)
qed

end
