(* ===== verification/RaftAgreementProps.thy ===== *)
theory RaftAgreementProps
  imports RaftAgreement RaftProps
begin

text \<open>
  Agreement between the peers of a cluster: what the history of a reachable cluster implies for
  the logs the peers hold, for the entries they count as committed and for the commands they hand
  to their services.
\<close>

section \<open>Consequences of the invariant\<close>



text \<open>What is handed to the services is chosen, and only one entry is chosen for an index.\<close>

lemma delivered_agree:
  assumes "reachable_cluster True n s" "m \<in> set (delivered s i)" "m' \<in> set (delivered s j)"
    and "CommandValid m" "CommandValid m'" "CommandIndex m = CommandIndex m'"
  shows "am_Command m = am_Command m'"
proof -
  obtain h where h: "cluster_ok n h s" using reachable_cluster_ok [OF assms(1)] by blast
  then have "traffic_ok n h s" and hist: "history_ok n h (\<lambda>i. CurrentTerm (nodes s i)) (ballots s)"
    by (simp_all add: cluster_ok_def)
  then have "message_ok n h m" "message_ok n h m'" using traffic_okD(3) assms(2,3) by blast+
  then obtain k e k' e' where "CommandIndex m = int k + 1" "chosen n h k e" "am_Command m = Command e"
    "CommandIndex m' = int k' + 1" "chosen n h k' e'" "am_Command m' = Command e'"
    using assms(4,5) unfolding message_ok_def by blast
  with assms(6) chosen_unique [OF hist, of k e e'] show ?thesis by simp
qed

section \<open>A run for the witnesses\<close>

text \<open>
  Peer 0 of three wins term 1, starts agreement on a command, replicates it to peer 1, commits and
  applies it; its next heartbeat tells peer 1 of the commit, which applies the command as well.
\<close>

definition replicate_to :: "nat \<Rightarrow> ('c, 'b) action list" where
  "replicate_to k = [RepCheck k, AppendSend k, AppendHandle k 0, AppendFinish k]"

definition one_command :: "(string, nat) action list" where
  "one_command = one_leader @ [ClientStart 0 ''a'', Heartbeat 0] @ replicate_to 0 @
     [ApplyCommitted 0, Heartbeat 0] @ replicate_to 2 @ [ApplyCommitted 1]"

definition progress_of :: "nat \<Rightarrow> ('c, 'b) cluster \<Rightarrow> bool \<times> int \<times> int \<times> int option \<times> int list" where
  "progress_of i s = (rf_Role (nodes s i) = Leader, CurrentTerm (nodes s i), commitIndex (nodes s i),
     term_at (rf_log (nodes s i)) 1, map CommandIndex (delivered s i))"

lemma one_command_run:
  "map_option (\<lambda>s. (progress_of 0 s, progress_of 1 s, map CommandValid (delivered s 0), map CommandValid (delivered s 1),
       snapIndex (rf_log (nodes s 0)), snapIndex (rf_log (nodes s 1))))
     (exec_all True 3 one_command (boot_cluster 3)) =
   Some ((True, 1, 1, Some 1, [1]), (False, 1, 1, Some 1, [1]), [True], [True], 0, 0)"
  by code_simp

lemma one_commandE:
  obtains s :: "(string, nat) cluster" where "reachable_cluster True 3 s"
    "progress_of 0 s = (True, 1, 1, Some 1, [1])" "progress_of 1 s = (False, 1, 1, Some 1, [1])"
    "map CommandValid (delivered s 0) = [True]" "map CommandValid (delivered s 1) = [True]"
    "snapIndex (rf_log (nodes s 0)) = 0" "snapIndex (rf_log (nodes s 1)) = 0"
proof -
  obtain s :: "(string, nat) cluster" where "reachable_cluster True 3 s"
    "(progress_of 0 s, progress_of 1 s, map CommandValid (delivered s 0), map CommandValid (delivered s 1),
       snapIndex (rf_log (nodes s 0)), snapIndex (rf_log (nodes s 1))) =
     ((True, 1, 1, Some 1, [1]), (False, 1, 1, Some 1, [1]), [True], [True], 0, 0)"
    using one_command_run by (rule scheduled)
  then show ?thesis using that by simp
qed

section \<open>The properties\<close>

text \<open>
  C1. State machine safety. In every reachable cluster whose vote goroutines are prompt, no two
  services are ever handed different commands for one index, whatever crashes, restarts,
  snapshots, elections, lost, delayed and reordered messages there have been.
\<close>

theorem state_machine_safety:
  assumes "reachable_cluster True n s" "m \<in> set (delivered s i)" "m' \<in> set (delivered s j)"
    and "CommandValid m" "CommandValid m'" "CommandIndex m = CommandIndex m'"
  shows "am_Command m = am_Command m'"
  using assms by (rule delivered_agree)

theorem state_machine_safety_witness:
  "\<exists>(s :: (string, nat) cluster) m m'. reachable_cluster True 3 s \<and> delivered s 0 = [m] \<and> delivered s 1 = [m'] \<and>
     CommandIndex m = 1 \<and> am_Command m = am_Command m'"
proof -
  obtain s :: "(string, nat) cluster" where s: "reachable_cluster True 3 s"
    "map CommandIndex (delivered s 0) = [1]" "map CommandIndex (delivered s 1) = [1]"
    "map CommandValid (delivered s 0) = [True]" "map CommandValid (delivered s 1) = [True]"
    by (rule one_commandE) (simp add: progress_of_def)
  then obtain m m' where m: "delivered s 0 = [m]" "delivered s 1 = [m']" "CommandIndex m = 1" "CommandIndex m' = 1"
    "CommandValid m" "CommandValid m'" by (auto simp: map_eq_Cons_conv)
  with state_machine_safety [OF s(1), of m 0 m' 1] s(1) show ?thesis by auto
qed







section \<open>A race between replication and compaction\<close>

text \<open>
  After the first command, peer 2 is behind. The heartbeat decides to send it entries; before the
  request is built the service compacts the log, and the previous entry is gone.
\<close>

definition compact_in_between :: "(string, nat) action list" where
  "compact_in_between = one_command @ [RepCheck 3, ServiceSnapshot 0 1 [7]]"

lemma compact_in_between_run:
  "map_option (\<lambda>s. (length (replicators s), rp_live (replicators s ! 3), rp_call (replicators s ! 3) = RAppend,
       callPeer_begin Leader (build_AppendEntries (rp_peer (replicators s ! 3)))
         (nodes s (rp_owner (replicators s ! 3)))))
     (exec_all True 3 compact_in_between (boot_cluster 3)) = Some (4, True, True, None)"
  by code_simp

text \<open>
  C22. The check whether a follower needs a snapshot and the construction of the request are two
  critical sections. A reachable cluster has a live replication goroutine that is about to build
  an AppendEntries request whose previous entry has been compacted away: the leader panics.
\<close>

theorem compaction_race_panics:
  "\<exists>(s :: (string, nat) cluster) k. reachable_cluster True 3 s \<and> k < length (replicators s) \<and>
     rp_live (replicators s ! k) \<and> rp_call (replicators s ! k) = RAppend \<and>
     callPeer_begin Leader (build_AppendEntries (rp_peer (replicators s ! k)))
       (nodes s (rp_owner (replicators s ! k))) = None"
proof -
  obtain s :: "(string, nat) cluster" where "reachable_cluster True 3 s"
    "(length (replicators s), rp_live (replicators s ! 3), rp_call (replicators s ! 3) = RAppend,
       callPeer_begin Leader (build_AppendEntries (rp_peer (replicators s ! 3)))
         (nodes s (rp_owner (replicators s ! 3)))) = (4, True, True, None)"
    using compact_in_between_run by (rule scheduled)
  then show ?thesis by (intro exI [of _ s] exI [of _ 3]) simp
qed


end
