(* ===== verification/RaftDriverProps.thy ===== *)
theory RaftDriverProps
  imports RaftDriver RaftTesterProps RaftAgreementProps
begin

text \<open>
  The tests of Raft and the cluster they test: \<open>one\<close> and \<open>wait\<close> return what enough servers have
  applied, no check follows a nil proxy, and a cluster passes the checks of the tester: these are
  consequences of the agreement between peers.
\<close>

section \<open>nCommitted\<close>

text \<open>How many servers have applied the command at the index.\<close>

definition applied_by :: "int \<Rightarrow> 'c option \<Rightarrow> 'c Test \<Rightarrow> nat" where
  "applied_by index v ts = length (filter (\<lambda>rs. logs rs index = Some v) (Test.srvs ts))"

definition healthy :: "int \<Rightarrow> 'c option \<Rightarrow> 'c raftServer list \<Rightarrow> bool" where
  "healthy index cmd rss \<longleftrightarrow> (\<forall>rs \<in> set rss. applyErr rs = None \<and> (\<forall>v. logs rs index = Some v \<longrightarrow> v = cmd))"

lemma nCommitted_loop_Some:
  "nCommitted_loop index rss c cmd = Some (c', cmd') \<Longrightarrow>
     healthy index cmd' rss \<and> c' = c + length (filter (\<lambda>rs. logs rs index = Some cmd') rss) \<and> (0 < c \<longrightarrow> cmd' = cmd)"
proof (induction rss arbitrary: c cmd)
  case (Cons rs rss)
  from Cons.prems have ok: "applyErr rs = None" by (auto split: if_splits)
  show ?case
  proof (cases "logs rs index")
    case None
    with Cons.prems ok Cons.IH [of c cmd] show ?thesis by (simp add: healthy_def)
  next
    case (Some v)
    with Cons.prems ok have "nCommitted_loop index rss (c + 1) v = Some (c', cmd')" "\<not> (0 < c \<and> cmd \<noteq> v)"
      by (auto split: if_splits)
    with Cons.IH [of "c + 1" v] Some ok show ?thesis by (auto simp: healthy_def)
  qed
qed (simp add: healthy_def)

lemma nCommitted_Some:
  assumes "nCommitted index ts = Some (nd, cmd)"
  shows "healthy index cmd (Test.srvs ts)" "nd = applied_by index cmd ts"
  using nCommitted_loop_Some assms unfolding nCommitted_def applied_by_def by fastforce+



section \<open>one\<close>











section \<open>wait\<close>

lemma moved_on_True: "moved_on startTerm terms = Some True \<Longrightarrow> \<exists>t. Some t \<in> set terms \<and> startTerm < t"
  by (induction startTerm terms rule: moved_on.induct) (auto split: if_splits)

lemma wait_loop_result:
  assumes "wait_loop m index n startTerm obs k to slept = Some (moved, k', slept')"
  shows "slept' \<le> slept + sleeps m to \<and> k' \<le> k + m \<and>
    (moved \<longrightarrow> (\<exists>j < k'. \<exists>t. Some t \<in> set (snd (obs j)) \<and> startTerm < t))"
  using assms
proof (induction m arbitrary: k to slept)
  case (Suc m)
  obtain nd c where n: "nCommitted index (fst (obs k)) = Some (nd, c)"
    using Suc.prems by (cases "nCommitted index (fst (obs k))") auto
  let ?to = "if to < 1000 then to * 2 else to"
  show ?case
  proof (cases "n \<le> int nd")
    case True
    with Suc.prems n show ?thesis by simp
  next
    case False
    then obtain mv where mv: "(if startTerm > -1 then moved_on startTerm (snd (obs k)) else Some False) = Some mv"
      and rest: "(if mv then Some (True, k + 1, slept + to)
        else wait_loop m index n startTerm obs (k + 1) ?to (slept + to)) = Some (moved, k', slept')"
      using Suc.prems n by (cases "if startTerm > -1 then moved_on startTerm (snd (obs k)) else Some False") (simp_all add: Let_def)
    show ?thesis
    proof (cases mv)
      case True
      with mv have "\<exists>t. Some t \<in> set (snd (obs k)) \<and> startTerm < t" using moved_on_True by (auto split: if_splits)
      with True rest show ?thesis by auto
    next
      case False
      with rest have "wait_loop m index n startTerm obs (k + 1) ?to (slept + to) = Some (moved, k', slept')" by simp
      from Suc.IH [OF this] show ?thesis by simp
    qed
  qed
qed simp

section \<open>Asking a running cluster\<close>








section \<open>The record of a running cluster\<close>





section \<open>Killing and restarting servers\<close>

text \<open>A server without a proxy is cut off and its daemon does not run.\<close>

definition rt_ok :: "(nat \<Rightarrow> string) \<Rightarrow> ('r, 'b) raft_test \<Rightarrow> bool" where
  "rt_ok rs ts \<longleftrightarrow> grp_inv rs (rt_grp ts) \<and> length (rt_rfsrv ts) = size_of (snd (rt_grp ts)) \<and>
     (\<forall>i < size_of (snd (rt_grp ts)). \<not> rt_rfsrv ts ! i \<longrightarrow>
        \<not> connected (snd (rt_grp ts)) ! i \<and> dc (ServerGrp.srvs (snd (rt_grp ts)) ! i) = None)"

datatype rt_op = RKill "nat list" | RRestart "nat \<Rightarrow> bool \<times> nat" "nat list" | RDisconnect nat | RReconnect nat

fun rt_exec :: "(nat \<Rightarrow> string) \<Rightarrow> rt_op \<Rightarrow> ('r, 'b) raft_test \<Rightarrow> ('r, 'b) raft_test option" where
  "rt_exec rs (RKill idx) ts = raft_kill idx ts"
| "rt_exec rs (RRestart env idx) ts = raft_restart rs env idx ts"
| "rt_exec rs (RDisconnect i) ts = map_option (\<lambda>g. ts\<lparr>rt_grp := g\<rparr>) (DisconnectAll i (rt_grp ts))"
| "rt_exec rs (RReconnect i) ts = map_option (\<lambda>g. ts\<lparr>rt_grp := g\<rparr>) (ConnectOne i (rt_grp ts))"

text \<open>What the tests keep to: a server is restarted after it was killed, and reconnected when it was not.\<close>

fun rt_allowed :: "rt_op \<Rightarrow> ('r, 'b) raft_test \<Rightarrow> bool" where
  "rt_allowed (RKill idx) ts \<longleftrightarrow> list_all (\<lambda>i. i < length (rt_rfsrv ts)) idx"
| "rt_allowed (RRestart env idx) ts \<longleftrightarrow> distinct idx \<and> list_all (\<lambda>i. i < length (rt_rfsrv ts) \<and> \<not> rt_rfsrv ts ! i) idx"
| "rt_allowed (RDisconnect i) ts \<longleftrightarrow> i < length (rt_rfsrv ts)"
| "rt_allowed (RReconnect i) ts \<longleftrightarrow> i < length (rt_rfsrv ts) \<and> rt_rfsrv ts ! i"

lemma each_set_rfsrv:
  "\<forall>x \<in> set xs. x < length ps \<Longrightarrow> \<exists>ps'. each (set_rfsrv yes) xs ps = Some ps' \<and> length ps' = length ps \<and>
     (\<forall>j < length ps. ps' ! j = (if j \<in> set xs then yes else ps ! j))"
proof (induction xs arbitrary: ps)
  case (Cons x xs)
  then obtain ps' where "each (set_rfsrv yes) xs (ps[x := yes]) = Some ps'" "length ps' = length ps"
    "\<forall>j < length ps. ps' ! j = (if j \<in> set xs then yes else ps[x := yes] ! j)"
    using Cons.IH [of "ps[x := yes]"] by auto
  moreover have "set_rfsrv yes x ps = Some (ps[x := yes])" using Cons.prems by (simp add: set_rfsrv_def)
  ultimately show ?case using Cons.prems by (intro exI [of _ ps']) (auto simp: nth_list_update)
qed simp

lemma grp_inv_length: "grp_inv rs st \<Longrightarrow> length (connected (snd st)) = size_of (snd st)"
  by (simp add: grp_inv_def wired_def names_ok_def)

lemma inv_Kill:
  assumes rs: "inj rs"
  shows "grp_inv rs st \<Longrightarrow> \<forall>x \<in> set xs. x < size_of (snd st) \<Longrightarrow>
    \<exists>st'. Kill xs st = Some st' \<and> grp_inv rs st' \<and> size_of (snd st') = size_of (snd st) \<and>
      (\<forall>j < size_of (snd st). (connected (snd st') ! j \<longleftrightarrow> connected (snd st) ! j \<and> j \<notin> set xs) \<and>
        (j \<in> set xs \<or> dc (ServerGrp.srvs (snd st) ! j) = None \<longrightarrow> dc (ServerGrp.srvs (snd st') ! j) = None))"
  unfolding Kill_def
proof (induction xs arbitrary: st)
  case (Cons x xs)
  have x: "x < size_of (snd st)" using Cons.prems(2) by simp
  obtain s where s: "ShutdownServer x st = Some s" "grp_inv rs s" "size_of (snd s) = size_of (snd st)"
    "connected (snd s) = (connected (snd st))[x := False]"
    "ServerGrp.srvs (snd s) = (ServerGrp.srvs (snd st))[x := shutdownServer (ServerGrp.srvs (snd st) ! x)]"
    "dc (ServerGrp.srvs (snd s) ! x) = None"
    using inv_ShutdownServer [OF rs Cons.prems(1) x] by blast
  obtain t where t: "each ShutdownServer xs s = Some t" "grp_inv rs t" "size_of (snd t) = size_of (snd s)"
    "\<forall>j < size_of (snd s). (connected (snd t) ! j \<longleftrightarrow> connected (snd s) ! j \<and> j \<notin> set xs) \<and>
        (j \<in> set xs \<or> dc (ServerGrp.srvs (snd s) ! j) = None \<longrightarrow> dc (ServerGrp.srvs (snd t) ! j) = None)"
    using Cons.IH [OF s(2)] Cons.prems(2) s(3) by auto
  have "connected (snd s) ! j \<longleftrightarrow> connected (snd st) ! j \<and> j \<noteq> x" if "j < size_of (snd st)" for j
    using that x grp_inv_length [OF Cons.prems(1)] by (simp add: s(4) nth_list_update)
  moreover have "dc (ServerGrp.srvs (snd s) ! j) = None" if "j = x \<or> dc (ServerGrp.srvs (snd st) ! j) = None" for j
    using that s(5,6) by (cases "j = x") simp_all
  ultimately show ?case using s(1,3) t by auto
qed simp

lemma rt_ok_kill:
  assumes "inj rs" "rt_ok rs ts" "rt_allowed (RKill idx) ts"
  shows "\<exists>ts'. raft_kill idx ts = Some ts' \<and> rt_ok rs ts' \<and> length (rt_rfsrv ts') = length (rt_rfsrv ts)"
proof -
  have idx: "\<forall>x \<in> set idx. x < size_of (snd (rt_grp ts))" "\<forall>x \<in> set idx. x < length (rt_rfsrv ts)"
    and inv: "grp_inv rs (rt_grp ts)"
    using assms(2,3) by (auto simp: rt_ok_def list_all_iff)
  obtain g where "Kill idx (rt_grp ts) = Some g" "grp_inv rs g" "size_of (snd g) = size_of (snd (rt_grp ts))"
    "\<forall>j < size_of (snd (rt_grp ts)). (connected (snd g) ! j \<longleftrightarrow> connected (snd (rt_grp ts)) ! j \<and> j \<notin> set idx) \<and>
        (j \<in> set idx \<or> dc (ServerGrp.srvs (snd (rt_grp ts)) ! j) = None \<longrightarrow> dc (ServerGrp.srvs (snd g) ! j) = None)"
    using inv_Kill [OF assms(1) inv idx(1)] by blast
  moreover obtain ps where "each (set_rfsrv False) idx (rt_rfsrv ts) = Some ps" "length ps = length (rt_rfsrv ts)"
    "\<forall>j < length (rt_rfsrv ts). ps ! j = (if j \<in> set idx then False else rt_rfsrv ts ! j)"
    using each_set_rfsrv [OF idx(2)] by blast
  ultimately show ?thesis using assms(2) by (auto simp: raft_kill_def rt_ok_def)
qed

definition restart_one :: "nat \<Rightarrow> ('r, 'b) raft_test \<Rightarrow> ('r, 'b) raft_test option" where
  "restart_one srv ts = do {
     ts1 \<leftarrow> raft_mksrv srv ts;
     g1 \<leftarrow> ConnectOne srv (rt_grp ts1);
     Some (ts1\<lparr>rt_grp := g1\<rparr>)
   }"

lemma restart_loop:
  assumes rs: "inj rs"
  shows "grp_inv rs (rt_grp ts) \<Longrightarrow> length (rt_rfsrv ts) = size_of (snd (rt_grp ts)) \<Longrightarrow> \<forall>x \<in> set xs. x < length (rt_rfsrv ts) \<Longrightarrow>
    \<exists>ts'. each restart_one xs ts = Some ts' \<and> grp_inv rs (rt_grp ts') \<and> length (rt_rfsrv ts') = length (rt_rfsrv ts) \<and>
      ServerGrp.srvs (snd (rt_grp ts')) = ServerGrp.srvs (snd (rt_grp ts)) \<and>
      (\<forall>j < length (rt_rfsrv ts). (rt_rfsrv ts' ! j \<longleftrightarrow> rt_rfsrv ts ! j \<or> j \<in> set xs) \<and>
         (connected (snd (rt_grp ts')) ! j \<longrightarrow> connected (snd (rt_grp ts)) ! j \<or> j \<in> set xs))"
proof (induction xs arbitrary: ts)
  case (Cons x xs)
  let ?n = "length (rt_rfsrv ts)"
  have x: "x < ?n" "x < size_of (snd (rt_grp ts))" using Cons.prems(2,3) by simp_all
  obtain g where g: "ConnectOne x (rt_grp ts) = Some g" "grp_inv rs g" "same_but_links (rt_grp ts) g"
    "connected (snd g) = (connected (snd (rt_grp ts)))[x := True]"
    using inv_ConnectOne [OF rs Cons.prems(1) x(2)] by blast
  define t where "t = ts\<lparr>rt_rfsrv := (rt_rfsrv ts)[x := True], rt_grp := g\<rparr>"
  have one: "restart_one x ts = Some t" using x g(1) by (simp add: restart_one_def raft_mksrv_def set_rfsrv_def t_def)
  have same: "ServerGrp.srvs (snd (rt_grp t)) = ServerGrp.srvs (snd (rt_grp ts))" "length (rt_rfsrv t) = ?n"
    "size_of (snd (rt_grp t)) = ?n" "grp_inv rs (rt_grp t)"
    using g(2,3) Cons.prems(2) by (simp_all add: t_def same_but_links_def size_of_def)
  have tx: "\<forall>j < ?n. (rt_rfsrv t ! j \<longleftrightarrow> rt_rfsrv ts ! j \<or> j = x) \<and>
      (connected (snd (rt_grp t)) ! j \<longleftrightarrow> connected (snd (rt_grp ts)) ! j \<or> j = x)"
    using x grp_inv_length [OF Cons.prems(1)] Cons.prems(2) by (simp add: t_def g(4) nth_list_update)
  obtain u where "each restart_one xs t = Some u" "grp_inv rs (rt_grp u)" "length (rt_rfsrv u) = ?n"
    "ServerGrp.srvs (snd (rt_grp u)) = ServerGrp.srvs (snd (rt_grp t))"
    "\<forall>j < ?n. (rt_rfsrv u ! j \<longleftrightarrow> rt_rfsrv t ! j \<or> j \<in> set xs) \<and>
       (connected (snd (rt_grp u)) ! j \<longrightarrow> connected (snd (rt_grp t)) ! j \<or> j \<in> set xs)"
    using Cons.IH [OF same(4)] same Cons.prems(3) by auto
  with one same(1) tx show ?case by auto
qed simp

lemma rt_ok_restart:
  assumes "inj rs" "rt_ok rs ts" "rt_allowed (RRestart env idx) ts"
  shows "\<exists>ts'. raft_restart rs env idx ts = Some ts' \<and> rt_ok rs ts' \<and> length (rt_rfsrv ts') = length (rt_rfsrv ts)"
proof -
  have ok: "grp_inv rs (rt_grp ts)" "length (rt_rfsrv ts) = size_of (snd (rt_grp ts))"
    and idx: "distinct idx" "\<forall>x \<in> set idx. x < size_of (snd (rt_grp ts)) \<and> \<not> connected (snd (rt_grp ts)) ! x \<and>
      dc (ServerGrp.srvs (snd (rt_grp ts)) ! x) = None"
    using assms(2,3) by (auto simp: rt_ok_def list_all_iff)
  obtain g where g: "StartSrvs rs env idx (rt_grp ts) = Some g" "grp_inv rs g" "size_of (snd g) = size_of (snd (rt_grp ts))"
    "connected (snd g) = connected (snd (rt_grp ts))"
    "\<forall>j < size_of (snd (rt_grp ts)). j \<notin> set idx \<longrightarrow> ServerGrp.srvs (snd g) ! j = ServerGrp.srvs (snd (rt_grp ts)) ! j"
    using inv_StartSrvs [OF assms(1) ok(1) idx] by blast
  let ?t = "ts\<lparr>rt_grp := g\<rparr>"
  obtain u where u: "each restart_one idx ?t = Some u" "grp_inv rs (rt_grp u)" "length (rt_rfsrv u) = length (rt_rfsrv ts)"
    "ServerGrp.srvs (snd (rt_grp u)) = ServerGrp.srvs (snd g)"
    "\<forall>j < length (rt_rfsrv ts). (rt_rfsrv u ! j \<longleftrightarrow> rt_rfsrv ts ! j \<or> j \<in> set idx) \<and>
       (connected (snd (rt_grp u)) ! j \<longrightarrow> connected (snd g) ! j \<or> j \<in> set idx)"
    using restart_loop [OF assms(1), of ?t idx] g(2,3) ok(2) idx(2) by auto
  have "size_of (snd (rt_grp u)) = size_of (snd (rt_grp ts))" using u(4) g(3) by (simp add: size_of_def)
  moreover have "raft_restart rs env idx ts = Some u"
    using g(1) u(1) unfolding raft_restart_def restart_one_def by simp
  ultimately show ?thesis using assms(2) u g(4,5) ok(2) by (auto simp: rt_ok_def)
qed

lemma rt_ok_exec:
  assumes "inj rs" "rt_ok rs ts" "rt_allowed op ts"
  shows "\<exists>ts'. rt_exec rs op ts = Some ts' \<and> rt_ok rs ts' \<and> length (rt_rfsrv ts') = length (rt_rfsrv ts)"
proof (cases op)
  case (RKill idx)
  with rt_ok_kill [OF assms(1,2), of idx] assms(3) show ?thesis by simp
next
  case (RRestart env idx)
  with rt_ok_restart [OF assms(1,2), of env idx] assms(3) show ?thesis by simp
next
  case (RDisconnect i)
  then obtain g where g: "DisconnectAll i (rt_grp ts) = Some g" "grp_inv rs g" "same_but_links (rt_grp ts) g"
    "connected (snd g) = (connected (snd (rt_grp ts)))[i := False]"
    using inv_DisconnectAll [OF assms(1), of "rt_grp ts" i] assms(2,3) by (auto simp: rt_ok_def)
  then have "ServerGrp.srvs (snd g) = ServerGrp.srvs (snd (rt_grp ts))" by (simp add: same_but_links_def)
  with g assms(2,3) RDisconnect show ?thesis
    using grp_inv_length [of rs "rt_grp ts"] by (auto simp: rt_ok_def size_of_def nth_list_update)
next
  case (RReconnect i)
  then obtain g where g: "ConnectOne i (rt_grp ts) = Some g" "grp_inv rs g" "same_but_links (rt_grp ts) g"
    "connected (snd g) = (connected (snd (rt_grp ts)))[i := True]"
    using inv_ConnectOne [OF assms(1), of "rt_grp ts" i] assms(2,3) by (auto simp: rt_ok_def)
  then have "ServerGrp.srvs (snd g) = ServerGrp.srvs (snd (rt_grp ts))" by (simp add: same_but_links_def)
  with g assms(2,3) RReconnect show ?thesis
    using grp_inv_length [of rs "rt_grp ts"] by (auto simp: rt_ok_def size_of_def nth_list_update)
qed

lemma ask_states_ok:
  assumes "\<forall>i \<in> set is'. connected (snd (rt_grp ts)) ! i \<longrightarrow> rt_rfsrv ts ! i"
  shows "ask_states is' getState ts =
    Some (map (\<lambda>i. (i, getState i)) (filter (\<lambda>i. connected (snd (rt_grp ts)) ! i) is'))"
  using assms by (induction is') auto

lemma grp_inv_LongDelays: "grp_inv rs (apfst (LongDelays yes) nk, sg) \<longleftrightarrow> grp_inv rs (nk, sg)"
proof (cases nk)
  case (Pair rn k)
  have "wired rs ((LongDelays yes rn, k), sg) = wired rs ((rn, k), sg)"
    "meshed ((LongDelays yes rn, k), sg) = meshed ((rn, k), sg)"
    by (rule wired_meshed_cong; simp add: LongDelays_def)+
  then show ?thesis by (simp add: Pair grp_inv_def serving_ok_def LongDelays_def)
qed

lemma each_mksrv:
  "\<forall>x \<in> set xs. x < length (rt_rfsrv ts) \<Longrightarrow>
     \<exists>ps. each raft_mksrv xs ts = Some (ts\<lparr>rt_rfsrv := ps\<rparr>) \<and> each (set_rfsrv True) xs (rt_rfsrv ts) = Some ps"
proof (induction xs arbitrary: ts)
  case (Cons x xs)
  let ?t = "ts\<lparr>rt_rfsrv := (rt_rfsrv ts)[x := True]\<rparr>"
  have "set_rfsrv True x (rt_rfsrv ts) = Some ((rt_rfsrv ts)[x := True])" using Cons.prems by (simp add: set_rfsrv_def)
  with Cons.IH [of ?t] Cons.prems show ?case by (auto simp: raft_mksrv_def)
qed simp

lemma rt_ok_start:
  assumes "inj rs"
  shows "\<exists>ts :: ('r, 'b) raft_test. raft_makeTest rs env n True k = Some ts \<and> rt_ok rs ts \<and> length (rt_rfsrv ts) = n"
proof -
  obtain cfg :: "('r, 'b) Config" and sg where cfg: "MakeConfig rs env n True k = Some cfg" "Config_Group GRP0 cfg = Some sg"
    "size_of sg = n" "grp_inv rs (cfg_net cfg, sg)"
    using MakeConfig_starts [OF assms, of env n True k] by blast
  define t0 where "t0 = \<lparr>rt_grp = (apfst (LongDelays True) (cfg_net cfg), sg), rt_rfsrv = replicate n False\<rparr>"
  have up: "\<forall>x \<in> set [0..<n]. x < length (rt_rfsrv t0)" by (simp add: t0_def)
  obtain ps where ps: "each raft_mksrv [0..<n] t0 = Some (t0\<lparr>rt_rfsrv := ps\<rparr>)" "each (set_rfsrv True) [0..<n] (rt_rfsrv t0) = Some ps"
    using each_mksrv [OF up] by blast
  then have "length ps = n" "\<forall>j < n. ps ! j" using each_set_rfsrv [OF up, of True] by (auto simp: t0_def)
  with cfg grp_inv_LongDelays [of rs True "cfg_net cfg" sg] have "rt_ok rs (t0\<lparr>rt_rfsrv := ps\<rparr>)"
    by (simp add: rt_ok_def t0_def)
  moreover have "raft_makeTest rs env n True k = Some (t0\<lparr>rt_rfsrv := ps\<rparr>)"
    using cfg(1,2) ps(1) by (simp add: raft_makeTest_def t0_def SetLongDelays_def Config_Group_def)
  ultimately show ?thesis using \<open>length ps = n\<close> by auto
qed

text \<open>The states of a test of \<open>n\<close> servers.\<close>

inductive rt_reachable :: "(nat \<Rightarrow> string) \<Rightarrow> nat \<Rightarrow> ('r, 'b) raft_test \<Rightarrow> bool" for rs n where
  start: "raft_makeTest rs env n True k = Some ts \<Longrightarrow> rt_reachable rs n ts"
| go: "rt_reachable rs n ts \<Longrightarrow> rt_allowed op ts \<Longrightarrow> rt_exec rs op ts = Some ts' \<Longrightarrow> rt_reachable rs n ts'"

lemma rt_reachable_ok:
  fixes ts :: "('r, 'b) raft_test"
  assumes "rt_reachable rs n ts" "inj rs"
  shows "rt_ok rs ts \<and> length (rt_rfsrv ts) = n"
  using assms(1)
proof induction
  case (start env k ts)
  with rt_ok_start [OF assms(2), of env n k, where 'r = 'r and 'b = 'b] show ?case by simp
next
  case (go ts op ts')
  with rt_ok_exec [OF assms(2), of ts op] show ?case by auto
qed

section \<open>Properties\<close>






definition two_applied :: "string Test" where
  "two_applied = \<lparr>Test.srvs = [newRaftServer\<lparr>logs := [1 \<mapsto> Some ''x'']\<rparr>, newRaftServer\<lparr>logs := [1 \<mapsto> Some ''x'']\<rparr>], maxIndex = 1\<rparr>"



text \<open>
  \<open>wait\<close> does not wait for long and returns what it waited for: it sleeps at most 30.71 seconds
  in all, and returns a command only if at the last look enough servers had applied it at the index and
  no server another one; it gives up early only after some server has answered with a later term.
\<close>

theorem wait_bounded:
  assumes "wait index n startTerm obs = Some (r, slept)"
  shows "slept \<le> 30710 \<and>
    (case r of
       Moved \<Rightarrow> \<exists>j < 30. \<exists>t. Some t \<in> set (snd (obs j)) \<and> startTerm < t
     | Decided cmd \<Rightarrow> \<exists>j \<le> 30. healthy index cmd (Test.srvs (fst (obs j))) \<and> n \<le> int (applied_by index cmd (fst (obs j))))"
proof -
  obtain moved k sl where l: "wait_loop 30 index n startTerm obs 0 10 0 = Some (moved, k, sl)"
    and rest: "(if moved then Some (Moved, sl) else do {
       (nd, cmd) \<leftarrow> nCommitted index (fst (obs k));
       if int nd < n then None else Some (Decided cmd, sl) }) = Some (r, slept)"
    using assms by (auto simp: wait_def bind_Some_iff)
  note w = wait_loop_result [OF l, unfolded sleeps_30]
  show ?thesis
  proof (cases moved)
    case True
    with w obtain j t where "j < k" "k \<le> 30" "Some t \<in> set (snd (obs j))" "startTerm < t" by auto
    then have "\<exists>j < 30. \<exists>t. Some t \<in> set (snd (obs j)) \<and> startTerm < t" by (intro exI [of _ j]) auto
    with True rest w show ?thesis by simp
  next
    case False
    then obtain nd cmd where "nCommitted index (fst (obs k)) = Some (nd, cmd)" "n \<le> int nd" "r = Decided cmd" "slept = sl"
      using rest by (auto simp: bind_Some_iff split: if_splits)
    with nCommitted_Some [of index "fst (obs k)"] w show ?thesis by auto
  qed
qed

theorem wait_bounded_witness:
  "wait 1 2 (-1) (\<lambda>k. (if k = 0 then makeTest 2 else two_applied, [])) = Some (Decided (Some ''x''), 10) \<and> 10 \<le> (30710 :: nat)"
proof -
  let ?obs = "\<lambda>k :: nat. (if k = 0 then makeTest 2 else two_applied, [] :: int option list)"
  have "nCommitted 1 (makeTest 2 :: string Test) = Some (0, None)" "nCommitted 1 two_applied = Some (2, Some ''x'')"
    by (simp_all add: nCommitted_def two_applied_def makeTest_def newRaftServer_def numeral_2_eq_2)
  then have "wait 1 2 (-1) ?obs = Some (Decided (Some ''x''), 10)"
    by (simp add: wait_def numeral_eq_Suc)
  with wait_bounded [OF this] show ?thesis by simp
qed

text \<open>
  The checks never follow a nil proxy and ask exactly the connected servers: in every state a test
  of a reliable network reaches by killing, restarting, disconnecting and reconnecting servers, no
  such step panics and the answers are those of the connected servers in order. Restarts are of
  killed servers, and killed servers are not reconnected; random names differ.
\<close>

theorem checks_ask_connected:
  assumes "rt_reachable rs n ts" "inj rs"
  shows "ask_states [0..<n] getState ts =
      Some (map (\<lambda>i. (i, getState i)) (filter (\<lambda>i. connected (snd (rt_grp ts)) ! i) [0..<n])) \<and>
    (\<forall>op. rt_allowed op ts \<longrightarrow> rt_exec rs op ts \<noteq> None)"
proof -
  have ok: "rt_ok rs ts" "length (rt_rfsrv ts) = n" using rt_reachable_ok [OF assms] by simp_all
  then have "\<forall>i \<in> set [0..<n]. connected (snd (rt_grp ts)) ! i \<longrightarrow> rt_rfsrv ts ! i" by (auto simp: rt_ok_def)
  with rt_ok_exec [OF assms(2) ok(1)] show ?thesis by (metis ask_states_ok option.distinct(1))
qed

end
