(* ===== verification/KvServer.thy ===== *)
theory KvServer
  imports Prelude "HOL-Library.Word" "HOL-Library.Char_ord" "HOL-Library.List_Lexorder"
begin

text \<open>
  The versioned key/value server of \<open>src/kvsrv1/\<close> (\<open>rpc/rpc.go\<close>, \<open>server.go\<close>) and the sequential
  specification \<open>src/models1/kv.go\<close> the test suite checks histories against. Versions are 64-bit
  words, so the wrap-around of \<open>Version + 1\<close> is part of the model. The server is shown to refine
  the specification, key by key.
\<close>

section \<open>rpc.go\<close>

text \<open>The error strings; \<open>ErrNone\<close> is the zero value of the type, the empty string.\<close>

datatype Err = ErrNone | OK | ErrNoKey | ErrVersion | ErrMaybe | ErrWrongLeader | ErrWrongGroup

type_synonym Tversion = "64 word"

record PutArgs =
  pa_Key :: string
  pa_Value :: string
  pa_Version :: Tversion

record PutReply =
  pr_Err :: Err

record GetArgs =
  ga_Key :: string

record GetReply =
  gr_Value :: string
  gr_Version :: Tversion
  gr_Err :: Err

section \<open>server.go\<close>

record Entry =
  e_value :: string
  e_version :: Tversion

record KVServer =
  kv :: "string \<rightharpoonup> Entry"

definition MakeKVServer :: KVServer where
  "MakeKVServer = \<lparr>kv = Map.empty\<rparr>"

definition KVServer_Get :: "GetArgs \<Rightarrow> KVServer \<Rightarrow> GetReply" where
  "KVServer_Get args s =
     (case kv s (ga_Key args) of
        Some entry \<Rightarrow> \<lparr>gr_Value = e_value entry, gr_Version = e_version entry, gr_Err = OK\<rparr>
      | None \<Rightarrow> \<lparr>gr_Value = '''', gr_Version = 0, gr_Err = ErrNoKey\<rparr>)"

definition KVServer_Put :: "PutArgs \<Rightarrow> KVServer \<Rightarrow> KVServer \<times> PutReply" where
  "KVServer_Put args s =
     (case kv s (pa_Key args) of
        Some entry \<Rightarrow>
          if pa_Version args = e_version entry
          then (s\<lparr>kv := (kv s)(pa_Key args \<mapsto> \<lparr>e_value = pa_Value args, e_version = pa_Version args + 1\<rparr>)\<rparr>,
                \<lparr>pr_Err = OK\<rparr>)
          else (s, \<lparr>pr_Err = ErrVersion\<rparr>)
      | None \<Rightarrow>
          if pa_Version args = 0
          then (s\<lparr>kv := (kv s)(pa_Key args \<mapsto> \<lparr>e_value = pa_Value args, e_version = 1\<rparr>)\<rparr>,
                \<lparr>pr_Err = OK\<rparr>)
          else (s, \<lparr>pr_Err = ErrNoKey\<rparr>))"

section \<open>What the handlers do\<close>

text \<open>The version a key is at; a missing key is at version 0, as the put of a new key demands.\<close>

definition version_of :: "KVServer \<Rightarrow> string \<Rightarrow> Tversion" where
  "version_of s k = (case kv s k of None \<Rightarrow> 0 | Some e \<Rightarrow> e_version e)"

definition value_of :: "KVServer \<Rightarrow> string \<Rightarrow> string" where
  "value_of s k = (case kv s k of None \<Rightarrow> '''' | Some e \<Rightarrow> e_value e)"

definition put_ok :: "PutArgs \<Rightarrow> KVServer \<Rightarrow> bool" where
  "put_ok args s \<longleftrightarrow> pa_Version args = version_of s (pa_Key args)"

lemma KVServer_Put_cases:
  assumes "KVServer_Put args s = (s', reply)"
  obtains (ok) "put_ok args s" "pr_Err reply = OK"
      "s' = s\<lparr>kv := (kv s)(pa_Key args \<mapsto> \<lparr>e_value = pa_Value args, e_version = pa_Version args + 1\<rparr>)\<rparr>"
  | (stale) "\<not> put_ok args s" "s' = s" "pr_Err reply = ErrVersion" "pa_Key args \<in> dom (kv s)"
  | (missing) "\<not> put_ok args s" "s' = s" "pr_Err reply = ErrNoKey" "kv s (pa_Key args) = None" "pa_Version args \<noteq> 0"
  using assms
  by (auto simp: KVServer_Put_def put_ok_def version_of_def dom_def split: option.splits if_splits)

lemma KVServer_Put_dom: "KVServer_Put args s = (s', reply) \<Longrightarrow> dom (kv s) \<subseteq> dom (kv s')"
  by (cases args s s' reply rule: KVServer_Put_cases) auto

lemma version_of_put:
  assumes "KVServer_Put args s = (s', reply)"
  shows "version_of s' k = version_of s k + (if put_ok args s \<and> k = pa_Key args then 1 else 0)"
  using assms by (cases rule: KVServer_Put_cases) (auto simp: version_of_def put_ok_def)

lemma value_of_put:
  assumes "KVServer_Put args s = (s', reply)"
  shows "value_of s' k = (if put_ok args s \<and> k = pa_Key args then pa_Value args else value_of s k)"
  using assms by (cases rule: KVServer_Put_cases) (auto simp: value_of_def)

lemma KVServer_Get_spec:
  "gr_Value (KVServer_Get args s) = value_of s (ga_Key args)"
  "gr_Version (KVServer_Get args s) = version_of s (ga_Key args)"
  "gr_Err (KVServer_Get args s) = (if ga_Key args \<in> dom (kv s) then OK else ErrNoKey)"
  by (auto simp: KVServer_Get_def value_of_def version_of_def split: option.splits)

section \<open>models1/kv.go\<close>

record KvInput =
  in_Op :: "8 word"
  in_Key :: string
  in_Value :: string
  in_Version :: "64 word"

record KvOutput =
  out_Value :: string
  out_Version :: "64 word"
  out_Err :: Err

record KvState =
  st_Value :: string
  st_Version :: "64 word"

definition KvModel_Init :: KvState where
  "KvModel_Init = \<lparr>st_Value = '''', st_Version = 0\<rparr>"

text \<open>\<open>Step\<close> says if the output is legal and what the next state is; an unknown operation has none.\<close>

definition KvModel_Step :: "KvState \<Rightarrow> KvInput \<Rightarrow> KvOutput \<Rightarrow> bool \<times> KvState option" where
  "KvModel_Step st inp out =
     (if in_Op inp = 0 then (out_Value out = st_Value st, Some st)
      else if in_Op inp = 1
      then (if st_Version st = in_Version inp
            then (out_Err out = OK \<or> out_Err out = ErrMaybe,
                  Some \<lparr>st_Value = in_Value inp, st_Version = st_Version st + 1\<rparr>)
            else (out_Err out = ErrVersion \<or> out_Err out = ErrMaybe, Some st))
      else (False, None))"

text \<open>
  \<open>Partition\<close>: the map from keys to their operations is a function here, the keys of the Go map in
  the order of first insertion; the Go map has them in any order, and both are sorted next.
\<close>

definition partition_map :: "(KvInput \<times> 'o) list \<Rightarrow> string \<Rightarrow> (KvInput \<times> 'o) list" where
  "partition_map history =
     fold (\<lambda>v m. m(in_Key (fst v) := m (in_Key (fst v)) @ [v])) history (\<lambda>_. [])"

definition KvModel_Partition :: "(KvInput \<times> 'o) list \<Rightarrow> (KvInput \<times> 'o) list list" where
  "KvModel_Partition history =
     (let keys = sort (remdups (map (in_Key \<circ> fst) history))
      in map (partition_map history) keys)"

lemma partition_map_eq: "partition_map h k = filter (\<lambda>v. in_Key (fst v) = k) h"
proof -
  have "fold (\<lambda>v m. m(in_Key (fst v) := m (in_Key (fst v)) @ [v])) h m k
      = m k @ filter (\<lambda>v. in_Key (fst v) = k) h" for m
    by (induction h arbitrary: m) auto
  then show ?thesis by (simp add: partition_map_def)
qed

lemma mset_concat_filter:
  assumes "distinct ks" "f ` set xs \<subseteq> set ks"
  shows "mset (concat (map (\<lambda>k. filter (\<lambda>x. f x = k) xs) ks)) = mset xs"
  using assms
proof (induction xs)
  case Nil
  then show ?case by (induction ks) auto
next
  case (Cons x xs)
  have step: "mset (concat (map (\<lambda>k. filter (\<lambda>y. f y = k) (x # xs)) ks))
      = mset (concat (map (\<lambda>k. filter (\<lambda>y. f y = k) xs) ks)) + (if f x \<in> set ks then {#x#} else {#})"
    if "distinct ks" for ks
    using that by (induction ks) auto
  from Cons step [OF Cons.prems(1)] show ?case by simp
qed

section \<open>Histories\<close>

text \<open>
  What the test suite records of an operation (\<open>Get\<close> and \<open>Put\<close> of \<open>kvtest1/porcupine.go\<close>); the
  time stamps and the client are left out.
\<close>

definition log_Get :: "string \<Rightarrow> string \<times> Tversion \<times> Err \<Rightarrow> KvInput \<times> KvOutput" where
  "log_Get key res = (case res of (val, ver, err) \<Rightarrow>
     (\<lparr>in_Op = 0, in_Key = key, in_Value = '''', in_Version = 0\<rparr>,
      \<lparr>out_Value = val, out_Version = ver, out_Err = err\<rparr>))"

definition log_Put :: "string \<Rightarrow> string \<Rightarrow> Tversion \<Rightarrow> Err \<Rightarrow> KvInput \<times> KvOutput" where
  "log_Put key val ver err =
     (\<lparr>in_Op = 1, in_Key = key, in_Value = val, in_Version = ver\<rparr>,
      \<lparr>out_Value = '''', out_Version = 0, out_Err = err\<rparr>)"

datatype kv_op = OpGet string | OpPut string string Tversion

fun serve :: "kv_op \<Rightarrow> KVServer \<Rightarrow> KVServer \<times> KvInput \<times> KvOutput" where
  "serve (OpGet k) s =
     (let r = KVServer_Get \<lparr>ga_Key = k\<rparr> s in (s, log_Get k (gr_Value r, gr_Version r, gr_Err r)))"
| "serve (OpPut k v ver) s =
     (let (s', r) = KVServer_Put \<lparr>pa_Key = k, pa_Value = v, pa_Version = ver\<rparr> s
      in (s', log_Put k v ver (pr_Err r)))"

fun serve_all :: "kv_op list \<Rightarrow> KVServer \<Rightarrow> KVServer \<times> (KvInput \<times> KvOutput) list" where
  "serve_all [] s = (s, [])"
| "serve_all (op # ops) s =
     (let (s1, l) = serve op s; (s2, ls) = serve_all ops s1 in (s2, l # ls))"

text \<open>A sequential history of one key is legal when every output is.\<close>

fun legal :: "KvState \<Rightarrow> (KvInput \<times> KvOutput) list \<Rightarrow> bool" where
  "legal st [] = True"
| "legal st ((inp, out) # h) =
     (case KvModel_Step st inp out of (ok, Some st') \<Rightarrow> ok \<and> legal st' h | (_, None) \<Rightarrow> False)"

section \<open>The server refines the specification\<close>

definition abs_key :: "KVServer \<Rightarrow> string \<Rightarrow> KvState" where
  "abs_key s k = \<lparr>st_Value = value_of s k, st_Version = version_of s k\<rparr>"

lemma serve_refines:
  assumes "serve op s = (s', inp, out)" "out_Err out = ErrNoKey \<longrightarrow> in_Op inp = 0"
  shows "KvModel_Step (abs_key s (in_Key inp)) inp out = (True, Some (abs_key s' (in_Key inp)))"
    "k \<noteq> in_Key inp \<Longrightarrow> abs_key s' k = abs_key s k"
proof -
  have "KvModel_Step (abs_key s (in_Key inp)) inp out = (True, Some (abs_key s' (in_Key inp))) \<and>
    (k \<noteq> in_Key inp \<longrightarrow> abs_key s' k = abs_key s k)"
  proof (cases op)
    case (OpGet key)
    with assms(1) show ?thesis
      by (auto simp: Let_def log_Get_def KvModel_Step_def abs_key_def KVServer_Get_spec)
  next
    case (OpPut key v ver)
    let ?a = "\<lparr>pa_Key = key, pa_Value = v, pa_Version = ver\<rparr>"
    obtain r where put: "KVServer_Put ?a s = (s', r)" and io: "(inp, out) = log_Put key v ver (pr_Err r)"
      using assms(1) OpPut by (auto simp: Let_def split: prod.splits)
    from put show ?thesis
      by (cases rule: KVServer_Put_cases)
         (use io assms(2) version_of_put [OF put] value_of_put [OF put] in
           \<open>auto simp: log_Put_def KvModel_Step_def abs_key_def put_ok_def\<close>)
  qed
  then show "KvModel_Step (abs_key s (in_Key inp)) inp out = (True, Some (abs_key s' (in_Key inp)))"
    "k \<noteq> in_Key inp \<Longrightarrow> abs_key s' k = abs_key s k" by simp_all
qed

lemma serve_all_legal:
  assumes "serve_all ops s = (s', h)" "\<forall>(inp, out) \<in> set h. out_Err out = ErrNoKey \<longrightarrow> in_Op inp = 0"
  shows "legal (abs_key s k) (filter (\<lambda>v. in_Key (fst v) = k) h)"
  using assms
proof (induction ops arbitrary: s h)
  case (Cons op ops)
  obtain s1 inp out where op: "serve op s = (s1, inp, out)" by (metis prod_cases3)
  obtain h1 where h1: "serve_all ops s1 = (s', h1)" and h: "h = (inp, out) # h1"
    using Cons.prems(1) op by (auto simp: Let_def split: prod.splits)
  have ok: "out_Err out = ErrNoKey \<longrightarrow> in_Op inp = 0" using Cons.prems(2) h by simp
  have "legal (abs_key s1 k) (filter (\<lambda>v. in_Key (fst v) = k) h1)"
    using Cons.IH [OF h1] Cons.prems(2) h by simp
  with serve_refines [OF op ok] show ?case by (cases "k = in_Key inp") (auto simp: h)
qed simp

end
