(* ===== verification/KvClerk.thy ===== *)
theory KvClerk
  imports KvServer
begin

text \<open>
  The clerk of \<open>src/kvsrv1/client.go\<close>: \<open>Get\<close> and \<open>Put\<close> retry over a network that may drop a request
  or its reply, while other clients change the server between the attempts. A schedule says, for
  every attempt, which puts of other clients come first and what happens to the call; running out
  of schedule is still waiting. The theorems say what each result of a put means: how often it was
  performed at the server.
\<close>

section \<open>Calls over an unreliable network\<close>

datatype delivery = Drop | LoseReply | Answer

type_synonym schedule = "(PutArgs list \<times> delivery) list"

definition run_puts :: "PutArgs list \<Rightarrow> KVServer \<Rightarrow> KVServer" where
  "run_puts env s = fold (\<lambda>a s. fst (KVServer_Put a s)) env s"

section \<open>client.go\<close>

fun Clerk_Get :: "string \<Rightarrow> schedule \<Rightarrow> KVServer \<Rightarrow> (string \<times> Tversion \<times> Err) option" where
  "Clerk_Get key [] s = None"
| "Clerk_Get key ((env, d) # sched) s =
     (let s1 = run_puts env s in
      case d of
        Answer \<Rightarrow>
          (let reply = KVServer_Get \<lparr>ga_Key = key\<rparr> s1 in
           if gr_Err reply = ErrNoKey then Some ('''', 0, gr_Err reply)
           else if gr_Err reply \<noteq> OK then Clerk_Get key sched s1
           else Some (gr_Value reply, gr_Version reply, gr_Err reply))
      | _ \<Rightarrow> Clerk_Get key sched s1)"

fun Clerk_Put_loop :: "bool \<Rightarrow> PutArgs \<Rightarrow> schedule \<Rightarrow> KVServer \<Rightarrow> Err option \<times> KVServer" where
  "Clerk_Put_loop isFirst args [] s = (None, s)"
| "Clerk_Put_loop isFirst args ((env, d) # sched) s =
     (let s1 = run_puts env s in
      case d of
        Drop \<Rightarrow> Clerk_Put_loop False args sched s1
      | LoseReply \<Rightarrow> Clerk_Put_loop False args sched (fst (KVServer_Put args s1))
      | Answer \<Rightarrow>
          (let (s2, reply) = KVServer_Put args s1 in
           if pr_Err reply = ErrVersion then (Some (if isFirst then ErrVersion else ErrMaybe), s2)
           else if pr_Err reply = ErrNoKey then (Some (pr_Err reply), s2)
           else if pr_Err reply = OK then (Some (pr_Err reply), s2)
           else Clerk_Put_loop False args sched s2))"

definition Clerk_Put :: "string \<Rightarrow> string \<Rightarrow> Tversion \<Rightarrow> schedule \<Rightarrow> KVServer \<Rightarrow> Err option \<times> KVServer" where
  "Clerk_Put key val ver sched s =
     Clerk_Put_loop True \<lparr>pa_Key = key, pa_Value = val, pa_Version = ver\<rparr> sched s"

section \<open>How often a put is performed\<close>

text \<open>The attempts of the put that took effect at the server, following the loop.\<close>

fun performed :: "PutArgs \<Rightarrow> schedule \<Rightarrow> KVServer \<Rightarrow> nat" where
  "performed args [] s = 0"
| "performed args ((env, d) # sched) s =
     (let s1 = run_puts env s; hit = (if put_ok args s1 then 1 else 0) in
      case d of
        Drop \<Rightarrow> performed args sched s1
      | LoseReply \<Rightarrow> hit + performed args sched (fst (KVServer_Put args s1))
      | Answer \<Rightarrow> hit)"

text \<open>The number of puts a schedule can bring about at most.\<close>

definition traffic :: "schedule \<Rightarrow> nat" where
  "traffic sched = sum_list (map (\<lambda>(env, d). Suc (length env)) sched)"

lemma traffic_simps [simp]:
  "traffic [] = 0" "traffic ((env, d) # sched) = Suc (length env) + traffic sched"
  by (simp_all add: traffic_def)

lemma run_puts_Cons: "run_puts (a # env) s = run_puts env (fst (KVServer_Put a s))"
  by (simp add: run_puts_def)

lemma run_puts_dom: "dom (kv s) \<subseteq> dom (kv (run_puts env s))"
proof (induction env arbitrary: s)
  case (Cons a env)
  have "dom (kv s) \<subseteq> dom (kv (fst (KVServer_Put a s)))" by (metis KVServer_Put_dom prod.collapse)
  with Cons show ?case unfolding run_puts_Cons by blast
qed (simp add: run_puts_def)

lemma run_puts_version: "\<exists>j \<le> length env. version_of (run_puts env s) k = version_of s k + of_nat j"
proof (induction env arbitrary: s)
  case (Cons a env)
  define s1 where "s1 = fst (KVServer_Put a s)"
  have s1: "KVServer_Put a s = (s1, snd (KVServer_Put a s))" by (simp add: s1_def)
  obtain j where "j \<le> length env" "version_of (run_puts env s1) k = version_of s1 k + of_nat j"
    using Cons by blast
  with version_of_put [OF s1, of k] show ?case
    unfolding run_puts_Cons s1_def [symmetric]
    by (intro exI [of _ "j + (if put_ok a s \<and> k = pa_Key a then 1 else 0)"]) (auto simp: algebra_simps)
qed (simp add: run_puts_def)

lemma word_of_nat_neq_0: "0 < j \<Longrightarrow> j < 2 ^ 64 \<Longrightarrow> (of_nat j :: 64 word) \<noteq> 0"
  by (simp add: word_of_nat_eq_0_iff nat_dvd_not_less)

lemma put_not_ok_later:
  assumes "version_of s (pa_Key args) = pa_Version args + of_nat j" "0 < j" "j < 2 ^ 64"
  shows "\<not> put_ok args s"
  using assms word_of_nat_neq_0 [of j] by (simp add: put_ok_def)

text \<open>
  Once the put has taken effect the version has moved on, so no later attempt takes effect, and the
  clerk can only be told that the version does not match.
\<close>

lemma after_performed:
  assumes "version_of s (pa_Key args) = pa_Version args + of_nat j" "0 < j"
    and "j + traffic sched < 2 ^ 64" "pa_Key args \<in> dom (kv s)"
    and "Clerk_Put_loop False args sched s = (res, s')"
  shows "performed args sched s = 0 \<and> res \<in> {None, Some ErrMaybe}"
  using assms
proof (induction sched arbitrary: s j)
  case (Cons a sched)
  obtain env d where a: "a = (env, d)" by force
  define s1 where "s1 = run_puts env s"
  obtain i where i: "i \<le> length env" "version_of s1 (pa_Key args) = pa_Version args + of_nat (j + i)"
    using run_puts_version [of env s "pa_Key args"] Cons.prems(1) by (auto simp: s1_def add.assoc)
  have small: "j + i < 2 ^ 64" "j + i + traffic sched < 2 ^ 64" "0 < j + i"
    using i(1) Cons.prems(2,3) by (auto simp: a)
  have no: "\<not> put_ok args s1" by (rule put_not_ok_later [OF i(2) small(3,1)])
  have dom: "pa_Key args \<in> dom (kv s1)" using run_puts_dom Cons.prems(4) s1_def by blast
  obtain s2 r where put: "KVServer_Put args s1 = (s2, r)" by force
  from put have r: "s2 = s1" "pr_Err r = ErrVersion"
    using no dom by (cases rule: KVServer_Put_cases; auto)+
  note IH = Cons.IH [OF i(2) small(3,2) dom]
  show ?case
  proof (cases d)
    case Drop
    with Cons.prems(5) IH show ?thesis by (simp add: a s1_def [symmetric])
  next
    case LoseReply
    with Cons.prems(5) IH put r no show ?thesis by (simp add: a s1_def [symmetric])
  next
    case Answer
    with Cons.prems(5) put r no show ?thesis by (simp add: a s1_def [symmetric])
  qed
qed simp

lemma Clerk_Put_loop_meaning:
  assumes "traffic sched < 2 ^ 64" "Clerk_Put_loop first args sched s = (res, s')"
  shows "performed args sched s \<le> 1 \<and>
    (res = Some OK \<longrightarrow> performed args sched s = 1 \<and>
       kv s' (pa_Key args) = Some \<lparr>e_value = pa_Value args, e_version = pa_Version args + 1\<rparr>) \<and>
    (res \<in> {Some ErrVersion, Some ErrNoKey} \<longrightarrow> performed args sched s = 0)"
  using assms
proof (induction sched arbitrary: s first)
  case (Cons a sched)
  obtain env d where a: "a = (env, d)" by force
  define s1 where "s1 = run_puts env s"
  obtain s2 r where put: "KVServer_Put args s1 = (s2, r)" by force
  have small: "traffic sched < 2 ^ 64" using Cons.prems(1) by (simp add: a)
  show ?case
  proof (cases d)
    case Drop
    then have "Clerk_Put_loop False args sched s1 = (res, s')" "performed args (a # sched) s = performed args sched s1"
      using Cons.prems(2) by (simp_all add: a s1_def [symmetric])
    with Cons.IH [OF small this(1)] show ?thesis by simp
  next
    case Answer
    from put show ?thesis
      by (cases rule: KVServer_Put_cases)
         (use Cons.prems(2) Answer put in \<open>auto simp: a s1_def [symmetric] split: if_splits\<close>)
  next
    case LoseReply
    have rest: "Clerk_Put_loop False args sched s2 = (res, s')"
      and perf: "performed args (a # sched) s = (if put_ok args s1 then 1 else 0) + performed args sched s2"
      using Cons.prems(2) LoseReply put by (simp_all add: a s1_def [symmetric])
    show ?thesis
    proof (cases "put_ok args s1")
      case False
      with Cons.IH [OF small rest] perf show ?thesis by simp
    next
      case True
      have v: "version_of s2 (pa_Key args) = pa_Version args + of_nat 1"
        using True version_of_put [OF put] by (simp add: put_ok_def)
      from put have k: "pa_Key args \<in> dom (kv s2)" by (cases rule: KVServer_Put_cases) (use True in auto)
      from after_performed [OF v _ _ k rest] Cons.prems(1) True perf show ?thesis
        by (auto simp: a)
    qed
  qed
qed simp

text \<open>One answered attempt is enough: the server never replies with another error.\<close>

lemma Clerk_Put_loop_returns:
  "Answer \<in> snd ` set sched \<Longrightarrow> fst (Clerk_Put_loop first args sched s) \<noteq> None"
proof (induction sched arbitrary: s first)
  case (Cons a sched)
  obtain env d where a: "a = (env, d)" by force
  obtain s2 r where put: "KVServer_Put args (run_puts env s) = (s2, r)" by force
  show ?case
  proof (cases d)
    case Answer
    from put show ?thesis by (cases rule: KVServer_Put_cases) (simp_all add: a Answer put)
  qed (use Cons a put in \<open>auto simp: Let_def\<close>)
qed simp

lemma Clerk_Get_reads:
  assumes "Clerk_Get key sched s = Some (val, ver, err)"
  shows "\<exists>pre env post. sched = pre @ (env, Answer) # post \<and>
    (let s1 = run_puts (concat (map fst pre) @ env) s in
     val = value_of s1 key \<and> ver = version_of s1 key \<and> err = (if key \<in> dom (kv s1) then OK else ErrNoKey))"
  using assms
proof (induction sched arbitrary: s)
  case (Cons a sched)
  obtain env d where a: "a = (env, d)" by force
  have app: "run_puts (xs @ ys) s = run_puts ys (run_puts xs s)" for xs ys s
    by (simp add: run_puts_def)
  show ?case
  proof (cases "d = Answer")
    case True
    with Cons.prems show ?thesis
      by (intro exI [of _ "[]"] exI [of _ env] exI [of _ sched])
         (auto simp: a Let_def KVServer_Get_spec value_of_def version_of_def split: if_splits option.splits)
  next
    case False
    then have "Clerk_Get key sched (run_puts env s) = Some (val, ver, err)"
      using Cons.prems by (cases d) (simp_all add: a)
    from Cons.IH [OF this] obtain pre e post where "sched = pre @ (e, Answer) # post"
      "let s1 = run_puts (concat (map fst pre) @ e) (run_puts env s) in
       val = value_of s1 key \<and> ver = version_of s1 key \<and> err = (if key \<in> dom (kv s1) then OK else ErrNoKey)"
      by blast
    then show ?thesis by (intro exI [of _ "a # pre"] exI [of _ e] exI [of _ post]) (simp add: a app)
  qed
qed simp

end
