(* ===== verification/KvLock.thy ===== *)
theory KvLock
  imports KvClerk
begin

text \<open>
  The lock of \<open>src/kvsrv1/lock/lock.go\<close>, built on the clerk. \<open>Acquire\<close> and \<open>Release\<close> are cut at
  their clerk calls: a client is at a program point, a get is one step (its retries change nothing) and
  every attempt of a put is a step, so that the clients' requests interleave at the server as they
  do in the code. At most one client of a lock holds it.
\<close>

section \<open>One attempt of a put\<close>

text \<open>The body of the clerk's loop; \<open>None\<close> means that the clerk tries again.\<close>

definition put_attempt :: "bool \<Rightarrow> PutArgs \<Rightarrow> delivery \<Rightarrow> KVServer \<Rightarrow> KVServer \<times> Err option" where
  "put_attempt isFirst args d s =
     (case d of
        Drop \<Rightarrow> (s, None)
      | LoseReply \<Rightarrow> (fst (KVServer_Put args s), None)
      | Answer \<Rightarrow>
          (let (s2, reply) = KVServer_Put args s in
           (s2, if pr_Err reply = ErrVersion then Some (if isFirst then ErrVersion else ErrMaybe)
                else if pr_Err reply = ErrNoKey \<or> pr_Err reply = OK then Some (pr_Err reply)
                else None)))"

lemma Clerk_Put_loop_attempt:
  "Clerk_Put_loop isFirst args ((env, d) # sched) s =
     (case put_attempt isFirst args d (run_puts env s) of
        (s', None) \<Rightarrow> Clerk_Put_loop False args sched s'
      | (s', Some e) \<Rightarrow> (Some e, s'))"
  by (simp add: put_attempt_def Let_def split: delivery.splits prod.splits)

section \<open>lock.go\<close>

record Lock =
  clientID :: string
  lockName :: string
  lockVersion :: Tversion

text \<open>\<open>RandValue(8)\<close> is the argument \<open>rid\<close>.\<close>

definition MakeLock :: "string \<Rightarrow> string \<Rightarrow> Lock" where
  "MakeLock lockname rid = \<lparr>clientID = rid, lockName = lockname, lockVersion = 0\<rparr>"

text \<open>
  Where a client stands: outside, in \<open>Acquire\<close> before its get, in a put of \<open>Acquire\<close> (with the
  version it sends and the clerk's \<open>isFirst\<close>), before the get of \<open>acquiredAfterMaybe\<close>, holding the
  lock, in the put of \<open>Release\<close>, before the get of \<open>releasedAfterMaybe\<close>.
\<close>

datatype lock_pc = Idle | AcqGet | AcqPut Tversion bool | AcqCheck | Held | RelPut bool | RelCheck

definition free :: string where
  "free = ''0''"

definition Acquire_got :: "string \<times> Tversion \<times> Err \<Rightarrow> Lock \<Rightarrow> Lock \<times> lock_pc" where
  "Acquire_got res lk =
     (case res of (state, ver, err) \<Rightarrow>
        if err = ErrNoKey then (lk, AcqPut 0 True)
        else if err = OK
        then if state = clientID lk then (lk\<lparr>lockVersion := ver\<rparr>, Held)
             else if state \<noteq> free then (lk, AcqGet)
             else (lk, AcqPut ver True)
        else (lk, AcqGet))"

text \<open>The put of a new lock sends version 0 and then remembers 1, which is the same as \<open>ver + 1\<close>.\<close>

definition Acquire_put :: "Tversion \<Rightarrow> Err \<Rightarrow> Lock \<Rightarrow> Lock \<times> lock_pc" where
  "Acquire_put ver err lk =
     (if err = ErrMaybe then (lk, AcqCheck)
      else if err \<noteq> OK then (lk, AcqGet)
      else (lk\<lparr>lockVersion := ver + 1\<rparr>, Held))"

definition acquiredAfterMaybe :: "string \<times> Tversion \<Rightarrow> Lock \<Rightarrow> Lock \<times> bool" where
  "acquiredAfterMaybe res lk =
     (case res of (state, ver) \<Rightarrow>
        if state = clientID lk then (lk\<lparr>lockVersion := ver\<rparr>, True) else (lk, False))"

definition releasedAfterMaybe :: "string \<times> Tversion \<Rightarrow> Lock \<Rightarrow> Lock \<times> bool" where
  "releasedAfterMaybe res lk =
     (case res of (state, ver) \<Rightarrow> (lk\<lparr>lockVersion := ver\<rparr>, state \<noteq> clientID lk))"

definition Release_start :: "Lock \<Rightarrow> lock_pc" where
  "Release_start lk = (if lockVersion lk = 0 then Idle else RelPut True)"

definition Release_put :: "Err \<Rightarrow> lock_pc" where
  "Release_put err = (if err = ErrMaybe then RelCheck else if err \<noteq> OK then RelPut True else Idle)"

definition acquire_args :: "Tversion \<Rightarrow> Lock \<Rightarrow> PutArgs" where
  "acquire_args ver lk = \<lparr>pa_Key = lockName lk, pa_Value = clientID lk, pa_Version = ver\<rparr>"

definition release_args :: "Lock \<Rightarrow> PutArgs" where
  "release_args lk = \<lparr>pa_Key = lockName lk, pa_Value = free, pa_Version = lockVersion lk\<rparr>"

text \<open>\<open>refreshState\<close> and the get of \<open>Acquire\<close>, once the call is answered.\<close>

definition refreshState :: "Lock \<Rightarrow> KVServer \<Rightarrow> string \<times> Tversion \<times> Err" where
  "refreshState lk s = (let r = KVServer_Get \<lparr>ga_Key = lockName lk\<rparr> s in (gr_Value r, gr_Version r, gr_Err r))"

section \<open>Clients of one lock\<close>

text \<open>\<open>written\<close> is history: the values put under the lock's name so far.\<close>

record lock_world =
  server :: KVServer
  locks :: "nat \<Rightarrow> Lock"
  pcs :: "nat \<Rightarrow> lock_pc"
  written :: "string list"

definition move :: "nat \<Rightarrow> Lock \<times> lock_pc \<Rightarrow> lock_world \<Rightarrow> lock_world" where
  "move i r w = w\<lparr>locks := (locks w)(i := fst r), pcs := (pcs w)(i := snd r)\<rparr>"

definition do_put :: "nat \<Rightarrow> bool \<Rightarrow> PutArgs \<Rightarrow> delivery \<Rightarrow> lock_world \<Rightarrow> lock_world \<times> Err option" where
  "do_put i isFirst args d w =
     (let (s', r) = put_attempt isFirst args d (server w) in
      (w\<lparr>server := s',
         written := (if d \<noteq> Drop \<and> put_ok args (server w) then written w @ [pa_Value args] else written w)\<rparr>, r))"

inductive lock_step :: "nat \<Rightarrow> lock_world \<Rightarrow> lock_world \<Rightarrow> bool" for n where
  acquire: "i < n \<Longrightarrow> pcs w i = Idle \<Longrightarrow> lock_step n w (move i (locks w i, AcqGet) w)"
| acquire_get: "i < n \<Longrightarrow> pcs w i = AcqGet \<Longrightarrow>
    lock_step n w (move i (Acquire_got (refreshState (locks w i) (server w)) (locks w i)) w)"
| acquire_retry: "i < n \<Longrightarrow> pcs w i = AcqPut ver isFirst \<Longrightarrow>
    do_put i isFirst (acquire_args ver (locks w i)) d w = (w', None) \<Longrightarrow>
    lock_step n w (move i (locks w i, AcqPut ver False) w')"
| acquire_put: "i < n \<Longrightarrow> pcs w i = AcqPut ver isFirst \<Longrightarrow>
    do_put i isFirst (acquire_args ver (locks w i)) d w = (w', Some err) \<Longrightarrow>
    lock_step n w (move i (Acquire_put ver err (locks w i)) w')"
| acquire_check: "i < n \<Longrightarrow> pcs w i = AcqCheck \<Longrightarrow> refreshState (locks w i) (server w) = (state, ver, err) \<Longrightarrow>
    acquiredAfterMaybe (state, ver) (locks w i) = (lk', got) \<Longrightarrow>
    lock_step n w (move i (lk', if got then Held else AcqGet) w)"
| release: "i < n \<Longrightarrow> pcs w i = Held \<Longrightarrow> lock_step n w (move i (locks w i, Release_start (locks w i)) w)"
| release_retry: "i < n \<Longrightarrow> pcs w i = RelPut isFirst \<Longrightarrow>
    do_put i isFirst (release_args (locks w i)) d w = (w', None) \<Longrightarrow>
    lock_step n w (move i (locks w i, RelPut False) w')"
| release_put: "i < n \<Longrightarrow> pcs w i = RelPut isFirst \<Longrightarrow>
    do_put i isFirst (release_args (locks w i)) d w = (w', Some err) \<Longrightarrow>
    lock_step n w (move i (locks w i, Release_put err) w')"
| release_check: "i < n \<Longrightarrow> pcs w i = RelCheck \<Longrightarrow> refreshState (locks w i) (server w) = (state, ver, err) \<Longrightarrow>
    releasedAfterMaybe (state, ver) (locks w i) = (lk', gone) \<Longrightarrow>
    lock_step n w (move i (lk', if gone then Idle else RelPut True) w)"

definition lock_init :: "string \<Rightarrow> (nat \<Rightarrow> string) \<Rightarrow> lock_world" where
  "lock_init nm rid = \<lparr>server = MakeKVServer, locks = (\<lambda>i. MakeLock nm (rid i)), pcs = (\<lambda>_. Idle), written = []\<rparr>"

text \<open>What \<open>RandValue(8)\<close> is relied on for: eight letters, and no two clients draw the same ones.\<close>

definition good_ids :: "nat \<Rightarrow> (nat \<Rightarrow> string) \<Rightarrow> bool" where
  "good_ids n rid \<longleftrightarrow> inj_on rid {..<n} \<and> (\<forall>i < n. length (rid i) = 8)"

definition lock_reachable :: "nat \<Rightarrow> string \<Rightarrow> (nat \<Rightarrow> string) \<Rightarrow> lock_world \<Rightarrow> bool" where
  "lock_reachable n nm rid w \<longleftrightarrow> (lock_step n)\<^sup>*\<^sup>* (lock_init nm rid) w"

section \<open>The invariant\<close>

text \<open>The server's entry is the last value written, at a version that counts the writes.\<close>

definition entry_ok :: "string \<Rightarrow> lock_world \<Rightarrow> bool" where
  "entry_ok nm w \<longleftrightarrow> kv (server w) nm = (if written w = [] then None
     else Some \<lparr>e_value = last (written w), e_version = of_nat (length (written w))\<rparr>)"

text \<open>\<open>at_version ws ver v\<close>: the value at version \<open>ver\<close> was \<open>v\<close>.\<close>

definition at_version :: "string list \<Rightarrow> Tversion \<Rightarrow> string \<Rightarrow> bool" where
  "at_version ws ver v \<longleftrightarrow> (\<exists>k. 0 < k \<and> k \<le> length ws \<and> ver = of_nat k \<and> ws ! (k - 1) = v)"

fun client_ok :: "string list \<Rightarrow> Lock \<Rightarrow> lock_pc \<Rightarrow> bool" where
  "client_ok ws lk (AcqPut ver first) \<longleftrightarrow> ver = 0 \<or> at_version ws ver free"
| "client_ok ws lk Held \<longleftrightarrow> ws \<noteq> [] \<and> last ws = clientID lk \<and> lockVersion lk = of_nat (length ws)"
| "client_ok ws lk (RelPut first) \<longleftrightarrow> at_version ws (lockVersion lk) (clientID lk)"
| "client_ok ws lk _ \<longleftrightarrow> True"

definition lock_inv :: "nat \<Rightarrow> string \<Rightarrow> (nat \<Rightarrow> string) \<Rightarrow> lock_world \<Rightarrow> bool" where
  "lock_inv n nm rid w \<longleftrightarrow> entry_ok nm w \<and>
     (\<forall>i < n. clientID (locks w i) = rid i \<and> lockName (locks w i) = nm \<and>
        client_ok (written w) (locks w i) (pcs w i))"

lemma at_version_append: "at_version ws ver v \<Longrightarrow> at_version (ws @ [x]) ver v"
  unfolding at_version_def by (metis (no_types, lifting) Suc_diff_1 Suc_le_lessD le_SucI length_append_singleton
      nth_append order_less_le_trans)

lemma at_version_last: "ws \<noteq> [] \<Longrightarrow> at_version ws (of_nat (length ws)) (last ws)"
  unfolding at_version_def by (intro exI [of _ "length ws"]) (simp add: last_conv_nth)

lemma of_nat_64_inject: "j < 2 ^ 64 \<Longrightarrow> k < 2 ^ 64 \<Longrightarrow> (of_nat j :: 64 word) = of_nat k \<longleftrightarrow> j = k"
  by (auto simp: word_of_nat_eq_iff take_bit_nat_eq_self)

lemma version_of_entry: "entry_ok nm w \<Longrightarrow> version_of (server w) nm = of_nat (length (written w))"
  by (simp add: entry_ok_def version_of_def)

text \<open>A put with the version of some earlier write takes effect only while that write is the last.\<close>

lemma put_ok_current:
  assumes "entry_ok nm w" "length (written w) < 2 ^ 64" "pa_Key args = nm" "put_ok args (server w)"
    and "at_version (written w) (pa_Version args) v"
  shows "written w \<noteq> [] \<and> last (written w) = v"
proof -
  obtain k where k: "0 < k" "k \<le> length (written w)" "pa_Version args = of_nat k" "written w ! (k - 1) = v"
    using assms(5) by (auto simp: at_version_def)
  have "(of_nat k :: 64 word) = of_nat (length (written w))"
    using assms(3,4) k(3) version_of_entry [OF assms(1)] by (simp add: put_ok_def)
  then have "k = length (written w)" using of_nat_64_inject k(2) assms(2) by (metis le_less_trans)
  with k(1,4) show ?thesis by (auto simp: last_conv_nth)
qed

lemma put_ok_fresh:
  assumes "entry_ok nm w" "length (written w) < 2 ^ 64" "pa_Key args = nm" "put_ok args (server w)"
    and "pa_Version args = 0"
  shows "written w = []"
  using assms version_of_entry [OF assms(1)] of_nat_64_inject [of "length (written w)" 0]
  by (simp add: put_ok_def)

lemma do_put_cases:
  assumes "do_put i isFirst args d w = (w', r)" "entry_ok nm w" "pa_Key args = nm"
  obtains (kept) "written w' = written w" "entry_ok nm w'" "locks w' = locks w" "pcs w' = pcs w" "r \<noteq> Some OK"
  | (wrote) "put_ok args (server w)" "written w' = written w @ [pa_Value args]" "entry_ok nm w'"
      "locks w' = locks w" "pcs w' = pcs w"
proof -
  obtain s2 rep where put: "KVServer_Put args (server w) = (s2, rep)" by force
  have w': "w' = w\<lparr>server := (if d = Drop then server w else s2),
      written := (if d \<noteq> Drop \<and> put_ok args (server w) then written w @ [pa_Value args] else written w)\<rparr>"
    using assms(1) put by (auto simp: do_put_def put_attempt_def Let_def split: delivery.splits)
  have r: "r = Some OK \<Longrightarrow> d = Answer \<and> pr_Err rep = OK"
    using assms(1) put by (auto simp: do_put_def put_attempt_def Let_def split: delivery.splits if_splits)
  show ?thesis
  proof (cases "d \<noteq> Drop \<and> put_ok args (server w)")
    case True
    from put have "s2 = (server w)\<lparr>kv := (kv (server w))(nm \<mapsto>
        \<lparr>e_value = pa_Value args, e_version = pa_Version args + 1\<rparr>)\<rparr>"
      by (cases rule: KVServer_Put_cases) (use True assms(3) in auto)
    moreover have "pa_Version args = of_nat (length (written w))"
      using True assms(3) version_of_entry [OF assms(2)] by (simp add: put_ok_def)
    ultimately have "entry_ok nm w'" using True by (simp add: entry_ok_def w' add.commute)
    with True w' show ?thesis by (intro wrote) auto
  next
    case False
    have "s2 = server w" if "d \<noteq> Drop" using put False that by (cases rule: KVServer_Put_cases) auto
    then have same: "server w' = server w" "written w' = written w" using False w' by auto
    have "r \<noteq> Some OK"
    proof
      assume ok: "r = Some OK"
      from put show False by (cases rule: KVServer_Put_cases) (use r [OF ok] False in auto)
    qed
    with same w' assms(2) show ?thesis by (intro kept) (auto simp: entry_ok_def)
  qed
qed

lemma client_ok_write: "client_ok ws lk pc \<Longrightarrow> pc \<noteq> Held \<Longrightarrow> client_ok (ws @ [x]) lk pc"
  by (cases pc) (auto intro: at_version_append)

lemma refreshState_ok:
  assumes "entry_ok (lockName lk) w" "refreshState lk (server w) = (state, ver, err)"
  shows "err = (if written w = [] then ErrNoKey else OK)"
    "written w \<noteq> [] \<Longrightarrow> state = last (written w) \<and> ver = of_nat (length (written w))"
    "written w = [] \<Longrightarrow> state = [] \<and> ver = 0"
  using assms by (auto simp: refreshState_def Let_def KVServer_Get_def entry_ok_def split: if_splits)

text \<open>Moving one client keeps the invariant of the others, when nothing is written.\<close>

lemma lock_inv_move:
  assumes "lock_inv n nm rid w" "clientID (fst r) = rid i" "lockName (fst r) = nm"
    "client_ok (written w) (fst r) (snd r)"
  shows "lock_inv n nm rid (move i r w)"
  using assms by (auto simp: lock_inv_def move_def entry_ok_def)

text \<open>A put of client \<open>i\<close> with a version at which the lock was free, or its own, disturbs no holder.\<close>

lemma lock_inv_put:
  assumes inv: "lock_inv n nm rid w" and "i < n" "pcs w i \<noteq> Held" "good_ids n rid"
    and put: "do_put i isFirst args d w = (w', res)" and key: "pa_Key args = nm"
    and small: "length (written w) < 2 ^ 64"
    and ver: "pa_Version args = 0 \<or> at_version (written w) (pa_Version args) free
      \<or> at_version (written w) (pa_Version args) (rid i)"
  shows "lock_inv n nm rid w'"
proof -
  have en: "entry_ok nm w" using inv by (simp add: lock_inv_def)
  from put en key show ?thesis
  proof (cases rule: do_put_cases)
    case kept
    with inv show ?thesis by (simp add: lock_inv_def)
  next
    case wrote
    have "written w = [] \<or> last (written w) \<in> {free, rid i}"
      using ver put_ok_current [OF en small key wrote(1)] put_ok_fresh [OF en small key wrote(1)] by blast
    moreover have "written w \<noteq> [] \<and> last (written w) = rid j" if "j < n" "pcs w j = Held" for j
    proof -
      have "client_ok (written w) (locks w j) (pcs w j)" "clientID (locks w j) = rid j"
        using inv that(1) by (auto simp: lock_inv_def)
      with that(2) show ?thesis by simp
    qed
    moreover have "rid j \<noteq> free" if "j < n" for j
      using that assms(4) by (auto simp: good_ids_def free_def)
    ultimately have "pcs w j \<noteq> Held" if "j < n" for j
      using that assms(2-4) unfolding good_ids_def
      by (metis inj_on_eq_iff insertE lessThan_iff singletonD)
    then show ?thesis
      using inv wrote client_ok_write by (simp add: lock_inv_def)
  qed
qed

lemma do_put_frame:
  assumes "do_put i isFirst args d w = (w', r)"
  shows "locks w' = locks w" "pcs w' = pcs w"
  using assms by (auto simp: do_put_def Let_def split: prod.splits)

lemma do_put_OK:
  assumes "do_put i isFirst args d w = (w', Some OK)" "entry_ok nm w" "pa_Key args = nm"
  shows "written w' = written w @ [pa_Value args]" "pa_Version args = of_nat (length (written w))"
proof -
  from assms have "written w' = written w @ [pa_Value args] \<and> put_ok args (server w)"
    by (cases rule: do_put_cases) simp_all
  with assms(3) version_of_entry [OF assms(2)]
  show "written w' = written w @ [pa_Value args]" "pa_Version args = of_nat (length (written w))"
    by (simp_all add: put_ok_def)
qed

lemma lock_inv_acquire_put:
  assumes "lock_inv n nm rid w" "i < n" "pcs w i = AcqPut ver isFirst" "good_ids n rid"
    "do_put i isFirst (acquire_args ver (locks w i)) d w = (w', res)" "length (written w) < 2 ^ 64"
  shows "lock_inv n nm rid w'"
proof -
  have "client_ok (written w) (locks w i) (pcs w i)" "lockName (locks w i) = nm"
    using assms(1,2) by (simp_all add: lock_inv_def)
  then show ?thesis
    by (intro lock_inv_put [OF assms(1,2) _ assms(4,5) _ assms(6)])
       (use assms(3) in \<open>auto simp: acquire_args_def\<close>)
qed

lemma lock_inv_release_put:
  assumes "lock_inv n nm rid w" "i < n" "pcs w i = RelPut isFirst" "good_ids n rid"
    "do_put i isFirst (release_args (locks w i)) d w = (w', res)" "length (written w) < 2 ^ 64"
  shows "lock_inv n nm rid w'"
proof -
  have "client_ok (written w) (locks w i) (pcs w i)" "lockName (locks w i) = nm" "clientID (locks w i) = rid i"
    using assms(1,2) by (simp_all add: lock_inv_def)
  then show ?thesis
    by (intro lock_inv_put [OF assms(1,2) _ assms(4,5) _ assms(6)])
       (use assms(3) in \<open>auto simp: release_args_def\<close>)
qed

lemma lock_inv_client:
  assumes "lock_inv n nm rid w" "i < n"
  shows "clientID (locks w i) = rid i" "lockName (locks w i) = nm" "entry_ok nm w"
    "client_ok (written w) (locks w i) (pcs w i)"
  using assms by (simp_all add: lock_inv_def)

lemma lock_inv_step:
  assumes "lock_step n w w'" "lock_inv n nm rid w" "good_ids n rid"
    and "length (written w) < 2 ^ 64"
  shows "lock_inv n nm rid w'"
  using assms
proof (induction rule: lock_step.induct)
  case (acquire i w)
  then show ?case by (intro lock_inv_move) (simp_all add: lock_inv_def)
next
  case (acquire_get i w)
  note lk = lock_inv_client [OF acquire_get(3,1)]
  obtain state ver err where g: "refreshState (locks w i) (server w) = (state, ver, err)" by (metis prod_cases3)
  note ok = refreshState_ok [OF _ g]
  show ?case
    by (intro lock_inv_move [OF acquire_get(3)])
       (use lk ok at_version_last [of "written w"] in \<open>auto simp: Acquire_got_def g\<close>)
next
  case (acquire_retry i w ver isFirst d w')
  note inv = lock_inv_acquire_put [OF acquire_retry(4,1,2,5,3,6)]
  note lk = lock_inv_client [OF inv acquire_retry(1)] do_put_frame [OF acquire_retry(3)]
  show ?case by (intro lock_inv_move [OF inv]) (use lk acquire_retry(2) in auto)
next
  case (acquire_put i w ver isFirst d w' err)
  note inv = lock_inv_acquire_put [OF acquire_put(4,1,2,5,3,6)]
  note lk = lock_inv_client [OF inv acquire_put(1)] do_put_frame [OF acquire_put(3)]
  have "written w' = written w @ [clientID (locks w i)] \<and> ver = of_nat (length (written w))" if "err = OK"
    using do_put_OK [OF acquire_put(3) [unfolded that] lock_inv_client(3) [OF acquire_put(4,1)]]
      lock_inv_client(2) [OF acquire_put(4,1)] by (simp add: acquire_args_def)
  then show ?case
    by (intro lock_inv_move [OF inv]) (use lk in \<open>auto simp: Acquire_put_def\<close>)
next
  case (acquire_check i w state ver err lk' got)
  note lk = lock_inv_client [OF acquire_check(5,1)]
  note ok = refreshState_ok [OF _ acquire_check(3)]
  show ?case
    by (intro lock_inv_move [OF acquire_check(5)])
       (use lk ok acquire_check(1,4,6) in \<open>auto simp: acquiredAfterMaybe_def good_ids_def split: if_splits\<close>)
next
  case (release i w)
  note lk = lock_inv_client [OF release(3,1)]
  with release(2,3) at_version_last [of "written w"] show ?case
    by (intro lock_inv_move) (auto simp: Release_start_def)
next
  case (release_retry i w isFirst d w')
  note inv = lock_inv_release_put [OF release_retry(4,1,2,5,3,6)]
  note lk = lock_inv_client [OF inv release_retry(1)] do_put_frame [OF release_retry(3)]
  show ?case by (intro lock_inv_move [OF inv]) (use lk release_retry(2) in auto)
next
  case (release_put i w isFirst d w' err)
  note inv = lock_inv_release_put [OF release_put(4,1,2,5,3,6)]
  note lk = lock_inv_client [OF inv release_put(1)] do_put_frame [OF release_put(3)]
  show ?case by (intro lock_inv_move [OF inv]) (use lk release_put(2) in \<open>auto simp: Release_put_def\<close>)
next
  case (release_check i w state ver err lk' gone)
  note lk = lock_inv_client [OF release_check(5,1)]
  note ok = refreshState_ok [OF _ release_check(3)]
  show ?case
    by (intro lock_inv_move [OF release_check(5)])
       (use lk ok release_check(1,4,6) at_version_last [of "written w"] in
         \<open>auto simp: releasedAfterMaybe_def good_ids_def split: if_splits\<close>)
qed

lemma lock_step_written: "lock_step n w w' \<Longrightarrow> length (written w) \<le> length (written w')"
  by (induction rule: lock_step.induct) (auto simp: move_def do_put_def Let_def split: prod.splits if_splits)

lemma lock_reachable_inv:
  assumes "lock_reachable n nm rid w" "good_ids n rid" "length (written w) < 2 ^ 64"
  shows "lock_inv n nm rid w"
  using assms(1) [unfolded lock_reachable_def] assms(3)
proof (induction rule: rtranclp_induct)
  case base
  show ?case by (simp add: lock_inv_def lock_init_def entry_ok_def MakeKVServer_def MakeLock_def)
next
  case (step w w')
  then show ?case using lock_inv_step [OF step(2) _ assms(2)] lock_step_written [OF step(2)] by simp
qed

section \<open>Running the clients\<close>

text \<open>The next step of client \<open>i\<close>; \<open>d\<close> is the fate of its attempt when it is in a put.\<close>

definition client_move :: "nat \<Rightarrow> delivery \<Rightarrow> lock_world \<Rightarrow> lock_world" where
  "client_move i d w =
     (let lk = locks w i in
      case pcs w i of
        Idle \<Rightarrow> move i (lk, AcqGet) w
      | AcqGet \<Rightarrow> move i (Acquire_got (refreshState lk (server w)) lk) w
      | AcqPut ver isFirst \<Rightarrow>
          (case do_put i isFirst (acquire_args ver lk) d w of
             (w', None) \<Rightarrow> move i (lk, AcqPut ver False) w'
           | (w', Some err) \<Rightarrow> move i (Acquire_put ver err lk) w')
      | AcqCheck \<Rightarrow>
          (case refreshState lk (server w) of (state, ver, err) \<Rightarrow>
             (case acquiredAfterMaybe (state, ver) lk of (lk', got) \<Rightarrow>
                move i (lk', if got then Held else AcqGet) w))
      | Held \<Rightarrow> move i (lk, Release_start lk) w
      | RelPut isFirst \<Rightarrow>
          (case do_put i isFirst (release_args lk) d w of
             (w', None) \<Rightarrow> move i (lk, RelPut False) w'
           | (w', Some err) \<Rightarrow> move i (lk, Release_put err) w')
      | RelCheck \<Rightarrow>
          (case refreshState lk (server w) of (state, ver, err) \<Rightarrow>
             (case releasedAfterMaybe (state, ver) lk of (lk', gone) \<Rightarrow>
                move i (lk', if gone then Idle else RelPut True) w)))"

lemma client_move_step: "i < n \<Longrightarrow> lock_step n w (client_move i d w)"
  by (cases "pcs w i")
     (auto simp: client_move_def Let_def intro: lock_step.intros lock_step.acquire_check [where got = True, simplified]
        lock_step.acquire_check [where got = False, simplified] lock_step.release_check [where gone = True, simplified]
        lock_step.release_check [where gone = False, simplified] split: prod.splits option.splits)

definition client_moves :: "(nat \<times> delivery) list \<Rightarrow> lock_world \<Rightarrow> lock_world" where
  "client_moves ms w = fold (\<lambda>(i, d). client_move i d) ms w"

lemma client_moves_reachable:
  assumes "list_all (\<lambda>(i, d). i < n) ms"
  shows "lock_reachable n nm rid (client_moves ms (lock_init nm rid))"
proof -
  have "(lock_step n)\<^sup>*\<^sup>* w (client_moves ms w)" for w
    using assms
  proof (induction ms arbitrary: w)
    case (Cons m ms)
    obtain i d where m: "m = (i, d)" by force
    with Cons.prems have "lock_step n w (client_move i d w)" by (simp add: client_move_step)
    moreover have "(lock_step n)\<^sup>*\<^sup>* (client_move i d w) (client_moves ms (client_move i d w))"
      using Cons by simp
    ultimately show ?case by (simp add: m client_moves_def)
  qed (simp add: client_moves_def)
  then show ?thesis by (simp add: lock_reachable_def)
qed

end
