(* ===== verification/KvProps.thy ===== *)
theory KvProps
  imports KvLock
begin

text \<open>The properties of the key/value server, its clerk, its specification and the lock.\<close>

section \<open>The server\<close>

text \<open>
  C6. The server implements the specification the tests check against. Any sequence of gets and
  puts, executed at the server from its initial state and recorded as the tests record it, is accepted by
  \<open>KvModel\<close> after partitioning it by key, as long as no put is refused with \<open>ErrNoKey\<close>.
\<close>

theorem server_refines_KvModel:
  assumes "serve_all ops MakeKVServer = (s, h)" "\<forall>(inp, out) \<in> set h. out_Err out = ErrNoKey \<longrightarrow> in_Op inp = 0"
  shows "\<forall>g \<in> set (KvModel_Partition h). legal KvModel_Init g"
proof -
  have "abs_key MakeKVServer k = KvModel_Init" for k
    by (simp add: abs_key_def KvModel_Init_def MakeKVServer_def value_of_def version_of_def)
  with serve_all_legal [OF assms] show ?thesis
    by (auto simp: KvModel_Partition_def Let_def partition_map_eq)
qed

definition sample_ops :: "kv_op list" where
  "sample_ops = [OpPut ''x'' ''a'' 0, OpGet ''y'', OpPut ''x'' ''b'' 1, OpPut ''x'' ''c'' 1, OpGet ''x'']"

theorem server_refines_KvModel_witness:
  "map (length \<circ> map fst) (KvModel_Partition (snd (serve_all sample_ops MakeKVServer))) = [4, 1] \<and>
   list_all (legal KvModel_Init) (KvModel_Partition (snd (serve_all sample_ops MakeKVServer)))"
proof -
  let ?h = "snd (serve_all sample_ops MakeKVServer)"
  have "list_all (\<lambda>(inp, out). out_Err out = ErrNoKey \<longrightarrow> in_Op inp = 0) ?h" by code_simp
  then have "\<forall>(inp, out) \<in> set ?h. out_Err out = ErrNoKey \<longrightarrow> in_Op inp = 0" by (auto simp: list_all_iff)
  from server_refines_KvModel [OF surjective_pairing this]
  have "list_all (legal KvModel_Init) (KvModel_Partition ?h)" by (simp add: list_all_iff)
  moreover have "map (length \<circ> map fst) (KvModel_Partition ?h) = [4, 1]" by code_simp
  ultimately show ?thesis by simp
qed

text \<open>
  C34. The restriction is needed: the server answers a put of a missing key with a non-zero version
  with \<open>ErrNoKey\<close>, as its comment and the clerk say, and \<open>KvModel\<close> calls that history illegal; it
  expects \<open>ErrVersion\<close>.
\<close>

theorem KvModel_rejects_ErrNoKey:
  assumes "ver \<noteq> 0"
  shows "\<exists>s h. serve_all [OpPut k v ver] MakeKVServer = (s, h) \<and> map (out_Err \<circ> snd) h = [ErrNoKey] \<and>
    \<not> legal KvModel_Init h"
  using assms
  by (simp add: Let_def KVServer_Put_def MakeKVServer_def log_Put_def KvModel_Step_def KvModel_Init_def)

theorem KvModel_rejects_ErrNoKey_witness:
  "\<exists>s h. serve_all [OpPut ''k'' ''v'' 3] MakeKVServer = (s, h) \<and> \<not> legal KvModel_Init h"
  using KvModel_rejects_ErrNoKey [of 3 "''k''" "''v''"] by auto

text \<open>
  Partitioning neither loses nor invents operations: the groups together are a permutation of the
  history, each group holds the operations of one key in their order, and keys come sorted.
\<close>

theorem Partition_permutes:
  "mset (concat (KvModel_Partition h)) = mset h \<and>
   sorted (map (in_Key \<circ> fst \<circ> hd) (KvModel_Partition h)) \<and>
   list_all (\<lambda>g. g \<noteq> [] \<and> g = filter (\<lambda>v. in_Key (fst v) = in_Key (fst (hd g))) h) (KvModel_Partition h)"
proof -
  let ?ks = "sort (remdups (map (in_Key \<circ> fst) h))" and ?key = "\<lambda>v. in_Key (fst v)"
  have eq: "KvModel_Partition h = map (\<lambda>k. filter (\<lambda>v. ?key v = k) h) ?ks"
    by (simp add: KvModel_Partition_def Let_def partition_map_eq)
  have hd: "filter (\<lambda>v. ?key v = k) h \<noteq> [] \<and> ?key (hd (filter (\<lambda>v. ?key v = k) h)) = k" if "k \<in> set ?ks" for k
  proof -
    from that have "filter (\<lambda>v. ?key v = k) h \<noteq> []" by (auto simp: filter_empty_conv)
    then show ?thesis using hd_in_set by fastforce
  qed
  have "mset (concat (KvModel_Partition h)) = mset h"
    unfolding eq by (rule mset_concat_filter) auto
  moreover have "map (in_Key \<circ> fst \<circ> hd) (KvModel_Partition h) = ?ks"
    unfolding eq using hd by (auto intro!: map_idI)
  ultimately show ?thesis using hd by (auto simp: eq list_all_iff)
qed

definition ok_puts :: "string \<Rightarrow> (KvInput \<times> KvOutput) list \<Rightarrow> string list" where
  "ok_puts k h = map (in_Value \<circ> fst) (filter (\<lambda>(i, out). in_Op i = 1 \<and> in_Key i = k \<and> out_Err out = OK) h)"

lemma serve_all_versions:
  assumes "serve_all ops s = (s', h)"
  shows "version_of s' k = version_of s k + of_nat (length (ok_puts k h)) \<and>
    value_of s' k = (if ok_puts k h = [] then value_of s k else last (ok_puts k h))"
  using assms
proof (induction ops arbitrary: s h)
  case (Cons op ops)
  obtain s1 inp out where op: "serve op s = (s1, inp, out)" by (metis prod_cases3)
  obtain h1 where h1: "serve_all ops s1 = (s', h1)" and h: "h = (inp, out) # h1"
    using Cons.prems(1) op by (auto simp: Let_def split: prod.splits)
  have step: "version_of s1 k = version_of s k + of_nat (length (ok_puts k [(inp, out)])) \<and>
    value_of s1 k = (if ok_puts k [(inp, out)] = [] then value_of s k else last (ok_puts k [(inp, out)]))"
  proof (cases op)
    case (OpGet key)
    with op show ?thesis by (auto simp: Let_def log_Get_def ok_puts_def)
  next
    case (OpPut key v ver)
    then obtain r where put: "KVServer_Put \<lparr>pa_Key = key, pa_Value = v, pa_Version = ver\<rparr> s = (s1, r)"
      and io: "(inp, out) = log_Put key v ver (pr_Err r)"
      using op by (auto simp: Let_def split: prod.splits)
    from put show ?thesis
      by (cases rule: KVServer_Put_cases)
         (use io version_of_put [OF put] value_of_put [OF put] in \<open>auto simp: log_Put_def ok_puts_def\<close>)
  qed
  have app: "ok_puts k h = ok_puts k [(inp, out)] @ ok_puts k h1" by (simp add: h ok_puts_def)
  from Cons.IH [OF h1] step show ?case by (auto simp: app)
qed (simp add: ok_puts_def)

text \<open>
  Versions count. After any operations the version of a key is the number of puts the server
  answered with \<open>OK\<close> on it, in the arithmetic of 64-bit words, and its value is the value of the last
  of them.
\<close>

theorem versions_count_ok_puts:
  "version_of (fst (serve_all ops MakeKVServer)) k = of_nat (length (ok_puts k (snd (serve_all ops MakeKVServer)))) \<and>
   (ok_puts k (snd (serve_all ops MakeKVServer)) = []
      \<or> value_of (fst (serve_all ops MakeKVServer)) k = last (ok_puts k (snd (serve_all ops MakeKVServer))))"
  using serve_all_versions [OF surjective_pairing, of ops MakeKVServer k]
  by (auto simp: MakeKVServer_def version_of_def)

section \<open>The clerk\<close>

text \<open>
  C35. What a put's result means, over any pattern of lost requests and replies and with any puts of
  other clients in between: it is performed at most once; \<open>OK\<close> says it was performed and is the
  current entry; \<open>ErrVersion\<close> and \<open>ErrNoKey\<close> say it was not. The bound is the point where 64-bit
  versions would repeat.
\<close>

theorem Clerk_Put_at_most_once:
  assumes "traffic sched < 2 ^ 64" "Clerk_Put key val ver sched s = (res, s')"
  shows "performed \<lparr>pa_Key = key, pa_Value = val, pa_Version = ver\<rparr> sched s \<le> 1 \<and>
    (res = Some OK \<longrightarrow> performed \<lparr>pa_Key = key, pa_Value = val, pa_Version = ver\<rparr> sched s = 1 \<and>
       kv s' key = Some \<lparr>e_value = val, e_version = ver + 1\<rparr>) \<and>
    (res \<in> {Some ErrVersion, Some ErrNoKey} \<longrightarrow>
       performed \<lparr>pa_Key = key, pa_Value = val, pa_Version = ver\<rparr> sched s = 0)"
  using Clerk_Put_loop_meaning [OF assms(1) assms(2) [unfolded Clerk_Put_def]] by simp

text \<open>The reply of the first attempt is lost, the second is answered.\<close>

definition lossy :: schedule where
  "lossy = [([], LoseReply), ([], Answer)]"

theorem Clerk_Put_at_most_once_witness:
  "fst (Clerk_Put ''k'' ''v'' 0 lossy MakeKVServer) = Some ErrMaybe \<and>
   performed \<lparr>pa_Key = ''k'', pa_Value = ''v'', pa_Version = 0\<rparr> lossy MakeKVServer \<le> 1"
proof -
  have "fst (Clerk_Put ''k'' ''v'' 0 lossy MakeKVServer) = Some ErrMaybe" by code_simp
  moreover have "traffic lossy < 2 ^ 64" by (simp add: lossy_def)
  ultimately show ?thesis using Clerk_Put_at_most_once [OF _ surjective_pairing] by blast
qed

text \<open>A put returns as soon as one of its attempts is answered, and \<open>ErrMaybe\<close> only after a resend.\<close>

theorem Clerk_Put_returns:
  assumes "Answer \<in> snd ` set sched"
  shows "fst (Clerk_Put key val ver sched s) \<noteq> None \<and>
    (snd (hd sched) = Answer \<longrightarrow> fst (Clerk_Put key val ver sched s) \<noteq> Some ErrMaybe)"
proof -
  have "fst (Clerk_Put key val ver sched s) \<noteq> Some ErrMaybe" if first: "snd (hd sched) = Answer"
  proof -
    obtain env rest where sched: "sched = (env, Answer) # rest"
      using assms first by (cases sched) auto
    obtain s2 r where put: "KVServer_Put \<lparr>pa_Key = key, pa_Value = val, pa_Version = ver\<rparr> (run_puts env s) = (s2, r)"
      by force
    from put show ?thesis by (cases rule: KVServer_Put_cases) (auto simp: Clerk_Put_def sched put)
  qed
  with Clerk_Put_loop_returns [OF assms] show ?thesis by (simp add: Clerk_Put_def)
qed

theorem Clerk_Put_returns_witness: "fst (Clerk_Put ''k'' ''v'' 7 lossy MakeKVServer) \<noteq> None"
  using Clerk_Put_returns [of lossy "''k''" "''v''" 7 MakeKVServer] by (simp add: lossy_def)

text \<open>
  A get returns what the server held at its answered attempt: value and version of the key, or
  \<open>ErrNoKey\<close> with empty value and version 0 when there was none.
\<close>

theorem Clerk_Get_reads_server:
  assumes "Clerk_Get key sched s = Some (val, ver, err)"
  shows "\<exists>pre env post. sched = pre @ (env, Answer) # post \<and>
    (let s1 = run_puts (concat (map fst pre) @ env) s in
     val = value_of s1 key \<and> ver = version_of s1 key \<and> err = (if key \<in> dom (kv s1) then OK else ErrNoKey))"
  by (rule Clerk_Get_reads [OF assms])

theorem Clerk_Get_reads_server_witness:
  "\<exists>pre env post. lossy = pre @ (env, Answer) # post \<and>
    (let s1 = run_puts (concat (map fst pre) @ env) MakeKVServer in ErrNoKey = (if ''k'' \<in> dom (kv s1) then OK else ErrNoKey))"
proof -
  have "Clerk_Get ''k'' lossy MakeKVServer = Some ('''', 0, ErrNoKey)" by code_simp
  from Clerk_Get_reads_server [OF this] show ?thesis unfolding Let_def by blast
qed

section \<open>The lock\<close>

text \<open>
  C7. Mutual exclusion. However the requests of the clients interleave and whichever requests and
  replies the network loses, at most one client holds a lock: clients draw different identifiers,
  release only what they hold, and the lock has been written fewer than \<open>2 ^ 64\<close> times.
\<close>

theorem lock_mutual_exclusion:
  assumes "lock_reachable n nm rid w" "good_ids n rid" "length (written w) < 2 ^ 64"
    and "i < n" "j < n" "pcs w i = Held" "pcs w j = Held"
  shows "i = j"
proof -
  have inv: "lock_inv n nm rid w" by (rule lock_reachable_inv [OF assms(1-3)])
  have "last (written w) = rid i" "last (written w) = rid j"
    using lock_inv_client [OF inv assms(4)] lock_inv_client [OF inv assms(5)] assms(6,7) by simp_all
  with assms(2,4,5) show ?thesis by (auto simp: good_ids_def inj_on_def)
qed

definition two_ids :: "nat \<Rightarrow> string" where
  "two_ids i = (if i = 0 then ''abcdefgh'' else ''ABCDEFGH'')"

text \<open>Client 0 gets the lock although the first reply is lost, client 1 keeps trying.\<close>

definition contend :: "(nat \<times> delivery) list" where
  "contend = [(0, Answer), (1, Answer), (0, Answer), (1, Answer), (0, LoseReply), (1, Answer), (0, Answer),
     (0, Answer), (1, Answer)]"

theorem lock_mutual_exclusion_witness:
  "{i. i < 2 \<and> pcs (client_moves contend (lock_init ''l'' two_ids)) i = Held} = {0}"
proof -
  let ?w = "client_moves contend (lock_init ''l'' two_ids)"
  have reach: "lock_reachable 2 ''l'' two_ids ?w"
    by (rule client_moves_reachable) (simp add: contend_def)
  have ids: "good_ids 2 two_ids"
  proof -
    have "{..<2} = {0, 1 :: nat}" by auto
    then show ?thesis by (auto simp: good_ids_def two_ids_def)
  qed
  have "pcs ?w 0 = Held" "length (written ?w) = 1" by code_simp+
  with lock_mutual_exclusion [OF reach ids, of 0] show ?thesis by auto
qed

text \<open>
  While a client holds the lock the server's entry carries its identifier at the version it
  remembers, so its release is the one put that can take effect next: a holder's release, once an
  attempt is answered first time, succeeds and leaves the lock free.
\<close>

theorem holder_can_release:
  assumes "lock_reachable n nm rid w" "good_ids n rid" "length (written w) < 2 ^ 64 - 1"
    and "i < n" "pcs w i = Held"
  shows "kv (server w) nm = Some \<lparr>e_value = rid i, e_version = lockVersion (locks w i)\<rparr> \<and>
    pcs (client_move i Answer (client_move i Answer w)) i = Idle \<and>
    value_of (server (client_move i Answer (client_move i Answer w))) nm = free"
proof -
  have inv: "lock_inv n nm rid w" using assms(3) by (intro lock_reachable_inv [OF assms(1,2)]) simp
  note lk = lock_inv_client [OF inv assms(4)]
  have held: "written w \<noteq> []" "last (written w) = rid i" "lockVersion (locks w i) = of_nat (length (written w))"
    using lk assms(5) by simp_all
  have nz: "lockVersion (locks w i) \<noteq> 0"
    using held(1,3) word_of_nat_neq_0 [of "length (written w)"] assms(3) by simp
  have entry: "kv (server w) nm = Some \<lparr>e_value = rid i, e_version = lockVersion (locks w i)\<rparr>"
    using lk(3) held by (simp add: entry_ok_def)
  define w1 where "w1 = client_move i Answer w"
  have w1: "w1 = w\<lparr>locks := (locks w)(i := locks w i), pcs := (pcs w)(i := RelPut True)\<rparr>"
    using assms(5) nz by (simp add: w1_def client_move_def Release_start_def move_def)
  have "pcs (client_move i Answer w1) i = Idle \<and> value_of (server (client_move i Answer w1)) nm = free"
    using lk(2) entry
    by (simp add: client_move_def w1 do_put_def put_attempt_def release_args_def KVServer_Put_def
        Release_put_def move_def value_of_def Let_def)
  with entry show ?thesis by (simp add: w1_def)
qed

theorem holder_can_release_witness:
  "pcs (client_move 0 Answer (client_move 0 Answer (client_moves contend (lock_init ''l'' two_ids)))) 0 = Idle"
proof -
  let ?w = "client_moves contend (lock_init ''l'' two_ids)"
  have reach: "lock_reachable 2 ''l'' two_ids ?w"
    by (rule client_moves_reachable) (simp add: contend_def)
  have ids: "good_ids 2 two_ids"
  proof -
    have "{..<2} = {0, 1 :: nat}" by auto
    then show ?thesis by (auto simp: good_ids_def two_ids_def)
  qed
  have "pcs ?w 0 = Held" "length (written ?w) = 1" by code_simp+
  with holder_can_release [OF reach ids, of 0] show ?thesis by simp
qed

text \<open>
  C36. \<open>Release\<close> trusts its caller. When the reply of a release is lost and another client takes the
  lock before the check, \<open>releasedAfterMaybe\<close> remembers the other client's version, so a second
  \<open>Release\<close> without an \<open>Acquire\<close> in between frees the other client's lock.
\<close>

theorem second_release_frees_other:
  assumes "kv s (lockName lk) = Some \<lparr>e_value = other, e_version = ver\<rparr>" "other \<noteq> clientID lk" "ver \<noteq> 0"
  shows "\<exists>lk' s'. releasedAfterMaybe (other, ver) lk = (lk', True) \<and> Release_start lk' = RelPut True \<and>
    put_attempt True (release_args lk') Answer s = (s', Some OK) \<and> value_of s' (lockName lk) = free"
  using assms
  by (auto simp: releasedAfterMaybe_def Release_start_def put_attempt_def release_args_def KVServer_Put_def
      value_of_def)

theorem second_release_frees_other_witness:
  "\<exists>lk' s'. releasedAfterMaybe (two_ids 1, 3) (MakeLock ''l'' (two_ids 0)) = (lk', True) \<and>
     put_attempt True (release_args lk') Answer \<lparr>kv = [''l'' \<mapsto> \<lparr>e_value = two_ids 1, e_version = 3\<rparr>]\<rparr> = (s', Some OK) \<and>
     value_of s' ''l'' = free"
  using second_release_frees_other [of "\<lparr>kv = [''l'' \<mapsto> \<lparr>e_value = two_ids 1, e_version = 3\<rparr>]\<rparr>"
      "MakeLock ''l'' (two_ids 0)" "two_ids 1" 3]
  by (auto simp: MakeLock_def two_ids_def)

end
