(* ===== verification/ShardCfg.thy ===== *)
theory ShardCfg
  imports GoLib
begin

text \<open>
  Shard configurations, \<open>src/shardkv1/shardcfg/shardcfg.go\<close>: the assignment of the twelve shards to
  replica groups, joining and leaving groups, and the rebalancing loop. The Go map from group ids to
  servers is an association list with distinct keys whose order stands for Go's iteration order;
  \<open>log.Fatalf\<close> is \<^term>\<open>None\<close>. The rebalancing loop is a partial function; that it returns is a theorem.
\<close>

unbundle bit_operations_syntax

section \<open>Configurations\<close>

definition NShards :: nat where
  "NShards = 12"

definition Key2Shard :: "string \<Rightarrow> int" where
  "Key2Shard key = uint (fnv32a key) mod int NShards"

record ShardConfig =
  Num :: int
  Shards :: "int list"
  Groups :: "(int \<times> string list) list"

definition MakeShardConfig :: ShardConfig where
  "MakeShardConfig = \<lparr>Num = 0, Shards = replicate NShards 0, Groups = []\<rparr>"

definition ShardConfig_Copy :: "ShardConfig \<Rightarrow> ShardConfig" where
  "ShardConfig_Copy cfg =
     (let c = MakeShardConfig\<lparr>Num := Num cfg, Shards := Shards cfg\<rparr>
      in fold (\<lambda>(k, srvs) c. c\<lparr>Groups := AList.update k srvs (Groups c)\<rparr>) (Groups cfg) c)"

section \<open>analyze and least\<close>

definition shard_counts :: "int list \<Rightarrow> int \<Rightarrow> int" where
  "shard_counts shards = fold (\<lambda>g m. m(g := m g + 1)) shards (\<lambda>_. 0)"

text \<open>The state of the loop is \<open>(mg, mn, lg, ln)\<close>.\<close>

fun analyze_loop :: "(int \<Rightarrow> int) \<Rightarrow> int list \<Rightarrow> int \<times> int \<times> int \<times> int \<Rightarrow> int \<times> int \<times> int \<times> int" where
  "analyze_loop counts [] st = st"
| "analyze_loop counts (g # gs) (mg, mn, lg, ln) =
     (let (lg', ln') = (if counts g < ln then (g, counts g) else (lg, ln));
          (mg', mn') = (if counts g > mn then (g, counts g) else (mg, mn))
      in analyze_loop counts gs (mg', mn', lg', ln'))"

definition analyze :: "ShardConfig \<Rightarrow> int \<times> int \<times> int \<times> int" where
  "analyze c = analyze_loop (shard_counts (Shards c)) (sort (map fst (Groups c))) (-1, -1, -1, 257)"

definition least :: "ShardConfig \<Rightarrow> int" where
  "least c = (case analyze c of (_, _, lg, _) \<Rightarrow> lg)"

section \<open>Rebalance\<close>

text \<open>Go copies the array it ranges over, so the loop reads the groups the shards had before it.\<close>

fun assign_loop :: "(nat \<times> int) list \<Rightarrow> ShardConfig \<Rightarrow> ShardConfig" where
  "assign_loop [] c = c"
| "assign_loop ((s, g) # r) c =
     assign_loop r (if map_of (Groups c) g = None then c\<lparr>Shards := (Shards c)[s := least c]\<rparr> else c)"

fun move_one :: "int \<Rightarrow> int \<Rightarrow> int list \<Rightarrow> int list" where
  "move_one mg lg [] = []"
| "move_one mg lg (g # gs) = (if g = mg then lg # gs else g # move_one mg lg gs)"

partial_function (option) move_loop :: "ShardConfig \<Rightarrow> ShardConfig option" where
  "move_loop c =
     (case analyze c of (mg, mn, lg, ln) \<Rightarrow>
        if mn < ln + 2 then Some c
        else move_loop (c\<lparr>Shards := move_one mg lg (Shards c)\<rparr>))"

declare move_loop.simps [code]

definition Rebalance :: "ShardConfig \<Rightarrow> ShardConfig option" where
  "Rebalance c =
     (if length (Groups c) < 1 then Some (c\<lparr>Shards := map (\<lambda>_. 0) (Shards c)\<rparr>)
      else move_loop (assign_loop (enumerate 0 (Shards c)) c))"

section \<open>Join and Leave\<close>

definition shares_server :: "string list \<Rightarrow> (int \<times> string list) list \<Rightarrow> bool" where
  "shares_server srvs groups \<longleftrightarrow>
     list_ex (\<lambda>(xgid, xservers). list_ex (\<lambda>s1. list_ex (\<lambda>s2. s1 = s2) srvs) xservers) groups"

text \<open>The result says if the loop ran to its end, and \<open>changed\<close>.\<close>

fun Join_loop :: "(int \<times> string list) list \<Rightarrow> bool \<Rightarrow> ShardConfig \<Rightarrow> (ShardConfig \<times> bool \<times> bool) option" where
  "Join_loop [] changed cfg = Some (cfg, True, changed)"
| "Join_loop ((gid, srvs) # r) changed cfg =
     (if map_of (Groups cfg) gid \<noteq> None then Some (cfg, False, changed)
      else if shares_server srvs (Groups cfg) then None
      else Join_loop r True (cfg\<lparr>Groups := AList.update gid srvs (Groups cfg)\<rparr>))"

definition ShardConfig_Join :: "(int \<times> string list) list \<Rightarrow> ShardConfig \<Rightarrow> (ShardConfig \<times> bool) option" where
  "ShardConfig_Join servers cfg = do {
     (c, done, changed) \<leftarrow> Join_loop servers False cfg;
     if \<not> done then Some (c, False)
     else if \<not> changed then None
     else Some (c\<lparr>Num := Num c + 1\<rparr>, True)
   }"

fun Leave_loop :: "int list \<Rightarrow> bool \<Rightarrow> ShardConfig \<Rightarrow> ShardConfig \<times> bool \<times> bool" where
  "Leave_loop [] changed cfg = (cfg, True, changed)"
| "Leave_loop (gid # r) changed cfg =
     (if map_of (Groups cfg) gid = None then (cfg, False, changed)
      else Leave_loop r True (cfg\<lparr>Groups := AList.delete gid (Groups cfg)\<rparr>))"

definition ShardConfig_Leave :: "int list \<Rightarrow> ShardConfig \<Rightarrow> (ShardConfig \<times> bool) option" where
  "ShardConfig_Leave gids cfg =
     (case Leave_loop gids False cfg of (c, done, changed) \<Rightarrow>
        if \<not> done then Some (c, False)
        else if \<not> changed then None
        else Some (c\<lparr>Num := Num c + 1\<rparr>, True))"

definition JoinBalance :: "(int \<times> string list) list \<Rightarrow> ShardConfig \<Rightarrow> (ShardConfig \<times> bool) option" where
  "JoinBalance servers cfg = do {
     (c, ok) \<leftarrow> ShardConfig_Join servers cfg;
     if \<not> ok then Some (c, False) else do { c' \<leftarrow> Rebalance c; Some (c', True) }
   }"

definition LeaveBalance :: "int list \<Rightarrow> ShardConfig \<Rightarrow> (ShardConfig \<times> bool) option" where
  "LeaveBalance gids cfg = do {
     (c, ok) \<leftarrow> ShardConfig_Leave gids cfg;
     if \<not> ok then Some (c, False) else do { c' \<leftarrow> Rebalance c; Some (c', True) }
   }"

definition GidServers :: "int \<Rightarrow> ShardConfig \<Rightarrow> (int \<times> string list \<times> bool) option" where
  "GidServers sh cfg = do {
     gid \<leftarrow> go_index (Shards cfg) sh;
     Some (case map_of (Groups cfg) gid of None \<Rightarrow> (gid, [], False) | Some srvs \<Rightarrow> (gid, srvs, True))
   }"

fun IsMember_loop :: "int list \<Rightarrow> int \<Rightarrow> bool" where
  "IsMember_loop [] gid = False"
| "IsMember_loop (g # gs) gid = (if g = gid then True else IsMember_loop gs gid)"

definition IsMember :: "int \<Rightarrow> ShardConfig \<Rightarrow> bool" where
  "IsMember gid cfg = IsMember_loop (Shards cfg) gid"

section \<open>CheckConfig\<close>

text \<open>\<open>False\<close> stands for a call of \<open>fatalf\<close>.\<close>

definition CheckConfig :: "int list \<Rightarrow> ShardConfig \<Rightarrow> bool" where
  "CheckConfig groups cfg \<longleftrightarrow>
     length (Groups cfg) = length groups \<and>
     list_all (\<lambda>g. map_of (Groups cfg) g \<noteq> None) groups \<and>
     (length groups > 0 \<longrightarrow> list_all (\<lambda>g. map_of (Groups cfg) g \<noteq> None) (Shards cfg)) \<and>
     (let counts = shard_counts (Shards cfg);
          mx = fold (\<lambda>(g, _) m. if counts g > m then counts g else m) (Groups cfg) 0;
          mn = fold (\<lambda>(g, _) m. if counts g < m then counts g else m) (Groups cfg) 257
      in \<not> mx > mn + 1)"

section \<open>Well-formed configurations\<close>

definition gids :: "ShardConfig \<Rightarrow> int set" where
  "gids c = fst ` set (Groups c)"

definition wf_cfg :: "ShardConfig \<Rightarrow> bool" where
  "wf_cfg c \<longleftrightarrow> length (Shards c) = NShards \<and> distinct (map fst (Groups c))"

definition assigned :: "ShardConfig \<Rightarrow> bool" where
  "assigned c \<longleftrightarrow> set (Shards c) \<subseteq> gids c"

definition load :: "ShardConfig \<Rightarrow> int \<Rightarrow> nat" where
  "load c g = count_list (Shards c) g"

definition balanced :: "ShardConfig \<Rightarrow> bool" where
  "balanced c \<longleftrightarrow> (\<forall>g \<in> gids c. \<forall>h \<in> gids c. load c g \<le> load c h + 1)"

lemma finite_gids [simp]: "finite (gids c)"
  by (simp add: gids_def)

lemma map_of_gids: "map_of (Groups c) g = None \<longleftrightarrow> g \<notin> gids c"
  by (simp add: gids_def map_of_eq_None_iff)

lemma shard_counts_load: "shard_counts (Shards c) g = int (load c g)"
proof -
  have "fold (\<lambda>g m. m(g := m g + 1)) xs m g = m g + int (count_list xs g)" for xs m
    by (induction xs arbitrary: m) auto
  then show ?thesis by (simp add: shard_counts_def load_def)
qed

lemma load_le: "load c g \<le> length (Shards c)"
  by (simp add: load_def count_le_length)

section \<open>analyze finds the extremes\<close>

text \<open>The loop invariant: the extremes over the groups \<open>ps\<close> seen so far.\<close>

definition extremes :: "(int \<Rightarrow> int) \<Rightarrow> int list \<Rightarrow> int \<times> int \<times> int \<times> int \<Rightarrow> bool" where
  "extremes counts ps st = (case st of (mg, mn, lg, ln) \<Rightarrow>
     (\<forall>g \<in> set ps. ln \<le> counts g \<and> counts g \<le> mn) \<and>
     (if ps = [] then mn = -1 \<and> ln = 257
      else mg \<in> set ps \<and> lg \<in> set ps \<and> mn = counts mg \<and> ln = counts lg))"

lemma analyze_loop_extremes:
  assumes "\<And>g. 0 \<le> counts g \<and> counts g < 257" "extremes counts ps st"
  shows "extremes counts (ps @ gs) (analyze_loop counts gs st)"
  using assms(2)
proof (induction gs arbitrary: ps st)
  case (Cons g gs)
  obtain mg mn lg ln where st: "st = (mg, mn, lg, ln)" by (metis prod_cases4)
  define st' where "st' = (if counts g > mn then g else mg, if counts g > mn then counts g else mn,
    if counts g < ln then g else lg, if counts g < ln then counts g else ln)"
  have "0 \<le> counts g" "counts g < 257" using assms(1) by auto
  with Cons.prems have "extremes counts (ps @ [g]) st'"
    unfolding st extremes_def st'_def by (cases "ps = []") auto
  from Cons.IH [OF this] show ?case by (auto simp: st st'_def Let_def)
qed simp

lemma analyze_spec:
  assumes "wf_cfg c" "Groups c \<noteq> []"
  obtains mg lg where "analyze c = (mg, int (load c mg), lg, int (load c lg))" "mg \<in> gids c" "lg \<in> gids c"
    "\<And>g. g \<in> gids c \<Longrightarrow> load c lg \<le> load c g \<and> load c g \<le> load c mg"
proof -
  let ?gs = "sort (map fst (Groups c))" and ?cnt = "shard_counts (Shards c)"
  obtain mg mn lg ln where an: "analyze c = (mg, mn, lg, ln)" by (metis prod_cases4)
  have range: "0 \<le> ?cnt g \<and> ?cnt g < 257" for g
    using load_le [of c g] assms(1) by (simp add: shard_counts_load wf_cfg_def NShards_def)
  have "extremes ?cnt [] (-1, -1, -1, 257)" by (simp add: extremes_def)
  from analyze_loop_extremes [OF range this, of ?gs]
  have ext: "extremes ?cnt ?gs (mg, mn, lg, ln)" using an by (simp add: analyze_def)
  have gs: "set ?gs = gids c" by (simp add: gids_def)
  then have "?gs \<noteq> []" using assms(2) by (metis empty_iff gids_def image_is_empty list.set(1) set_empty)
  note gs = gs this
  show ?thesis
    using ext [unfolded extremes_def gs(1)] gs(2)
    by (intro that [of mg lg]) (auto simp: an shard_counts_load)
qed

lemma least_in_gids: "wf_cfg c \<Longrightarrow> Groups c \<noteq> [] \<Longrightarrow> least c \<in> gids c"
  by (metis (mono_tags, lifting) analyze_spec least_def case_prod_conv)

section \<open>Rebalance assigns and balances\<close>

lemma assign_loop_frame:
  "Groups (assign_loop r c) = Groups c" "Num (assign_loop r c) = Num c"
  "length (Shards (assign_loop r c)) = length (Shards c)"
  by (induction r c rule: assign_loop.induct) auto

lemma assign_loop_assigns:
  assumes "wf_cfg c" "Groups c \<noteq> []" "k \<le> NShards"
    and "\<forall>j < k. Shards c ! j \<in> gids c" "\<forall>j. k \<le> j \<and> j < NShards \<longrightarrow> Shards c ! j = gs ! (j - k)"
    and "length gs = NShards - k"
  shows "assigned (assign_loop (enumerate k gs) c)"
  using assms
proof (induction gs arbitrary: k c)
  case Nil
  then have "set (Shards c) \<subseteq> gids c"
    by (auto simp: in_set_conv_nth wf_cfg_def)
  then show ?case by (simp add: assigned_def)
next
  case (Cons g gs)
  define c1 where "c1 = (if map_of (Groups c) g = None then c\<lparr>Shards := (Shards c)[k := least c]\<rparr> else c)"
  have k: "k < NShards" using Cons.prems(6) by simp
  have cur: "Shards c ! k = g" using Cons.prems(5) k by (auto dest: spec [of _ k])
  have fr: "Groups c1 = Groups c" "gids c1 = gids c" "length (Shards c1) = length (Shards c)"
    by (simp_all add: c1_def gids_def)
  have wf: "wf_cfg c1" "Groups c1 \<noteq> []" using Cons.prems(1,2) fr by (simp_all add: wf_cfg_def)
  have "\<forall>j < Suc k. Shards c1 ! j \<in> gids c1"
    using Cons.prems(1,4) k cur least_in_gids [OF Cons.prems(1,2)]
    by (auto simp: c1_def wf_cfg_def map_of_gids gids_def less_Suc_eq nth_list_update)
  moreover have "\<forall>j. Suc k \<le> j \<and> j < NShards \<longrightarrow> Shards c1 ! j = gs ! (j - Suc k)"
  proof (intro allI impI)
    fix j assume j: "Suc k \<le> j \<and> j < NShards"
    then have "Shards c ! j = (g # gs) ! (j - k)" using Cons.prems(5) by simp
    moreover have "j - k = Suc (j - Suc k)" using j by linarith
    ultimately show "Shards c1 ! j = gs ! (j - Suc k)" using j by (simp add: c1_def)
  qed
  ultimately have "assigned (assign_loop (enumerate (Suc k) gs) c1)"
    using Cons.IH [OF wf, of "Suc k"] k Cons.prems(6) by simp
  then show ?case by (simp add: c1_def)
qed

lemma count_move_one:
  assumes "mg \<in> set xs" "mg \<noteq> lg"
  shows "int (count_list (move_one mg lg xs) g) = int (count_list xs g) - (if g = mg then 1 else 0) + (if g = lg then 1 else 0)"
  using assms by (induction xs) (auto split: if_splits)

lemma set_move_one: "set (move_one mg lg xs) \<subseteq> insert lg (set xs)"
  by (induction xs) auto

lemma length_move_one [simp]: "length (move_one mg lg xs) = length xs"
  by (induction xs) auto

text \<open>The potential of the loop: the sum of the squared loads.\<close>

definition imbalance :: "ShardConfig \<Rightarrow> int" where
  "imbalance c = (\<Sum>g \<in> gids c. (int (load c g))\<^sup>2)"

lemma imbalance_decreases:
  assumes "mg \<in> gids c" "lg \<in> gids c" "load c lg + 2 \<le> load c mg"
    and c': "c' = c\<lparr>Shards := move_one mg lg (Shards c)\<rparr>"
  shows "imbalance c' < imbalance c"
proof -
  have ne: "mg \<noteq> lg" using assms(3) by auto
  have "mg \<in> set (Shards c)" using assms(3) by (metis add_leD2 count_notin load_def not_numeral_le_zero)
  then have cnt: "int (load c' g) = int (load c g) - (if g = mg then 1 else 0) + (if g = lg then 1 else 0)" for g
    using count_move_one [OF _ ne] by (simp add: load_def c')
  have g': "gids c' = gids c" by (simp add: gids_def c')
  let ?R = "gids c - {mg} - {lg}" and ?q = "\<lambda>c g. (int (load c g))\<^sup>2"
  have split: "(\<Sum>g \<in> gids c. f g) = f mg + (f lg + sum f ?R)" for f :: "int \<Rightarrow> int"
    using assms(1,2) ne by (simp add: sum.remove [of "gids c" mg] sum.remove [of "gids c - {mg}" lg])
  have "sum (?q c') ?R = sum (?q c) ?R" by (intro sum.cong) (auto simp: cnt)
  moreover have "?q c' mg + ?q c' lg < ?q c mg + ?q c lg"
  proof -
    have "?q c' mg = (int (load c mg) - 1)\<^sup>2" "?q c' lg = (int (load c lg) + 1)\<^sup>2"
      using ne cnt [of mg] cnt [of lg] by simp_all
    moreover have "int (load c lg) + 2 \<le> int (load c mg)" using assms(3) by linarith
    ultimately show ?thesis by (simp add: power2_eq_square algebra_simps)
  qed
  ultimately show ?thesis by (simp add: imbalance_def g' split)
qed

lemma move_loop_balances:
  assumes "wf_cfg c" "Groups c \<noteq> []" "assigned c"
  shows "\<exists>c'. move_loop c = Some c' \<and> wf_cfg c' \<and> assigned c' \<and> balanced c' \<and> Groups c' = Groups c \<and> Num c' = Num c"
  using assms
proof (induction "nat (imbalance c)" arbitrary: c rule: less_induct)
  case less
  obtain mg lg where an: "analyze c = (mg, int (load c mg), lg, int (load c lg))" "mg \<in> gids c" "lg \<in> gids c"
    and ext: "\<And>g. g \<in> gids c \<Longrightarrow> load c lg \<le> load c g \<and> load c g \<le> load c mg"
    by (rule analyze_spec [OF less.prems(1,2)]) blast
  show ?case
  proof (cases "load c mg < load c lg + 2")
    case True
    have "load c g \<le> load c h + 1" if "g \<in> gids c" "h \<in> gids c" for g h
      using ext [OF that(1)] ext [OF that(2)] True by linarith
    then have "balanced c" by (simp add: balanced_def)
    moreover have "move_loop c = Some c" using an(1) True by (simp add: move_loop.simps)
    ultimately show ?thesis using less.prems by simp
  next
    case False
    define c1 where "c1 = c\<lparr>Shards := move_one mg lg (Shards c)\<rparr>"
    have dec: "imbalance c1 < imbalance c"
      by (rule imbalance_decreases [OF an(2,3) _ c1_def]) (use False in simp)
    moreover have "0 \<le> imbalance c1" by (simp add: imbalance_def sum_nonneg)
    ultimately have "nat (imbalance c1) < nat (imbalance c)" by linarith
    moreover have "wf_cfg c1" "Groups c1 \<noteq> []" "gids c1 = gids c"
      using less.prems(1,2) by (simp_all add: c1_def wf_cfg_def gids_def)
    moreover have "assigned c1"
      using less.prems(3) an(3) set_move_one [of mg lg "Shards c"] by (auto simp: assigned_def c1_def gids_def)
    ultimately obtain c' where "move_loop c1 = Some c'" "wf_cfg c'" "assigned c'" "balanced c'"
      "Groups c' = Groups c1" "Num c' = Num c1" using less.hyps by blast
    moreover have "move_loop c = move_loop c1" using an(1) False by (simp add: move_loop.simps [of c] c1_def)
    ultimately show ?thesis by (simp add: c1_def)
  qed
qed

section \<open>The contract of a rebalancer\<close>

text \<open>
  Joining and leaving only change the groups and leave the rest to the rebalancer. What they rely on
  is that rebalancing returns, keeps the groups, and establishes a good assignment.
\<close>

locale rebalancer =
  fixes rebalance :: "'c \<Rightarrow> 'c option" and members :: "'c \<Rightarrow> 'g" and wf good :: "'c \<Rightarrow> bool"
  assumes rebalance_good: "wf c \<Longrightarrow> \<exists>c'. rebalance c = Some c' \<and> wf c' \<and> good c' \<and> members c' = members c"
begin

lemma change_then_rebalance:
  assumes "wf c"
  obtains c' where "Option.bind (Some c) (\<lambda>c. Option.bind (rebalance c) (\<lambda>c'. Some (c', True))) = Some (c', True)"
    "wf c'" "good c'" "members c' = members c"
  using rebalance_good [OF assms] by auto

text \<open>Any number of changes and rebalancings ends in a good assignment of the last change's groups.\<close>

lemma history_good:
  assumes "wf c" "\<And>f c. f \<in> set fs \<Longrightarrow> wf c \<Longrightarrow> wf (f c)" "fs \<noteq> []"
  shows "\<exists>c'. fold (\<lambda>f r. Option.bind r (\<lambda>c. rebalance (f c))) fs (Some c) = Some c' \<and> wf c' \<and> good c'"
  using assms
proof (induction fs arbitrary: c)
  case (Cons f fs)
  obtain c1 where c1: "rebalance (f c) = Some c1" "wf c1" "good c1"
    using rebalance_good Cons.prems(1,2) by (metis list.set_intros(1))
  show ?case
    using Cons.IH [OF c1(2)] Cons.prems(2) c1 by (cases "fs = []") auto
qed simp

end

definition well_assigned :: "ShardConfig \<Rightarrow> bool" where
  "well_assigned c \<longleftrightarrow> balanced c \<and> (if Groups c = [] then set (Shards c) = {0} else assigned c)"

lemma Rebalance_good:
  assumes "wf_cfg c"
  shows "\<exists>c'. Rebalance c = Some c' \<and> wf_cfg c' \<and> well_assigned c' \<and> Groups c' = Groups c \<and> Num c' = Num c"
proof (cases "Groups c = []")
  case True
  moreover have "Shards c \<noteq> []" using assms by (auto simp: wf_cfg_def NShards_def)
  ultimately show ?thesis
    using assms by (auto simp: Rebalance_def wf_cfg_def well_assigned_def balanced_def gids_def image_constant_conv)
next
  case False
  define c1 where "c1 = assign_loop (enumerate 0 (Shards c)) c"
  have "assigned c1" unfolding c1_def
    by (rule assign_loop_assigns [OF assms False]) (use assms in \<open>auto simp: wf_cfg_def\<close>)
  moreover have "wf_cfg c1" "Groups c1 = Groups c" "Num c1 = Num c"
    using assms by (simp_all add: c1_def assign_loop_frame wf_cfg_def)
  ultimately obtain c' where "move_loop c1 = Some c'" "wf_cfg c'" "assigned c'" "balanced c'"
    "Groups c' = Groups c" "Num c' = Num c"
    using move_loop_balances [of c1] False by auto
  with False show ?thesis by (auto simp: Rebalance_def c1_def well_assigned_def Suc_le_eq)
qed

interpretation reb: rebalancer Rebalance "\<lambda>c. (Groups c, Num c)" wf_cfg well_assigned
  using Rebalance_good by unfold_locales auto

section \<open>Join and Leave\<close>

lemma Join_loop_spec:
  assumes "Join_loop srvs ch c = Some (c', d, ch')" "wf_cfg c"
  shows "wf_cfg c' \<and> Shards c' = Shards c \<and> Num c' = Num c \<and>
    (d \<longrightarrow> gids c' = gids c \<union> fst ` set srvs \<and> (ch' \<longleftrightarrow> ch \<or> srvs \<noteq> []))"
  using assms
proof (induction srvs ch c rule: Join_loop.induct)
  case (2 gid sv r ch c)
  show ?case
  proof (cases "map_of (Groups c) gid \<noteq> None \<or> shares_server sv (Groups c)")
    case True
    with "2.prems" show ?thesis by (auto split: if_splits)
  next
    case False
    let ?c = "c\<lparr>Groups := AList.update gid sv (Groups c)\<rparr>"
    have "wf_cfg ?c" using "2.prems"(2) by (simp add: wf_cfg_def distinct_update)
    moreover have "gids ?c = insert gid (gids c)" by (auto simp: gids_def dom_update)
    ultimately show ?thesis using "2.IH" "2.prems" False by auto
  qed
qed auto

lemma Leave_loop_spec:
  assumes "Leave_loop gs ch c = (c', d, ch')" "wf_cfg c"
  shows "wf_cfg c' \<and> Shards c' = Shards c \<and> Num c' = Num c \<and>
    (d \<longrightarrow> gids c' = gids c - set gs \<and> (ch' \<longleftrightarrow> ch \<or> gs \<noteq> []))"
  using assms
proof (induction gs ch c rule: Leave_loop.induct)
  case (2 gid r ch c)
  show ?case
  proof (cases "map_of (Groups c) gid = None")
    case True
    with "2.prems" show ?thesis by auto
  next
    case False
    let ?c = "c\<lparr>Groups := AList.delete gid (Groups c)\<rparr>"
    have "wf_cfg ?c" using "2.prems"(2) by (simp add: wf_cfg_def distinct_delete)
    moreover have "gids ?c = gids c - {gid}" by (auto simp: gids_def AList.delete_eq)
    ultimately show ?thesis using "2.IH" "2.prems" False by auto
  qed
qed auto

lemma CheckConfig_good:
  assumes "wf_cfg c" "well_assigned c" "distinct groups" "set groups = gids c"
  shows "CheckConfig groups c"
proof -
  let ?cnt = "shard_counts (Shards c)"
  define mx where "mx = fold (\<lambda>(g, _) m. if ?cnt g > m then ?cnt g else m) (Groups c) 0"
  define mn where "mn = fold (\<lambda>(g, _) m. if ?cnt g < m then ?cnt g else m) (Groups c) 257"
  have "fold (\<lambda>(g, _) m. if ?cnt g > m then ?cnt g else m) gs m \<in> insert m (?cnt ` fst ` set gs)"
    for gs :: "(int \<times> string list) list" and m by (induction gs arbitrary: m) force+
  then have mx: "mx \<in> insert 0 (?cnt ` gids c)" by (simp add: mx_def gids_def)
  have "fold (\<lambda>(g, _) m. if ?cnt g < m then ?cnt g else m) gs m \<in> insert m (?cnt ` fst ` set gs)"
    for gs :: "(int \<times> string list) list" and m by (induction gs arbitrary: m) force+
  then have mn: "mn \<in> insert 257 (?cnt ` gids c)" by (simp add: mn_def gids_def)
  have "\<not> mx > mn + 1"
  proof -
    have low: "load c g < 257" for g using load_le [of c g] assms(1) by (simp add: wf_cfg_def NShards_def)
    consider "mx = 0" | g where "mx = int (load c g)" "mn = 257"
      | g h where "mx = int (load c g)" "mn = int (load c h)" "g \<in> gids c" "h \<in> gids c"
      using mx mn by (auto simp: shard_counts_load)
    then show ?thesis
    proof cases
      case 1
      with mn show ?thesis by (auto simp: shard_counts_load)
    next
      case 2
      with low [of g] show ?thesis by simp
    next
      case 3
      then have "load c g \<le> load c h + 1" using assms(2) by (simp add: well_assigned_def balanced_def)
      with 3 show ?thesis by simp
    qed
  qed
  moreover have "length (Groups c) = length groups"
  proof -
    have "length (Groups c) = card (gids c)"
      using assms(1) distinct_card [of "map fst (Groups c)"] by (simp add: wf_cfg_def gids_def)
    also have "\<dots> = length groups" using assms(3,4) distinct_card by metis
    finally show ?thesis .
  qed
  moreover have "list_all (\<lambda>g. map_of (Groups c) g \<noteq> None) groups"
    using assms(4) by (auto simp: list_all_iff map_of_gids)
  moreover have "length groups > 0 \<longrightarrow> list_all (\<lambda>g. map_of (Groups c) g \<noteq> None) (Shards c)"
    using assms(2,4) by (auto simp: list_all_iff map_of_gids well_assigned_def assigned_def gids_def split: if_splits)
  ultimately show ?thesis by (simp add: CheckConfig_def Let_def mx_def mn_def)
qed

end
