(* ===== verification/ShardProps.thy ===== *)
theory ShardProps
  imports ShardCfg
begin

text \<open>The properties of shard configurations.\<close>

text \<open>
  C9. Rebalancing returns, for every well-formed configuration. With no groups all shards are
  unassigned; otherwise every shard belongs to a group of the configuration and the loads of any two
  groups differ by at most one. Groups and configuration number stay.
\<close>

theorem Rebalance_balances:
  assumes "wf_cfg c"
  shows "\<exists>c'. Rebalance c = Some c' \<and> wf_cfg c' \<and> Groups c' = Groups c \<and> Num c' = Num c \<and>
    (if Groups c = [] then set (Shards c') = {0} else set (Shards c') \<subseteq> fst ` set (Groups c)) \<and>
    (\<forall>g \<in> fst ` set (Groups c). \<forall>h \<in> fst ` set (Groups c).
       count_list (Shards c') g \<le> count_list (Shards c') h + 1)"
proof -
  obtain c' where c': "Rebalance c = Some c'" "wf_cfg c'" "well_assigned c'" "Groups c' = Groups c" "Num c' = Num c"
    using reb.rebalance_good [OF assms] by auto
  then show ?thesis
    by (intro exI [of _ c']) (auto simp: well_assigned_def assigned_def balanced_def gids_def load_def)
qed

definition two_groups :: ShardConfig where
  "two_groups = MakeShardConfig\<lparr>Groups := [(7, [''s1'']), (3, [''s2''])]\<rparr>"

theorem Rebalance_balances_witness:
  "\<exists>c'. Rebalance two_groups = Some c' \<and> count_list (Shards c') 3 \<le> count_list (Shards c') 7 + 1 \<and>
     count_list (Shards c') 7 \<le> count_list (Shards c') 3 + 1"
  using Rebalance_balances [of two_groups]
  by (auto simp: two_groups_def wf_cfg_def MakeShardConfig_def)

text \<open>Rebalancing moves nothing when there is nothing to balance.\<close>

theorem Rebalance_keeps_balanced:
  assumes "wf_cfg c" "well_assigned c"
  shows "Rebalance c = Some c"
proof (cases "Groups c = []")
  case True
  with assms(2) have "map (\<lambda>_. 0) (Shards c) = Shards c" by (intro map_idI) (auto simp: well_assigned_def)
  with True show ?thesis by (simp add: Rebalance_def)
next
  case False
  have keep: "assign_loop r c = c" if "snd ` set r \<subseteq> gids c" for r
    using that by (induction r) (auto simp: map_of_gids)
  have "snd ` set (enumerate 0 (Shards c)) = set (Shards c)"
    using map_snd_enumerate [of 0 "Shards c"] by (metis set_map)
  then have "assign_loop (enumerate 0 (Shards c)) c = c"
    using assms(2) False by (intro keep) (auto simp: well_assigned_def assigned_def)
  moreover obtain mg lg where "analyze c = (mg, int (load c mg), lg, int (load c lg))" "mg \<in> gids c" "lg \<in> gids c"
    by (rule analyze_spec [OF assms(1) False]) blast
  moreover have "load c mg \<le> load c lg + 1"
    using calculation assms(2) by (auto simp: well_assigned_def balanced_def)
  ultimately show ?thesis using False by (simp add: Rebalance_def move_loop.simps Suc_le_eq)
qed

theorem Rebalance_keeps_balanced_witness:
  "Rebalance (two_groups\<lparr>Shards := [3, 7, 3, 7, 3, 7, 3, 7, 3, 7, 3, 7]\<rparr>) =
     Some (two_groups\<lparr>Shards := [3, 7, 3, 7, 3, 7, 3, 7, 3, 7, 3, 7]\<rparr>)"
  by (rule Rebalance_keeps_balanced)
     (auto simp: two_groups_def wf_cfg_def MakeShardConfig_def NShards_def well_assigned_def balanced_def
        assigned_def gids_def load_def)

text \<open>A join or a leave that succeeds is followed by a rebalance that succeeds.\<close>

lemma JoinBalance_good:
  assumes "wf_cfg cfg" "JoinBalance servers cfg = Some (c', True)"
  shows "wf_cfg c' \<and> well_assigned c' \<and> gids c' = gids cfg \<union> fst ` set servers \<and> Num c' = Num cfg + 1"
proof -
  obtain c where j: "ShardConfig_Join servers cfg = Some (c, True)" and r: "Rebalance c = Some c'"
    using assms(2) by (auto simp: JoinBalance_def bind_Some_iff split: if_splits)
  obtain c0 ch where "Join_loop servers False cfg = Some (c0, True, ch)" and c: "c = c0\<lparr>Num := Num c0 + 1\<rparr>"
    using j by (auto simp: ShardConfig_Join_def bind_Some_iff split: if_splits)
  from Join_loop_spec [OF this(1) assms(1)]
  have "wf_cfg c" "gids c = gids cfg \<union> fst ` set servers" "Num c = Num cfg + 1"
    by (auto simp: c wf_cfg_def gids_def)
  with Rebalance_good [of c] r show ?thesis by (auto simp: gids_def)
qed

lemma LeaveBalance_good:
  assumes "wf_cfg cfg" "LeaveBalance gs cfg = Some (c', True)"
  shows "wf_cfg c' \<and> well_assigned c' \<and> gids c' = gids cfg - set gs \<and> Num c' = Num cfg + 1"
proof -
  obtain c where j: "ShardConfig_Leave gs cfg = Some (c, True)" and r: "Rebalance c = Some c'"
    using assms(2) by (auto simp: LeaveBalance_def bind_Some_iff split: if_splits)
  obtain c0 ch where "Leave_loop gs False cfg = (c0, True, ch)" and c: "c = c0\<lparr>Num := Num c0 + 1\<rparr>"
    using j by (auto simp: ShardConfig_Leave_def split: if_splits prod.splits)
  from Leave_loop_spec [OF this(1) assms(1)]
  have "wf_cfg c" "gids c = gids cfg - set gs" "Num c = Num cfg + 1"
    by (auto simp: c wf_cfg_def gids_def)
  with Rebalance_good [of c] r show ?thesis by (auto simp: gids_def)
qed

text \<open>A sequence of reconfigurations, each of which must succeed.\<close>

datatype reconf = RJoin "(int \<times> string list) list" | RLeave "int list"

fun reconfigure :: "reconf list \<Rightarrow> ShardConfig \<Rightarrow> ShardConfig option" where
  "reconfigure [] c = Some c"
| "reconfigure (RJoin servers # ops) c =
     (case JoinBalance servers c of Some (c', True) \<Rightarrow> reconfigure ops c' | _ \<Rightarrow> None)"
| "reconfigure (RLeave gs # ops) c =
     (case LeaveBalance gs c of Some (c', True) \<Rightarrow> reconfigure ops c' | _ \<Rightarrow> None)"

fun members :: "reconf list \<Rightarrow> int set \<Rightarrow> int set" where
  "members [] G = G"
| "members (RJoin servers # ops) G = members ops (G \<union> fst ` set servers)"
| "members (RLeave gs # ops) G = members ops (G - set gs)"

lemma reconfigure_good:
  "reconfigure ops c = Some c' \<Longrightarrow> wf_cfg c \<Longrightarrow> well_assigned c \<Longrightarrow>
   wf_cfg c' \<and> well_assigned c' \<and> gids c' = members ops (gids c) \<and> Num c' = Num c + int (length ops)"
proof (induction ops c rule: reconfigure.induct)
  case (2 servers ops c)
  then obtain d where "JoinBalance servers c = Some (d, True)" "reconfigure ops d = Some c'"
    by (auto split: option.splits bool.splits)
  with JoinBalance_good [of c servers d] 2 show ?case by auto
next
  case (3 gs ops c)
  then obtain d where "LeaveBalance gs c = Some (d, True)" "reconfigure ops d = Some c'"
    by (auto split: option.splits bool.splits)
  with LeaveBalance_good [of c gs d] 3 show ?case by auto
qed simp

text \<open>
  C37. Reconfigurations stay correct: after any sequence of successful \<open>JoinBalance\<close> and \<open>LeaveBalance\<close>
  calls from the empty configuration, down to the last group leaving, the test suite's \<open>CheckConfig\<close>
  accepts the configuration for exactly the groups that have joined and not left, and its number
  counts the calls.
\<close>

theorem reconfigurations_check:
  assumes "reconfigure ops MakeShardConfig = Some c" "distinct groups" "set groups = members ops {}"
  shows "CheckConfig groups c \<and> Num c = int (length ops)"
proof -
  have "wf_cfg MakeShardConfig" "well_assigned MakeShardConfig" "gids MakeShardConfig = {}" "Num MakeShardConfig = 0"
    by (auto simp: wf_cfg_def MakeShardConfig_def well_assigned_def balanced_def gids_def NShards_def)
  with reconfigure_good [OF assms(1)] have "wf_cfg c" "well_assigned c" "gids c = members ops {}" "Num c = int (length ops)" by auto
  with CheckConfig_good [of c groups] assms(2,3) show ?thesis by simp
qed

theorem reconfigurations_check_witness:
  "case reconfigure [RJoin [(3, [''s2'']), (7, [''s1''])], RJoin [(5, [''s3''])], RLeave [7]] MakeShardConfig of
     None \<Rightarrow> False | Some c \<Rightarrow> CheckConfig [3, 5] c \<and> Num c = 3"
proof -
  let ?ops = "[RJoin [(3, [''s2'']), (7, [''s1''])], RJoin [(5, [''s3''])], RLeave [7 :: int]]"
  obtain c where c: "reconfigure ?ops MakeShardConfig = Some c"
  proof -
    have "reconfigure ?ops MakeShardConfig \<noteq> None" by code_simp
    then show ?thesis using that by blast
  qed
  have "CheckConfig [3, 5] c \<and> Num c = int (length ?ops)" by (rule reconfigurations_check [OF c]) auto
  then show ?thesis by (simp only: c option.case) simp
qed

text \<open>
  Every key has a shard: the hash of any key falls on one of the twelve indices, so \<open>GidServers\<close>
  of a key's shard never indexes out of range.
\<close>

theorem Key2Shard_in_range:
  assumes "wf_cfg cfg"
  shows "0 \<le> Key2Shard key \<and> Key2Shard key < int NShards \<and> GidServers (Key2Shard key) cfg \<noteq> None"
proof -
  have "0 \<le> Key2Shard key" "Key2Shard key < int NShards" by (simp_all add: Key2Shard_def NShards_def)
  with assms show ?thesis by (simp add: GidServers_def wf_cfg_def go_index_def)
qed

theorem Key2Shard_in_range_witness: "GidServers (Key2Shard ''a'') two_groups = Some (0, [], False)"
proof -
  have "wf_cfg two_groups" by (simp add: two_groups_def wf_cfg_def MakeShardConfig_def)
  from Key2Shard_in_range [OF this, of "''a''"]
  have r: "0 \<le> Key2Shard ''a''" "Key2Shard ''a'' < 12" by (simp_all add: NShards_def)
  then have "go_index (Shards two_groups) (Key2Shard ''a'') = Some 0"
    by (simp add: go_index_def two_groups_def MakeShardConfig_def NShards_def)
  then show ?thesis by (simp add: GidServers_def two_groups_def)
qed

end
