(* ===== verification/ShardTest.thy ===== *)
theory ShardTest
  imports ShardProps TesterConfig
begin

text \<open>
  The driver of the tests of the sharded store, \<open>src/shardkv1/test.go\<close>: making groups, joining and
  leaving them through the shard controller, and the verdicts of the tests on a crashed group and a
  superseded controller. The controller (\<open>src/shardkv1/shardctrler\<close>) is a parameter: \<open>qry\<close> reads and
  \<open>chg\<close> and \<open>ini\<close> replace the configuration in its state. In the repository the three are still to be
  written; their bodies are modelled as they stand. \<open>log.Fatalf\<close>, \<open>Fatalf\<close> of a test and a nil pointer
  are \<^term>\<open>None\<close>; sleeping is left out.
\<close>

definition Gid1 :: Tgid where
  "Gid1 = 1"

definition shard_NSRV :: nat where
  "shard_NSRV = 3"

section \<open>The controller as it stands\<close>

definition Query :: "'k \<Rightarrow> ShardConfig option" where
  "Query k = None"

definition ChangeConfigTo :: "ShardConfig \<Rightarrow> 'k \<Rightarrow> 'k" where
  "ChangeConfigTo new k = k"

definition InitConfig :: "ShardConfig \<Rightarrow> 'k \<Rightarrow> 'k" where
  "InitConfig cfg k = k"

section \<open>Joining and leaving\<close>

record ('r, 'b, 'k) shard_test =
  sh_cfg :: "('r, 'b) Config"
  sh_sck :: 'k
  sh_ngid :: Tgid

definition MakeTestMaxRaft ::
  "(nat \<Rightarrow> string) \<Rightarrow> (nat \<Rightarrow> bool \<times> nat) \<Rightarrow> bool \<Rightarrow> nat \<Rightarrow> 'k \<Rightarrow> ('r, 'b, 'k) shard_test option" where
  "MakeTestMaxRaft rs env rel k sck = do {
     cfg \<leftarrow> MakeConfig rs env 1 rel k;
     Some \<lparr>sh_cfg = Begin_test cfg, sh_sck = sck, sh_ngid = Gid1 + 1\<rparr>
   }"

definition newGid :: "('r, 'b, 'k) shard_test \<Rightarrow> Tgid \<times> ('r, 'b, 'k) shard_test" where
  "newGid ts = (sh_ngid ts, ts\<lparr>sh_ngid := sh_ngid ts + 1\<rparr>)"

fun groups :: "nat \<Rightarrow> ('r, 'b, 'k) shard_test \<Rightarrow> Tgid list \<times> ('r, 'b, 'k) shard_test" where
  "groups 0 ts = ([], ts)"
| "groups (Suc n) ts =
     (case newGid ts of (g, ts1) \<Rightarrow> case groups n ts1 of (gs, ts2) \<Rightarrow> (g # gs, ts2))"

text \<open>An operation on the network and the groups of the test.\<close>

definition on_cfg ::
  "(tnet \<times> ('r, 'b) Groups \<Rightarrow> (tnet \<times> ('r, 'b) Groups) option) \<Rightarrow> ('r, 'b, 'k) shard_test \<Rightarrow> ('r, 'b, 'k) shard_test option" where
  "on_cfg f ts = do {
     (nk, gs) \<leftarrow> f (cfg_net (sh_cfg ts), cfg_Groups (sh_cfg ts));
     Some (ts\<lparr>sh_cfg := (sh_cfg ts)\<lparr>cfg_net := nk, cfg_Groups := gs\<rparr>\<rparr>)
   }"

definition setupKVService ::
  "(ShardConfig \<Rightarrow> 'k \<Rightarrow> 'k) \<Rightarrow> (nat \<Rightarrow> string) \<Rightarrow> (Tgid \<Rightarrow> nat \<Rightarrow> bool \<times> nat) \<Rightarrow> ('r, 'b, 'k) shard_test \<Rightarrow>
   (('r, 'b, 'k) shard_test \<times> Tgid) option" where
  "setupKVService ini rs env ts = do {
     ts1 \<leftarrow> on_cfg (MakeGroupStart rs (env Gid1) Gid1 shard_NSRV) ts;
     sg \<leftarrow> Config_Group Gid1 (sh_cfg ts1);
     (scfg, ok) \<leftarrow> JoinBalance [(Gid1, servernames sg)] MakeShardConfig;
     Some (ts1\<lparr>sh_sck := ini scfg (sh_sck ts1)\<rparr>, Gid1)
   }"

definition checkMember :: "('k \<Rightarrow> ShardConfig option) \<Rightarrow> Tgid \<Rightarrow> 'k \<Rightarrow> bool option" where
  "checkMember qry g k = do { cfg \<leftarrow> qry k; Some (IsMember g cfg) }"

definition shard_join ::
  "('k \<Rightarrow> ShardConfig option) \<Rightarrow> (ShardConfig \<Rightarrow> 'k \<Rightarrow> 'k) \<Rightarrow> Tgid \<Rightarrow> string list \<Rightarrow> 'k \<Rightarrow> 'k option" where
  "shard_join qry chg g ss k = do {
     cfg \<leftarrow> qry k;
     (newcfg, ok) \<leftarrow> JoinBalance [(g, ss)] (ShardConfig_Copy cfg);
     if \<not> ok then None else Some (chg newcfg k)
   }"

fun joinGroups ::
  "('k \<Rightarrow> ShardConfig option) \<Rightarrow> (ShardConfig \<Rightarrow> 'k \<Rightarrow> 'k) \<Rightarrow> (nat \<Rightarrow> string) \<Rightarrow> (Tgid \<Rightarrow> nat \<Rightarrow> bool \<times> nat) \<Rightarrow>
   Tgid list \<Rightarrow> ('r, 'b, 'k) shard_test \<Rightarrow> (('r, 'b, 'k) shard_test \<times> bool) option" where
  "joinGroups qry chg rs env [] ts = Some (ts, True)"
| "joinGroups qry chg rs env (g # gs) ts = do {
     ts1 \<leftarrow> on_cfg (MakeGroupStart rs (env g) g shard_NSRV) ts;
     sg \<leftarrow> Config_Group g (sh_cfg ts1);
     k \<leftarrow> shard_join qry chg g (servernames sg) (sh_sck ts1);
     ok \<leftarrow> checkMember qry g k;
     let ts2 = ts1\<lparr>sh_sck := k\<rparr>;
     if \<not> ok then Some (ts2, False) else joinGroups qry chg rs env gs ts2
   }"

definition shard_leave ::
  "('k \<Rightarrow> ShardConfig option) \<Rightarrow> (ShardConfig \<Rightarrow> 'k \<Rightarrow> 'k) \<Rightarrow> Tgid \<Rightarrow> 'k \<Rightarrow> 'k option" where
  "shard_leave qry chg g k = do {
     cfg \<leftarrow> qry k;
     (newcfg, ok) \<leftarrow> LeaveBalance [g] (ShardConfig_Copy cfg);
     if \<not> ok then None else Some (chg newcfg k)
   }"

fun leaveGroups ::
  "('k \<Rightarrow> ShardConfig option) \<Rightarrow> (ShardConfig \<Rightarrow> 'k \<Rightarrow> 'k) \<Rightarrow> Tgid list \<Rightarrow> ('r, 'b, 'k) shard_test \<Rightarrow>
   (('r, 'b, 'k) shard_test \<times> bool) option" where
  "leaveGroups qry chg [] ts = Some (ts, True)"
| "leaveGroups qry chg (g # gs) ts = do {
     k \<leftarrow> shard_leave qry chg g (sh_sck ts);
     ok \<leftarrow> checkMember qry g k;
     let ts1 = ts\<lparr>sh_sck := k\<rparr>;
     if ok then Some (ts1, False)
     else do { ts2 \<leftarrow> on_cfg (ExitGroup g) ts1; leaveGroups qry chg gs ts2 }
   }"

text \<open>
  One turn of a controller in \<open>partitionCtrler\<close>, and in \<open>concurCtrler\<close>, which goes on in any case: the
  flag says if the new group was seen to be a member.
\<close>

definition ctrler_turn ::
  "('k \<Rightarrow> ShardConfig option) \<Rightarrow> (ShardConfig \<Rightarrow> 'k \<Rightarrow> 'k) \<Rightarrow> (nat \<Rightarrow> string) \<Rightarrow> (Tgid \<Rightarrow> nat \<Rightarrow> bool \<times> nat) \<Rightarrow>
   ('r, 'b, 'k) shard_test \<Rightarrow> (('r, 'b, 'k) shard_test \<times> bool) option" where
  "ctrler_turn qry chg rs env ts =
     (case newGid ts of (g, ts1) \<Rightarrow> do {
        (ts2, _) \<leftarrow> joinGroups qry chg rs env [g] ts1;
        ok \<leftarrow> checkMember qry g (sh_sck ts2);
        if ok then do { (ts3, _) \<leftarrow> leaveGroups qry chg [g] ts2; Some (ts3, True) } else Some (ts2, False)
      })"

section \<open>Verdicts\<close>

text \<open>
  \<open>checkShutdownSharding\<close>: what a reading goroutine sends, and the verdict on the answers that arrive
  until none has come for two seconds.
\<close>

definition shutdown_answer :: "string \<Rightarrow> string \<Rightarrow> string \<Rightarrow> string" where
  "shutdown_answer key want got =
     (if got \<noteq> want then ''Get('' @ key @ ''): expected:'' @ [CHR 0x0A] @ want @ [CHR 0x0A] @ ''received:'' @ [CHR 0x0A] @ got
      else [])"

fun shutdown_count :: "string list \<Rightarrow> nat \<Rightarrow> nat option" where
  "shutdown_count [] ndone = Some ndone"
| "shutdown_count (err # errs) ndone = (if err \<noteq> [] then None else shutdown_count errs (ndone + 1))"

definition shutdown_verdict :: "nat \<Rightarrow> string list \<Rightarrow> unit option" where
  "shutdown_verdict n errs = do { ndone \<leftarrow> shutdown_count errs 0; if ndone \<ge> n then None else Some () }"

text \<open>
  \<open>partitionCtrler\<close>: the verdict on the configuration the new controller finds, given the number before
  and what the old controller was doing; the result says if the joined group still has to leave.
\<close>

datatype ctrler_state = Idle | JOIN | LEAVE

definition recovery_verdict :: "int \<Rightarrow> ctrler_state \<Rightarrow> Tgid \<Rightarrow> ShardConfig \<Rightarrow> bool option" where
  "recovery_verdict num state ngid cfg =
     (if Num cfg \<le> num then None
      else let present = IsMember ngid cfg
           in if state = JOIN \<and> \<not> present \<or> state = LEAVE \<and> present then None
              else Some (state = JOIN \<and> present))"

end
