(* ===== verification/ShardTestProps.thy ===== *)
theory ShardTestProps
  imports ShardTest
begin

text \<open>
  What the driver of the sharded store's tests does with a controller that keeps the configuration it
  is given: every group joins and leaves, up to the number of shards.
\<close>

section \<open>Groups of servers never fail to start or stop\<close>

text \<open>The names still to come are not in use.\<close>

definition undrawn :: "(nat \<Rightarrow> string) \<Rightarrow> tnet \<Rightarrow> bool" where
  "undrawn rs nk \<longleftrightarrow> (\<forall>m \<ge> snd nk. ends (fst nk) (rs m) = None)"

definition grp_ok :: "(nat \<Rightarrow> string) \<Rightarrow> nat \<Rightarrow> string list \<Rightarrow> ('r, 'b) grp_state \<Rightarrow> bool" where
  "grp_ok rs n ns st \<longleftrightarrow> undrawn rs (fst st) \<and> length (srvs (snd st)) = n \<and> servernames (snd st) = ns"

lemma makeEnds_undrawn:
  assumes "inj rs"
  shows "undrawn rs nk \<Longrightarrow> \<exists>nk' es. makeEnds rs g js nk = Some (nk', es) \<and> undrawn rs nk'"
proof (induction js arbitrary: nk)
  case (Cons j js)
  obtain rn k where nk: "nk = (rn, k)" by (cases nk)
  let ?ce = "\<lparr>endname = rs k, callf = None\<rparr>"
  let ?rn = "rn\<lparr>ends := (ends rn)(rs k \<mapsto> ?ce), enabled := (enabled rn)(rs k := False), connections := (connections rn)(rs k := None)\<rparr>"
  have "ends rn (rs k) = None" using Cons.prems by (simp add: undrawn_def nk)
  then have "MakeEnd (rs k) rn = Some (?rn, ?ce)" by (simp add: MakeEnd_def Let_def)
  moreover have "undrawn rs (Connect (rs k) (ServerName g j) ?rn, Suc k)"
    using Cons.prems inj_eq [OF assms] by (auto simp: undrawn_def Connect_def nk)
  then obtain nk' es where "makeEnds rs g js (Connect (rs k) (ServerName g j) ?rn, Suc k) = Some (nk', es)" "undrawn rs nk'"
    using Cons.IH by blast
  ultimately show ?case by (simp add: nk)
qed simp

lemma makeServer_undrawn:
  "inj rs \<Longrightarrow> undrawn rs nk \<Longrightarrow> \<exists>nk' srv. makeServer rs g n nk = Some (nk', srv) \<and> undrawn rs nk'"
  using makeEnds_undrawn [of rs nk g "[0..<n]"] by (auto simp: makeServer_def)

lemma makeServers_undrawn:
  assumes "inj rs"
  shows "undrawn rs nk \<Longrightarrow> \<exists>nk' ss. makeServers rs g n m nk = Some (nk', ss :: ('r, 'b) TServer list) \<and> undrawn rs nk' \<and> length ss = m"
proof (induction m arbitrary: nk)
  case (Suc m)
  obtain nk1 and s :: "('r, 'b) TServer" where "makeServer rs g n nk = Some (nk1, s)" "undrawn rs nk1"
    using makeServer_undrawn [OF assms Suc.prems] by blast
  with Suc.IH [of nk1] show ?case by auto
qed simp

text \<open>A loop of operations that keep the group keeps the group.\<close>

lemma each_keeps:
  assumes "\<And>x st. x \<in> set xs \<Longrightarrow> I st \<Longrightarrow> \<exists>st'. f x st = Some st' \<and> I st'"
  shows "I st \<Longrightarrow> \<exists>st'. each f xs st = Some st' \<and> I st'"
  using assms
proof (induction xs arbitrary: st)
  case (Cons x xs)
  then obtain st1 where "f x st = Some st1" "I st1" by (meson list.set_intros(1))
  with Cons.IH [of st1] Cons.prems(2) show ?case by auto
qed simp

lemma ends_Enable_loop [simp]:
  "ends (fold (\<lambda>j rn. if P j then Enable (f j) b rn else rn) xs rn) = ends rn"
  "ends (fold (\<lambda>j. Enable (f j) b) xs rn) = ends rn"
  by (induction xs arbitrary: rn) (simp_all add: Enable_def)

lemma grp_connect_ok:
  "grp_ok rs n ns st \<Longrightarrow> i < n \<Longrightarrow> set to \<subseteq> {..<n} \<Longrightarrow> \<exists>st'. grp_connect i to st = Some st' \<and> grp_ok rs n ns st'"
  by (cases st) (auto simp: grp_connect_def grp_ok_def undrawn_def in_range_def list_all_iff Let_def Server_connect_def)

lemma grp_disconnect_ok:
  "grp_ok rs n ns st \<Longrightarrow> i < n \<Longrightarrow> set to \<subseteq> {..<n} \<Longrightarrow> \<exists>st'. grp_disconnect i to st = Some st' \<and> grp_ok rs n ns st'"
  by (cases st) (auto simp: grp_disconnect_def grp_ok_def undrawn_def in_range_def list_all_iff Let_def Server_disconnect_def)

lemma StartServer_ok:
  fixes st :: "('r, 'b) grp_state"
  assumes "inj rs" "grp_ok rs n ns st" "i < n"
  shows "\<exists>st' err. StartServer rs run addr i st = Some (st', err) \<and> grp_ok rs n ns st'"
proof -
  obtain nk sg where st: "st = (nk, sg)" by (cases st)
  let ?s = "srvs sg ! i"
  obtain nk' and srv :: "('r, 'b) TServer" where "makeServer rs (gid sg) (length (endNames ?s)) nk = Some (nk', srv)" "undrawn rs nk'"
    using makeServer_undrawn [OF assms(1), of nk "gid sg" "length (endNames ?s)"] assms(2) unfolding grp_ok_def st fst_conv by blast
  with assms(2,3) show ?thesis
    by (cases nk') (auto simp: StartServer_def st startServer_def in_range_def grp_ok_def undrawn_def AddServer_def)
qed

lemma StartServers_ok:
  assumes "inj rs" "grp_ok rs n ns st"
  shows "\<exists>st'. StartServers rs env st = Some st' \<and> grp_ok rs n ns st'"
proof -
  have n: "all (snd st) = [0..<n]" if "grp_ok rs n ns st" for st using that by (simp add: all_def grp_ok_def)
  have "\<exists>st'. StartSrvs rs env [0..<n] st = Some st' \<and> grp_ok rs n ns st'"
    unfolding StartSrvs_def
    by (rule each_keeps [where I = "grp_ok rs n ns"]) (use StartServer_ok [OF assms(1)] assms(2) in \<open>fastforce+\<close>)
  then obtain s where s: "StartSrvs rs env [0..<n] st = Some s" "grp_ok rs n ns s" by blast
  have "\<exists>st'. each ConnectOne [0..<n] s = Some st' \<and> grp_ok rs n ns st'"
  proof (rule each_keeps [where I = "grp_ok rs n ns"])
    fix i st assume "i \<in> set [0..<n]" and ok: "grp_ok rs n ns st"
    then show "\<exists>st'. ConnectOne i st = Some st' \<and> grp_ok rs n ns st'"
      unfolding ConnectOne_def n [OF ok] by (intro grp_connect_ok) auto
  qed (rule s(2))
  then show ?thesis using s n [OF assms(2)] n [OF s(2)] by (auto simp: StartServers_def ConnectAll_def)
qed

lemma Shutdown_ok:
  assumes "grp_ok rs n ns st"
  shows "\<exists>st'. Shutdown st = Some st' \<and> grp_ok rs n ns st'"
proof -
  have "\<exists>st'. each ShutdownServer [0..<n] st = Some st' \<and> grp_ok rs n ns st'"
  proof (rule each_keeps [where I = "grp_ok rs n ns"])
    fix i st assume i: "i \<in> set [0..<n]" and ok: "grp_ok rs n ns st"
    then have "all (snd st) = [0..<n]" by (simp add: all_def grp_ok_def)
    then obtain s where "grp_disconnect i (all (snd st)) st = Some s" "grp_ok rs n ns s"
      using grp_disconnect_ok [OF ok, of i "[0..<n]"] i by (metis atLeastLessThan_iff atLeast_upt lessThan_iff subsetI)
    then show "\<exists>st'. ShutdownServer i st = Some st' \<and> grp_ok rs n ns st'"
      by (cases s) (auto simp: ShutdownServer_def grp_ok_def undrawn_def DeleteServer_def)
  qed (rule assms)
  then show ?thesis using assms by (simp add: Shutdown_def Kill_def all_def grp_ok_def)
qed

text \<open>Making, starting and stopping a group among others.\<close>

lemma on_group_ok:
  assumes "\<And>st. grp_ok rs n ns st \<Longrightarrow> \<exists>st'. f st = Some st' \<and> grp_ok rs n ns st'"
    and "lookupGroup g (snd st) = Some sg" "grp_ok rs n ns (fst st, sg)"
  shows "\<exists>st' sg'. on_group g f st = Some st' \<and> grp_ok rs n ns (fst st', sg') \<and>
    lookupGroup g (snd st') = Some sg' \<and> (\<forall>h. h \<noteq> g \<longrightarrow> lookupGroup h (snd st') = lookupGroup h (snd st))"
  using assms(1) [OF assms(3)] assms(2) by (auto simp: on_group_def lookupGroup_def update_conv')

lemma MakeGroupStart_ok:
  fixes st :: "tnet \<times> ('r, 'b) Groups"
  assumes rs: "inj rs" and u: "undrawn rs (fst st)"
  shows "\<exists>st' sg'. MakeGroupStart rs env g n st = Some st' \<and> grp_ok rs n (map (ServerName g) [0..<n]) (fst st', sg') \<and>
    lookupGroup g (snd st') = Some sg' \<and> (\<forall>h. h \<noteq> g \<longrightarrow> lookupGroup h (snd st') = lookupGroup h (snd st))"
proof -
  obtain nk and ss :: "('r, 'b) TServer list" where ss: "makeServers rs g n n (fst st) = Some (nk, ss)" "undrawn rs nk" "length ss = n"
    using makeServers_undrawn [OF rs u, of g n n] by blast
  define sg where "sg = \<lparr>srvs = ss, servernames = map (ServerName g) [0..<n], gid = g, connected = replicate n False\<rparr>"
  define st1 where "st1 = (nk, (snd st)\<lparr>grps := AList.update g sg (grps (snd st))\<rparr>)"
  have m: "MakeGroup rs g n st = Some st1" using ss(1) by (simp add: MakeGroup_def makeSrvGrp_def sg_def st1_def)
  have l: "lookupGroup g (snd st1) = Some sg" "h \<noteq> g \<Longrightarrow> lookupGroup h (snd st1) = lookupGroup h (snd st)" for h
    by (simp_all add: st1_def lookupGroup_def update_conv')
  have "grp_ok rs n (map (ServerName g) [0..<n]) (fst st1, sg)" using ss by (simp add: grp_ok_def st1_def sg_def)
  from on_group_ok [where f = "StartServers rs env", OF StartServers_ok [OF rs] l(1) this] l(2) m
  show ?thesis by (auto simp: MakeGroupStart_def)
qed

lemma ExitGroup_ok:
  assumes "undrawn rs (fst st)" "lookupGroup g (snd st) = Some sg"
  shows "\<exists>st'. ExitGroup g st = Some st' \<and> undrawn rs (fst st') \<and> (\<forall>h. h \<noteq> g \<longrightarrow> lookupGroup h (snd st') = lookupGroup h (snd st))"
proof -
  have "grp_ok rs (length (srvs sg)) (servernames sg) (fst st, sg)" using assms(1) by (simp add: grp_ok_def)
  from on_group_ok [OF Shutdown_ok assms(2) this]
  show ?thesis by (fastforce simp: ExitGroup_def delete_group_def lookupGroup_def delete_conv' grp_ok_def)
qed

section \<open>Configurations with named servers\<close>

lemma ServerName_gid: "0 \<le> g \<Longrightarrow> 0 \<le> h \<Longrightarrow> ServerName g i = ServerName h j \<Longrightarrow> g = h"
  using append_Cons_eq_iff [of "CHR ''-''" "itoa_nat (nat g)" "itoa_nat i" "itoa_nat (nat h)" "itoa_nat j"]
  by (simp add: ServerName_def itoa_def itoa_nat_no_dash eq_nat_nat_iff)

text \<open>A configuration of the groups \<open>G\<close>, each with the servers the tester makes for it.\<close>

definition svc_cfg :: "Tgid set \<Rightarrow> ShardConfig \<Rightarrow> bool" where
  "svc_cfg G c \<longleftrightarrow> wf_cfg c \<and> well_assigned c \<and> gids c = G \<and>
     (\<forall>(g, ss) \<in> set (Groups c). 0 < g \<and> ss = map (ServerName g) [0..<shard_NSRV])"

lemma Copy_same: "wf_cfg c \<Longrightarrow> ShardConfig_Copy c = c"
proof -
  assume "wf_cfg c"
  have "distinct (map fst (xs @ gs)) \<Longrightarrow>
      fold (\<lambda>(k, v) c. c\<lparr>Groups := AList.update k v (Groups c)\<rparr>) gs (d\<lparr>Groups := xs\<rparr>) = d\<lparr>Groups := xs @ gs\<rparr>" for gs xs d
    by (induction gs arbitrary: xs) (auto simp: AList_update_new)
  from this [of "[]" "Groups c" "MakeShardConfig\<lparr>Num := Num c, Shards := Shards c\<rparr>"] \<open>wf_cfg c\<close> show ?thesis
    by (cases c) (simp add: ShardConfig_Copy_def MakeShardConfig_def wf_cfg_def Let_def)
qed

text \<open>\<open>IsMember\<close> looks at the shards: it sees a group exactly when the group has a shard.\<close>

lemma IsMember_iff: "IsMember g c \<longleftrightarrow> g \<in> set (Shards c)"
proof -
  have "IsMember_loop gs g \<longleftrightarrow> g \<in> set gs" for gs by (induction gs) auto
  then show ?thesis by (simp add: IsMember_def)
qed

lemma sum_load:
  assumes "wf_cfg c" "assigned c"
  shows "(\<Sum>g \<in> gids c. load c g) = NShards"
proof -
  have "(\<Sum>g \<in> gids c. load c g) = (\<Sum>g \<in> set (Shards c). count_list (Shards c) g)"
    unfolding load_def using assms(2) by (intro sum.mono_neutral_right) (auto simp: assigned_def)
  then show ?thesis using sum_count_set [of "Shards c" "set (Shards c)"] assms(1) by (simp add: wf_cfg_def)
qed

lemma few_groups_all_served:
  assumes "wf_cfg c" "well_assigned c" "g \<in> gids c" "card (gids c) \<le> NShards"
  shows "g \<in> set (Shards c)"
proof (rule ccontr)
  assume "g \<notin> set (Shards c)"
  then have g: "load c g = 0" by (simp add: load_def)
  have a: "assigned c" "balanced c" using assms(2,3) by (auto simp: well_assigned_def gids_def split: if_splits)
  then have "load c h \<le> 1" if "h \<in> gids c" for h using assms(3) g that by (force simp: balanced_def)
  then have "(\<Sum>h \<in> gids c - {g}. load c h) \<le> card (gids c - {g})" using sum_bounded_above [of "gids c - {g}" "load c" 1] by simp
  also have "\<dots> < NShards" using assms(3,4) card_Diff1_less [of "gids c" g] by simp
  finally show False using sum_load [OF assms(1) a(1)] sum.remove [OF finite_gids assms(3), of "load c"] g by simp
qed

lemma many_groups_no_move:
  assumes "wf_cfg c" "well_assigned c" "NShards \<le> card (gids c)" "h \<in> gids c"
  shows "load c h \<le> 1"
proof (rule ccontr)
  assume two: "\<not> load c h \<le> 1"
  have a: "assigned c" "balanced c" using assms(2,4) by (auto simp: well_assigned_def gids_def split: if_splits)
  have "load c h \<le> load c g + 1" if "g \<in> gids c" for g using a(2) assms(4) that by (simp add: balanced_def)
  with two have one: "1 \<le> load c g" if "g \<in> gids c" for g using that by force
  have "card (gids c - {h}) \<le> (\<Sum>g \<in> gids c - {h}. load c g)" using sum_bounded_below [of "gids c - {h}" 1 "load c"] one by simp
  moreover have "card (gids c - {h}) = card (gids c) - 1" using assms(4) by simp
  ultimately show False
    using two sum_load [OF assms(1) a(1)] sum.remove [OF finite_gids assms(4), of "load c"] assms(3) by simp
qed

lemma svc_cfg_group: "svc_cfg G c \<Longrightarrow> (h, ss) \<in> set (Groups c) \<Longrightarrow> 0 < h \<and> h \<in> G \<and> ss = map (ServerName h) [0..<shard_NSRV]"
  unfolding svc_cfg_def gids_def by (drule conjunct2 [THEN conjunct2]) (use image_iff in fastforce)

lemma join_cfg:
  assumes c: "svc_cfg G c" and g: "0 < g" "g \<notin> G"
  shows "\<exists>c'. JoinBalance [(g, map (ServerName g) [0..<shard_NSRV])] (ShardConfig_Copy c) = Some (c', True) \<and>
    svc_cfg (insert g G) c' \<and> (IsMember g c' \<longleftrightarrow> card G < NShards)"
proof -
  let ?ss = "map (ServerName g) [0..<shard_NSRV]"
  define c1 where "c1 = c\<lparr>Groups := AList.update g ?ss (Groups c), Num := Num c + 1\<rparr>"
  have wf: "wf_cfg c" "well_assigned c" "gids c = G" using c by (simp_all add: svc_cfg_def)
  have no: "\<not> shares_server ?ss (Groups c)"
  proof
    assume "shares_server ?ss (Groups c)"
    then obtain h ss s where h: "(h, ss) \<in> set (Groups c)" "s \<in> set ss" "s \<in> set ?ss"
      unfolding shares_server_def list_ex_iff by auto
    from svc_cfg_group [OF c h(1)] have "0 < h" "h \<in> G" "ss = map (ServerName h) [0..<shard_NSRV]" by simp_all
    with h(2,3) have "h = g" using ServerName_gid [of h g] g(1) by auto
    with \<open>h \<in> G\<close> g(2) show False by simp
  qed
  have "map_of (Groups c) g = None" using g(2) wf(3) by (simp add: map_of_gids)
  with no have j: "ShardConfig_Join [(g, ?ss)] c = Some (c1, True)" by (simp add: ShardConfig_Join_def c1_def)
  have wf1: "wf_cfg c1" using wf(1) by (simp add: wf_cfg_def c1_def distinct_update)
  have g1: "gids c1 = insert g G" using wf(3) by (auto simp: c1_def gids_def dom_update)
  obtain c' where r: "Rebalance c1 = Some c'" "wf_cfg c'" "well_assigned c'" "Groups c' = Groups c1"
    using Rebalance_good [OF wf1] by blast
  have jb: "JoinBalance [(g, ?ss)] (ShardConfig_Copy c) = Some (c', True)"
    using j r(1) by (simp add: JoinBalance_def Copy_same [OF wf(1)])
  have gr: "gids c' = insert g G" using r(4) g1 by (simp add: gids_def)
  have "\<forall>(h, ss) \<in> set (Groups c'). 0 < h \<and> ss = map (ServerName h) [0..<shard_NSRV]"
    using c g wf(3) by (auto simp: r(4) c1_def svc_cfg_def gids_def AList_update_new)
  with r gr have "svc_cfg (insert g G) c'" by (simp add: svc_cfg_def)
  moreover have "IsMember g c' \<longleftrightarrow> card G < NShards"
  proof (cases "card G < NShards")
    case True
    then have "card (gids c') \<le> NShards" unfolding gr using g(2) wf(3) finite_gids [of c] by auto
    with True few_groups_all_served [OF r(2,3), of g] gr show ?thesis by (simp add: IsMember_iff)
  next
    case False
    have "Groups c \<noteq> []" using False wf(3) by (auto simp: gids_def NShards_def)
    then have sh: "set (Shards c) \<subseteq> G" using wf(2,3) by (simp add: well_assigned_def assigned_def)
    have "load c1 h \<le> 1" if "h \<in> gids c1" for h
    proof (cases "h = g")
      case True
      then have "h \<notin> set (Shards c)" using sh g(2) by blast
      then show ?thesis by (simp add: load_def c1_def)
    next
      case neq: False
      then show ?thesis using many_groups_no_move [OF wf(1,2), of h] False that g1 wf(3) by (simp add: load_def c1_def)
    qed
    then have "well_assigned c1"
      using sh g1 by (auto simp: well_assigned_def balanced_def assigned_def c1_def gids_def intro: le_trans)
    then have "c' = c1" using Rebalance_keeps_balanced [OF wf1] r(1) by simp
    with False sh g(2) show ?thesis by (auto simp: IsMember_iff c1_def)
  qed
  ultimately show ?thesis using jb by blast
qed

lemma leave_cfg:
  assumes c: "svc_cfg G c" and g: "g \<in> G"
  shows "\<exists>c'. LeaveBalance [g] (ShardConfig_Copy c) = Some (c', True) \<and> svc_cfg (G - {g}) c' \<and> \<not> IsMember g c'"
proof -
  define c1 where "c1 = c\<lparr>Groups := AList.delete g (Groups c), Num := Num c + 1\<rparr>"
  have wf: "wf_cfg c" "well_assigned c" "gids c = G" using c by (simp_all add: svc_cfg_def)
  have "map_of (Groups c) g \<noteq> None" using g wf(3) by (simp add: map_of_gids)
  then have l: "ShardConfig_Leave [g] c = Some (c1, True)" by (simp add: ShardConfig_Leave_def c1_def)
  have wf1: "wf_cfg c1" using wf(1) by (simp add: wf_cfg_def c1_def distinct_delete)
  obtain c' where r: "Rebalance c1 = Some c'" "wf_cfg c'" "well_assigned c'" "Groups c' = Groups c1"
    using Rebalance_good [OF wf1] by blast
  have lb: "LeaveBalance [g] (ShardConfig_Copy c) = Some (c', True)"
    using l r(1) by (simp add: LeaveBalance_def Copy_same [OF wf(1)])
  have gr: "gids c' = G - {g}" using r(4) wf(3) by (auto simp: c1_def gids_def AList.delete_eq)
  have svc: "svc_cfg (G - {g}) c'" using r gr c by (auto simp: svc_cfg_def c1_def AList.delete_eq)
  have "0 < g" using g wf(3) c by (auto simp: svc_cfg_def gids_def)
  then have "g \<notin> set (Shards c')" using r(3) gr by (auto simp: well_assigned_def assigned_def split: if_splits)
  with lb svc show ?thesis by (auto simp: IsMember_iff)
qed

section \<open>Driving a controller that keeps its configuration\<close>

definition test_ok ::
  "(nat \<Rightarrow> string) \<Rightarrow> ('k \<Rightarrow> ShardConfig option) \<Rightarrow> Tgid set \<Rightarrow> ('r, 'b, 'k) shard_test \<Rightarrow> bool" where
  "test_ok rs qry G ts \<longleftrightarrow> undrawn rs (cfg_net (sh_cfg ts)) \<and> (\<exists>c. qry (sh_sck ts) = Some c \<and> svc_cfg G c) \<and>
     (\<forall>g \<in> G. Config_Group g (sh_cfg ts) \<noteq> None)"

text \<open>The group of a new number is made, started and found again.\<close>

lemma made_group:
  assumes "inj rs" "undrawn rs (cfg_net (sh_cfg ts))"
  shows "\<exists>ts1 sg. on_cfg (MakeGroupStart rs env g n) ts = Some ts1 \<and> undrawn rs (cfg_net (sh_cfg ts1)) \<and>
    Config_Group g (sh_cfg ts1) = Some sg \<and> servernames sg = map (ServerName g) [0..<n] \<and> sh_sck ts1 = sh_sck ts \<and> sh_ngid ts1 = sh_ngid ts \<and>
    (\<forall>h. h \<noteq> g \<longrightarrow> Config_Group h (sh_cfg ts1) = Config_Group h (sh_cfg ts))"
proof -
  let ?st = "(cfg_net (sh_cfg ts), cfg_Groups (sh_cfg ts))"
  have "undrawn rs (fst ?st)" using assms(2) by simp
  from MakeGroupStart_ok [OF assms(1) this, of env g n] show ?thesis
    by (fastforce simp: on_cfg_def Config_Group_def grp_ok_def)
qed

lemma joinGroups_outcome:
  assumes rs: "inj rs" and chg: "\<And>c k. qry (chg c k) = Some c"
  shows "test_ok rs qry G ts \<Longrightarrow> distinct gs \<Longrightarrow> \<forall>g \<in> set gs. 0 < g \<and> g \<notin> G \<Longrightarrow> finite G \<Longrightarrow> card G \<le> NShards \<Longrightarrow>
    \<exists>ts'. joinGroups qry chg rs env gs ts = Some (ts', card G + length gs \<le> NShards) \<and>
      (card G + length gs \<le> NShards \<longrightarrow> test_ok rs qry (G \<union> set gs) ts')"
proof (induction gs arbitrary: G ts)
  case (Cons g gs)
  obtain c where c: "qry (sh_sck ts) = Some c" "svc_cfg G c" using Cons.prems(1) by (auto simp: test_ok_def)
  obtain ts1 sg where t: "on_cfg (MakeGroupStart rs (env g) g shard_NSRV) ts = Some ts1" "undrawn rs (cfg_net (sh_cfg ts1))"
      "Config_Group g (sh_cfg ts1) = Some sg" "servernames sg = map (ServerName g) [0..<shard_NSRV]" "sh_sck ts1 = sh_sck ts"
      "\<And>h. h \<noteq> g \<Longrightarrow> Config_Group h (sh_cfg ts1) = Config_Group h (sh_cfg ts)"
    using made_group [OF rs, of ts "env g" g shard_NSRV] Cons.prems(1) unfolding test_ok_def by blast
  have g: "0 < g" "g \<notin> G" using Cons.prems(3) by simp_all
  obtain c' where c': "JoinBalance [(g, servernames sg)] (ShardConfig_Copy c) = Some (c', True)" "svc_cfg (insert g G) c'"
      "IsMember g c' \<longleftrightarrow> card G < NShards"
    using join_cfg [OF c(2) g] t(4) by auto
  define ts2 where "ts2 = ts1\<lparr>sh_sck := chg c' (sh_sck ts)\<rparr>"
  have step: "joinGroups qry chg rs env (g # gs) ts = (if \<not> card G < NShards then Some (ts2, False) else joinGroups qry chg rs env gs ts2)"
    using t(1,3,5) c(1) c'(1,3) chg by (simp add: shard_join_def checkMember_def ts2_def Let_def)
  show ?case
  proof (cases "card G < NShards")
    case True
    have ok: "test_ok rs qry (insert g G) ts2"
      using t(2,3,6) c'(2) chg Cons.prems(1) g(2) unfolding test_ok_def ts2_def by fastforce
    have cd: "card (insert g G) = Suc (card G)" using Cons.prems(4) g(2) by simp
    have "\<exists>ts'. joinGroups qry chg rs env gs ts2 = Some (ts', card (insert g G) + length gs \<le> NShards) \<and>
        (card (insert g G) + length gs \<le> NShards \<longrightarrow> test_ok rs qry (insert g G \<union> set gs) ts')"
      using Cons.prems(2-4) True cd by (intro Cons.IH ok) auto
    with True show ?thesis unfolding step by (simp add: cd)
  next
    case False
    then show ?thesis unfolding step by simp
  qed
qed simp

lemma leaveGroups_outcome:
  assumes chg: "\<And>c k. qry (chg c k) = Some c"
  shows "test_ok rs qry G ts \<Longrightarrow> distinct gs \<Longrightarrow> set gs \<subseteq> G \<Longrightarrow>
    \<exists>ts'. leaveGroups qry chg gs ts = Some (ts', True) \<and> test_ok rs qry (G - set gs) ts'"
proof (induction gs arbitrary: G ts)
  case (Cons g gs)
  obtain c where c: "qry (sh_sck ts) = Some c" "svc_cfg G c" using Cons.prems(1) by (auto simp: test_ok_def)
  obtain c' where c': "LeaveBalance [g] (ShardConfig_Copy c) = Some (c', True)" "svc_cfg (G - {g}) c'" "\<not> IsMember g c'"
    using leave_cfg [OF c(2), of g] Cons.prems(3) by auto
  define ts1 where "ts1 = ts\<lparr>sh_sck := chg c' (sh_sck ts)\<rparr>"
  let ?st = "(cfg_net (sh_cfg ts1), cfg_Groups (sh_cfg ts1))"
  obtain sg where "lookupGroup g (snd ?st) = Some sg" "undrawn rs (fst ?st)"
    using Cons.prems(1,3) by (auto simp: test_ok_def ts1_def Config_Group_def)
  from ExitGroup_ok [OF this(2,1)] obtain ts2 where t: "on_cfg (ExitGroup g) ts1 = Some ts2" "undrawn rs (cfg_net (sh_cfg ts2))"
      "\<And>h. h \<noteq> g \<Longrightarrow> Config_Group h (sh_cfg ts2) = Config_Group h (sh_cfg ts)" "sh_sck ts2 = chg c' (sh_sck ts)"
    by (fastforce simp: on_cfg_def Config_Group_def ts1_def)
  have ok: "test_ok rs qry (G - {g}) ts2" using t(2-4) c'(2) chg Cons.prems(1) by (auto simp: test_ok_def)
  have "leaveGroups qry chg (g # gs) ts = leaveGroups qry chg gs ts2"
    using t(1) c(1) c'(1,3) chg by (simp add: shard_leave_def checkMember_def ts1_def Let_def)
  moreover have "G - set (g # gs) = G - {g} - set gs" by auto
  moreover have "\<exists>ts'. leaveGroups qry chg gs ts2 = Some (ts', True) \<and> test_ok rs qry (G - {g} - set gs) ts'"
    using Cons.prems(2,3) by (intro Cons.IH ok) auto
  ultimately show ?case by simp
qed simp

lemma groups_outcome:
  "groups n ts = (map (\<lambda>i. sh_ngid ts + int i) [0..<n], ts\<lparr>sh_ngid := sh_ngid ts + int n\<rparr>)"
proof (induction n arbitrary: ts)
  case (Suc n)
  have "map (\<lambda>i. a + int i) [0..<Suc n] = a # map (\<lambda>i. a + 1 + int i) [0..<n]" for a
    by (simp add: map_upt_Suc add.assoc del: upt_Suc)
  with Suc [of "ts\<lparr>sh_ngid := sh_ngid ts + 1\<rparr>"] show ?case by (simp add: newGid_def del: upt_Suc)
qed simp

lemma setup_outcome:
  fixes env :: "Tgid \<Rightarrow> nat \<Rightarrow> bool \<times> nat"
  assumes rs: "inj rs" and ini: "\<And>c k. qry (ini c k) = Some c"
  shows "\<exists>(ts :: ('r, 'b, 'k) shard_test) ts1. MakeTestMaxRaft rs boot rel k sck = Some ts \<and> setupKVService ini rs env ts = Some (ts1, Gid1) \<and>
    test_ok rs qry {Gid1} ts1 \<and> sh_ngid ts1 = Gid1 + 1"
proof -
  have "undrawn rs (fst ((MakeNetwork, Suc k), newGroups :: ('r, 'b) Groups))" by (simp add: undrawn_def MakeNetwork_def)
  from MakeGroupStart_ok [OF rs this, of boot GRP0 1] obtain st :: "tnet \<times> ('r, 'b) Groups"
    where "MakeGroupStart rs boot GRP0 1 ((MakeNetwork, Suc k), newGroups) = Some st" "undrawn rs (fst st)"
    unfolding grp_ok_def fst_conv by blast
  then obtain ts :: "('r, 'b, 'k) shard_test" where m: "MakeTestMaxRaft rs boot rel k sck = Some ts" "undrawn rs (cfg_net (sh_cfg ts))" "sh_ngid ts = Gid1 + 1"
    by (cases st) (auto simp: MakeTestMaxRaft_def MakeConfig_def Begin_test_def undrawn_def Reliable_def Let_def)
  obtain ts1 sg where t: "on_cfg (MakeGroupStart rs (env Gid1) Gid1 shard_NSRV) ts = Some ts1" "undrawn rs (cfg_net (sh_cfg ts1))"
      "Config_Group Gid1 (sh_cfg ts1) = Some sg" "servernames sg = map (ServerName Gid1) [0..<shard_NSRV]" "sh_ngid ts1 = sh_ngid ts"
    using made_group [OF rs m(2), of "env Gid1" Gid1 shard_NSRV] by blast
  have e: "svc_cfg {} MakeShardConfig" "wf_cfg MakeShardConfig"
    by (auto simp: svc_cfg_def wf_cfg_def MakeShardConfig_def well_assigned_def balanced_def gids_def NShards_def)
  obtain c' where c': "JoinBalance [(Gid1, servernames sg)] MakeShardConfig = Some (c', True)" "svc_cfg {Gid1} c'"
    using join_cfg [OF e(1), of Gid1] t(4) by (auto simp: Gid1_def Copy_same [OF e(2)])
  have "setupKVService ini rs env ts = Some (ts1\<lparr>sh_sck := ini c' (sh_sck ts1)\<rparr>, Gid1)"
    using t(1,3) c'(1) by (simp add: setupKVService_def)
  with m t c' ini show ?thesis by (auto simp: test_ok_def)
qed

lemma test_ok_checks:
  assumes "test_ok rs qry G ts" "distinct gs" "set gs = G"
  shows "\<exists>c. qry (sh_sck ts) = Some c \<and> CheckConfig gs c"
  using assms CheckConfig_good [of _ gs] by (auto simp: test_ok_def svc_cfg_def)

section \<open>Properties\<close>

text \<open>
  C15. The tests can drive any controller that keeps the configuration it is given. Nothing panics or is
  fatal; new groups join one by one and \<open>joinGroups\<close> reports success exactly when they and the first
  group are no more than the shards, since \<open>checkMember\<close> asks for a shard; then \<open>CheckConfig\<close> accepts the
  configuration of these groups, and after any of them have left, which \<open>leaveGroups\<close> always reports as
  a success, of the groups that are still in.
\<close>

theorem controller_tests_run:
  fixes env :: "Tgid \<Rightarrow> nat \<Rightarrow> bool \<times> nat" and sck :: 'k
  assumes "inj rs" "\<And>c k. qry (chg c k) = Some c" "\<And>c k. qry (ini c k) = Some c"
  shows "\<exists>(ts :: ('r, 'b, 'k) shard_test) ts1 gs ts2 ts3. MakeTestMaxRaft rs boot rel k sck = Some ts \<and>
    setupKVService ini rs env ts = Some (ts1, Gid1) \<and> groups n ts1 = (gs, ts2) \<and> gs = map (\<lambda>i. Gid1 + 1 + int i) [0..<n] \<and>
    (joinGroups qry chg rs env gs ts2 = Some (ts3, n < NShards) \<and>
       (n < NShards \<longrightarrow> (\<exists>c. qry (sh_sck ts3) = Some c \<and> CheckConfig (Gid1 # gs) c) \<and>
         (\<forall>ls. distinct ls \<and> set ls \<subseteq> set gs \<longrightarrow>
            (\<exists>ts4 c. leaveGroups qry chg ls ts3 = Some (ts4, True) \<and> qry (sh_sck ts4) = Some c \<and>
               CheckConfig (Gid1 # filter (\<lambda>g. g \<notin> set ls) gs) c))))"
proof -
  obtain ts ts1 :: "('r, 'b, 'k) shard_test" where s: "MakeTestMaxRaft rs boot rel k sck = Some ts" "setupKVService ini rs env ts = Some (ts1, Gid1)"
      "test_ok rs qry {Gid1} ts1" "sh_ngid ts1 = Gid1 + 1"
    using setup_outcome [OF assms(1), of qry ini boot rel k sck env] assms(3) by blast
  define gs where "gs = map (\<lambda>i. Gid1 + 1 + int i) [0..<n]"
  define ts2 where "ts2 = ts1\<lparr>sh_ngid := Gid1 + 1 + int n\<rparr>"
  have gr: "groups n ts1 = (gs, ts2)" by (simp add: groups_outcome s(4) gs_def ts2_def)
  have gs: "distinct gs" "length gs = n" "\<forall>g \<in> set gs. 0 < g \<and> g \<notin> {Gid1}"
    by (auto simp: gs_def distinct_map inj_on_def Gid1_def)
  have "test_ok rs qry {Gid1} ts2" using s(3) by (simp add: test_ok_def ts2_def)
  from joinGroups_outcome [where chg = chg, OF assms(1,2) this gs(1,3), of env] gs(2)
  obtain ts3 where t: "joinGroups qry chg rs env gs ts2 = Some (ts3, n < NShards)" "n < NShards \<Longrightarrow> test_ok rs qry (insert Gid1 (set gs)) ts3"
    by (auto simp: NShards_def Suc_le_eq)
  have check: "\<exists>ts4 c. leaveGroups qry chg ls ts3 = Some (ts4, True) \<and> qry (sh_sck ts4) = Some c \<and> CheckConfig (Gid1 # filter (\<lambda>g. g \<notin> set ls) gs) c"
    if n: "n < NShards" and ls: "distinct ls \<and> set ls \<subseteq> set gs" for ls
  proof -
    obtain ts4 where l: "leaveGroups qry chg ls ts3 = Some (ts4, True)" "test_ok rs qry (insert Gid1 (set gs) - set ls) ts4"
      using leaveGroups_outcome [where chg = chg, OF assms(2) t(2) [OF n], of ls] ls by blast
    let ?gs = "Gid1 # filter (\<lambda>g. g \<notin> set ls) gs"
    have "set ?gs = insert Gid1 (set gs) - set ls" "distinct ?gs" using ls gs(1,3) by auto
    with test_ok_checks [OF l(2), of ?gs] l(1) show ?thesis by blast
  qed
  have now: "\<exists>c. qry (sh_sck ts3) = Some c \<and> CheckConfig (Gid1 # gs) c" if "n < NShards"
    using test_ok_checks [OF t(2) [OF that], of "Gid1 # gs"] gs(1,3) by auto
  show ?thesis
    by (rule exI [of _ ts], rule exI [of _ ts1], rule exI [of _ gs], rule exI [of _ ts2], rule exI [of _ ts3])
       (intro conjI impI allI s(1) s(2) gr gs_def t(1) now check; blast)
qed

text \<open>A controller that stores the configuration: two groups join and the first of them leaves.\<close>

theorem controller_tests_run_witness:
  "\<exists>(ts :: (nat, nat, ShardConfig) shard_test) ts1 ts2 ts3 ts4. MakeTestMaxRaft itoa_nat (\<lambda>i. (True, i)) True 0 MakeShardConfig = Some ts \<and>
    setupKVService (\<lambda>c _. c) itoa_nat (\<lambda>g i. (True, i)) ts = Some (ts1, 1) \<and> groups 2 ts1 = ([2, 3], ts2) \<and>
    joinGroups Some (\<lambda>c _. c) itoa_nat (\<lambda>g i. (True, i)) [2, 3] ts2 = Some (ts3, True) \<and> CheckConfig [1, 2, 3] (sh_sck ts3) \<and>
    leaveGroups Some (\<lambda>c _. c) [2] ts3 = Some (ts4, True) \<and> CheckConfig [1, 3] (sh_sck ts4)"
proof -
  have inj: "inj itoa_nat" by (simp add: inj_on_def)
  have gs: "map (\<lambda>i. Gid1 + 1 + int i) [0..<2] = [2, 3]" "2 < NShards" by (simp_all add: Gid1_def NShards_def upt_rec)
  from controller_tests_run [where rs = itoa_nat and qry = Some and chg = "\<lambda>c _. c" and ini = "\<lambda>c _. c" and boot = "\<lambda>i. (True, i)"
        and env = "\<lambda>g i. (True, i)" and rel = True and k = 0 and sck = MakeShardConfig and n = 2 and 'r = nat and 'b = nat, OF inj refl refl]
  obtain ts ts1 ts2 ts3 :: "(nat, nat, ShardConfig) shard_test" where t: "MakeTestMaxRaft itoa_nat (\<lambda>i. (True, i)) True 0 MakeShardConfig = Some ts"
      "setupKVService (\<lambda>c _. c) itoa_nat (\<lambda>g i. (True, i)) ts = Some (ts1, Gid1)" "groups 2 ts1 = ([2, 3], ts2)"
      "joinGroups Some (\<lambda>c _. c) itoa_nat (\<lambda>g i. (True, i)) [2, 3] ts2 = Some (ts3, True)" "CheckConfig [Gid1, 2, 3] (sh_sck ts3)"
      "\<And>ls. distinct ls \<and> set ls \<subseteq> set [2, 3] \<Longrightarrow> \<exists>ts4. leaveGroups Some (\<lambda>c _. c) ls ts3 = Some (ts4, True) \<and>
         CheckConfig (Gid1 # filter (\<lambda>g. g \<notin> set ls) [2, 3]) (sh_sck ts4)"
    unfolding gs(1) using gs(2) by auto
  from t(6) [of "[2]"] obtain ts4 where "leaveGroups Some (\<lambda>c _. c) [2] ts3 = Some (ts4, True)" "CheckConfig [Gid1, 3] (sh_sck ts4)"
    by auto
  with t(1-5) show ?thesis unfolding Gid1_def by blast
qed

text \<open>
  As the controller stands in the repository, the first group that joins hits a nil pointer: \<open>Query\<close>
  returns none.
\<close>

theorem unwritten_controller_panics:
  "joinGroups Query ChangeConfigTo rs env (g # gs) ts = None \<and> leaveGroups Query ChangeConfigTo (g # gs) ts = None"
  by (simp add: shard_join_def shard_leave_def Query_def split: bind_splits)

text \<open>
  The verdict on a crashed group: the test passes exactly when every answer that came was right and at
  least one did not come.
\<close>

theorem shutdown_verdict_iff:
  "shutdown_verdict n (map (\<lambda>(key, want, got). shutdown_answer key want got) as) = Some () \<longleftrightarrow>
   (\<forall>(key, want, got) \<in> set as. got = want) \<and> length as < n"
proof -
  have ans: "shutdown_answer key want got = [] \<longleftrightarrow> got = want" for key want got by (simp add: shutdown_answer_def)
  have "shutdown_count (map (\<lambda>(key, want, got). shutdown_answer key want got) as) d =
      (if \<forall>(key, want, got) \<in> set as. got = want then Some (d + length as) else None)" for d
    by (induction as arbitrary: d) (auto simp: ans)
  then show ?thesis by (simp add: shutdown_verdict_def)
qed

end
