(* ===== verification/MrCoordinator.thy ===== *)
theory MrCoordinator
  imports Prelude
begin

text \<open>
  The MapReduce coordinator, \<open>src/mr/coordinator.go\<close> and \<open>src/mr/rpc.go\<close>: it hands out map tasks
  first, then reduce tasks, gives a task out again when it has been in progress for more than ten
  seconds, and counts the reports of finished tasks. The clock is an argument (in nanoseconds), a
  task id out of range panics.
\<close>

section \<open>rpc.go\<close>

datatype Task = MapTask | ReduceTask | Wait | Done

record RequestTaskReply =
  rt_TaskID :: int
  rt_File :: string
  rt_TaskType :: Task
  rt_NReduce :: nat
  rt_NMap :: nat

definition zero_reply :: RequestTaskReply where
  "zero_reply = \<lparr>rt_TaskID = 0, rt_File = '''', rt_TaskType = MapTask, rt_NReduce = 0, rt_NMap = 0\<rparr>"

record ReportTaskArgs =
  ra_TaskID :: int
  ra_TaskType :: Task

section \<open>coordinator.go\<close>

datatype Status = NotStarted | InProgress | Completed

record TaskStatus =
  status :: Status
  startTime :: int

record Coordinator =
  MapInputFiles :: "string list"
  MapTasksStatus :: "TaskStatus list"
  CompletedMaps :: nat
  ReduceTasksStatus :: "TaskStatus list"
  CompletedReduces :: nat
  nReduce :: nat

definition MakeCoordinator :: "string list \<Rightarrow> nat \<Rightarrow> Coordinator" where
  "MakeCoordinator files n =
     \<lparr>MapInputFiles = files, MapTasksStatus = replicate (length files) \<lparr>status = NotStarted, startTime = 0\<rparr>,
      CompletedMaps = 0, ReduceTasksStatus = replicate n \<lparr>status = NotStarted, startTime = 0\<rparr>,
      CompletedReduces = 0, nReduce = n\<rparr>"

definition getTasksForType :: "Task \<Rightarrow> Coordinator \<Rightarrow> TaskStatus list" where
  "getTasksForType taskType c = (if taskType = MapTask then MapTasksStatus c else ReduceTasksStatus c)"

definition markTaskInProgress :: "int \<Rightarrow> Task \<Rightarrow> int \<Rightarrow> Coordinator \<Rightarrow> Coordinator option" where
  "markTaskInProgress now taskType taskID c =
     (case taskType of
        MapTask \<Rightarrow> map_option (\<lambda>ts. c\<lparr>MapTasksStatus := ts\<rparr>)
                    (go_store (MapTasksStatus c) taskID \<lparr>status = InProgress, startTime = now\<rparr>)
      | ReduceTask \<Rightarrow> map_option (\<lambda>ts. c\<lparr>ReduceTasksStatus := ts\<rparr>)
                    (go_store (ReduceTasksStatus c) taskID \<lparr>status = InProgress, startTime = now\<rparr>)
      | _ \<Rightarrow> Some c)"

definition timeout :: int where
  "timeout = 10 * 1000000000"

text \<open>The loop keeps the last task that has not been started or has timed out.\<close>

fun assignTask_loop :: "int \<Rightarrow> TaskStatus list \<Rightarrow> int \<Rightarrow> int \<Rightarrow> int" where
  "assignTask_loop now [] i taskID = taskID"
| "assignTask_loop now (t # ts) i taskID =
     assignTask_loop now ts (i + 1)
       (if status t = NotStarted then i
        else if status t = InProgress \<and> now - startTime t > timeout then i
        else taskID)"

definition assignTask ::
  "int \<Rightarrow> Task \<Rightarrow> RequestTaskReply \<Rightarrow> Coordinator \<Rightarrow> (Coordinator \<times> RequestTaskReply \<times> int \<times> bool) option" where
  "assignTask now taskType reply c =
     (let taskID = assignTask_loop now (getTasksForType taskType c) 0 (-1) in
      if taskID = -1 then Some (c, reply, -1, False)
      else do {
        c' \<leftarrow> markTaskInProgress now taskType taskID c;
        Some (c', reply\<lparr>rt_TaskID := taskID, rt_TaskType := taskType\<rparr>, taskID, True)
      })"

definition RequestTask :: "int \<Rightarrow> Coordinator \<Rightarrow> (Coordinator \<times> RequestTaskReply) option" where
  "RequestTask now c =
     (if CompletedMaps c < length (MapInputFiles c)
      then do {
        (c', reply, task, ok) \<leftarrow> assignTask now MapTask zero_reply c;
        if ok
        then do {
          file \<leftarrow> go_index (MapInputFiles c') task;
          Some (c', reply\<lparr>rt_File := file, rt_NReduce := nReduce c'\<rparr>)
        }
        else Some (c', reply\<lparr>rt_TaskType := Wait\<rparr>)
      }
      else do {
        (c', reply, task, ok) \<leftarrow> assignTask now ReduceTask zero_reply c;
        if ok then Some (c', reply\<lparr>rt_NMap := length (MapInputFiles c')\<rparr>)
        else if CompletedReduces c' < nReduce c' then Some (c', reply\<lparr>rt_TaskType := Wait\<rparr>)
        else Some (c', reply\<lparr>rt_TaskType := Done\<rparr>)
      })"

definition ReportTask :: "ReportTaskArgs \<Rightarrow> Coordinator \<Rightarrow> Coordinator option" where
  "ReportTask args c =
     (case ra_TaskType args of
        MapTask \<Rightarrow> do {
          t \<leftarrow> go_index (MapTasksStatus c) (ra_TaskID args);
          ts \<leftarrow> go_store (MapTasksStatus c) (ra_TaskID args) (t\<lparr>status := Completed\<rparr>);
          Some (c\<lparr>MapTasksStatus := ts, CompletedMaps := CompletedMaps c + 1\<rparr>)
        }
      | ReduceTask \<Rightarrow> do {
          t \<leftarrow> go_index (ReduceTasksStatus c) (ra_TaskID args);
          ts \<leftarrow> go_store (ReduceTasksStatus c) (ra_TaskID args) (t\<lparr>status := Completed\<rparr>);
          Some (c\<lparr>ReduceTasksStatus := ts, CompletedReduces := CompletedReduces c + 1\<rparr>)
        }
      | _ \<Rightarrow> Some c)"

definition Coordinator_Done :: "Coordinator \<Rightarrow> bool" where
  "Coordinator_Done c \<longleftrightarrow> CompletedReduces c = nReduce c"

section \<open>Assignment\<close>

definition assignable :: "int \<Rightarrow> TaskStatus \<Rightarrow> bool" where
  "assignable now t \<longleftrightarrow> status t = NotStarted \<or> status t = InProgress \<and> now - startTime t > timeout"

lemma assignTask_loop_step:
  "assignTask_loop now (t # ts) i d = assignTask_loop now ts (i + 1) (if assignable now t then i else d)"
  by (auto simp: assignable_def)

lemma assignTask_loop_spec:
  "(\<exists>k < length ts. assignTask_loop now ts i d = i + int k \<and> assignable now (ts ! k) \<and>
      (\<forall>j. k < j \<and> j < length ts \<longrightarrow> \<not> assignable now (ts ! j)))
   \<or> assignTask_loop now ts i d = d \<and> (\<forall>t \<in> set ts. \<not> assignable now t)"
proof (induction ts arbitrary: i d)
  case (Cons t ts)
  let ?d = "if assignable now t then i else d"
  from Cons [of "i + 1" ?d] show ?case
  proof
    assume "\<exists>k < length ts. assignTask_loop now ts (i + 1) ?d = i + 1 + int k \<and> assignable now (ts ! k) \<and>
      (\<forall>j. k < j \<and> j < length ts \<longrightarrow> \<not> assignable now (ts ! j))"
    then obtain k where "k < length ts" "assignTask_loop now ts (i + 1) ?d = i + 1 + int k" "assignable now (ts ! k)"
      "\<forall>j. k < j \<and> j < length ts \<longrightarrow> \<not> assignable now (ts ! j)" by blast
    then show ?thesis
      unfolding assignTask_loop_step by (intro disjI1 exI [of _ "Suc k"]) (auto simp: nth_Cons split: nat.splits)
  next
    assume "assignTask_loop now ts (i + 1) ?d = ?d \<and> (\<forall>t \<in> set ts. \<not> assignable now t)"
    then show ?thesis
      unfolding assignTask_loop_step by (cases "assignable now t") (auto simp: nth_Cons split: nat.splits)
  qed
qed simp

section \<open>The invariant\<close>

text \<open>The status lists have one entry per task.\<close>

definition wf_coord :: "Coordinator \<Rightarrow> bool" where
  "wf_coord c \<longleftrightarrow> length (MapTasksStatus c) = length (MapInputFiles c) \<and> length (ReduceTasksStatus c) = nReduce c"

definition completed :: "TaskStatus list \<Rightarrow> nat" where
  "completed ts = length (filter (\<lambda>t. status t = Completed) ts)"

text \<open>The counters say how many tasks are completed.\<close>

definition counts_ok :: "Coordinator \<Rightarrow> bool" where
  "counts_ok c \<longleftrightarrow> CompletedMaps c = completed (MapTasksStatus c) \<and> CompletedReduces c = completed (ReduceTasksStatus c)"

lemma completed_le: "completed ts \<le> length ts"
  by (simp add: completed_def)

lemma completed_all: "completed ts = length ts \<longleftrightarrow> (\<forall>t \<in> set ts. status t = Completed)"
proof (induction ts)
  case (Cons t ts)
  have "\<not> length (filter (\<lambda>t. status t = Completed) ts) = Suc (length ts)"
    using length_filter_le [of _ ts] by (metis Suc_n_not_le_n)
  with Cons show ?case by (auto simp: completed_def)
qed (simp add: completed_def)

lemma completed_update:
  assumes "i < length ts"
  shows "int (completed (ts[i := t])) = int (completed ts) - (if status (ts ! i) = Completed then 1 else 0)
    + (if status t = Completed then 1 else 0)"
  using assms
proof (induction ts arbitrary: i)
  case (Cons s ts)
  show ?case
  proof (cases i)
    case (Suc j)
    with Cons.prems Cons.IH [of j] show ?thesis by (simp add: completed_def split: if_splits)
  qed (simp add: completed_def)
qed simp

lemma completed_assign:
  assumes "i < length ts" "assignable now (ts ! i)" "status t \<noteq> Completed"
  shows "completed (ts[i := t]) = completed ts"
  using completed_update [OF assms(1), of t] assms(2,3) by (auto simp: assignable_def)

lemma assignTask_cases:
  assumes "taskType \<in> {MapTask, ReduceTask}"
  obtains (none) "assignTask now taskType reply c = Some (c, reply, -1, False)"
      "\<forall>t \<in> set (getTasksForType taskType c). \<not> assignable now t"
  | (task) k c' where "k < length (getTasksForType taskType c)" "assignable now (getTasksForType taskType c ! k)"
      "assignTask now taskType reply c =
         Some (c', reply\<lparr>rt_TaskID := int k, rt_TaskType := taskType\<rparr>, int k, True)"
      "c' = (if taskType = MapTask
             then c\<lparr>MapTasksStatus := (MapTasksStatus c)[k := \<lparr>status = InProgress, startTime = now\<rparr>]\<rparr>
             else c\<lparr>ReduceTasksStatus := (ReduceTasksStatus c)[k := \<lparr>status = InProgress, startTime = now\<rparr>]\<rparr>)"
proof -
  let ?ts = "getTasksForType taskType c"
  from assignTask_loop_spec [of ?ts now 0 "-1"]
  consider k where "k < length ?ts" "assignTask_loop now ?ts 0 (-1) = int k" "assignable now (?ts ! k)"
    | "assignTask_loop now ?ts 0 (-1) = -1" "\<forall>t \<in> set ?ts. \<not> assignable now t" by auto
  then show ?thesis
  proof cases
    case (1 k)
    with assms show ?thesis
      by (intro task [of k])
         (auto simp: assignTask_def Let_def markTaskInProgress_def go_store_def getTasksForType_def)
  next
    case 2
    then show ?thesis by (intro none) (simp_all add: assignTask_def)
  qed
qed

text \<open>What one call of \<open>RequestTask\<close> does.\<close>

lemma RequestTask_cases:
  assumes "wf_coord c"
  obtains (map_task) k where "CompletedMaps c < length (MapInputFiles c)" "k < length (MapInputFiles c)"
      "assignable now (MapTasksStatus c ! k)"
      "RequestTask now c = Some
        (c\<lparr>MapTasksStatus := (MapTasksStatus c)[k := \<lparr>status = InProgress, startTime = now\<rparr>]\<rparr>,
         \<lparr>rt_TaskID = int k, rt_File = MapInputFiles c ! k, rt_TaskType = MapTask, rt_NReduce = nReduce c, rt_NMap = 0\<rparr>)"
  | (map_wait) "CompletedMaps c < length (MapInputFiles c)" "\<forall>t \<in> set (MapTasksStatus c). \<not> assignable now t"
      "RequestTask now c = Some (c, zero_reply\<lparr>rt_TaskType := Wait\<rparr>)"
  | (reduce_task) k where "length (MapInputFiles c) \<le> CompletedMaps c" "k < nReduce c"
      "assignable now (ReduceTasksStatus c ! k)"
      "RequestTask now c = Some
        (c\<lparr>ReduceTasksStatus := (ReduceTasksStatus c)[k := \<lparr>status = InProgress, startTime = now\<rparr>]\<rparr>,
         zero_reply\<lparr>rt_TaskID := int k, rt_TaskType := ReduceTask, rt_NMap := length (MapInputFiles c)\<rparr>)"
  | (reduce_none) "length (MapInputFiles c) \<le> CompletedMaps c" "\<forall>t \<in> set (ReduceTasksStatus c). \<not> assignable now t"
      "RequestTask now c = Some (c, zero_reply\<lparr>rt_TaskType := if CompletedReduces c < nReduce c then Wait else Done\<rparr>)"
proof (cases "CompletedMaps c < length (MapInputFiles c)")
  case True
  have "MapTask \<in> {MapTask, ReduceTask}" by simp
  then show ?thesis
  proof (cases rule: assignTask_cases [of MapTask now zero_reply c])
    case none
    with True show ?thesis by (intro map_wait) (simp_all add: RequestTask_def getTasksForType_def)
  next
    case (task k c')
    with True assms show ?thesis
      by (intro map_task [of k]) (simp_all add: RequestTask_def getTasksForType_def wf_coord_def zero_reply_def)
  qed
next
  case False
  have "ReduceTask \<in> {MapTask, ReduceTask}" by simp
  then show ?thesis
  proof (cases rule: assignTask_cases [of ReduceTask now zero_reply c])
    case none
    with False show ?thesis by (intro reduce_none) (simp_all add: RequestTask_def getTasksForType_def)
  next
    case (task k c')
    with False assms show ?thesis
      by (intro reduce_task [of k]) (simp_all add: RequestTask_def getTasksForType_def wf_coord_def)
  qed
qed

lemma RequestTask_keeps:
  assumes "RequestTask now c = Some (c', reply)" "wf_coord c" "counts_ok c"
  shows "wf_coord c' \<and> counts_ok c'"
  using assms(2)
proof (cases rule: RequestTask_cases [of c now])
  case (map_task k)
  with assms show ?thesis by (auto simp: wf_coord_def counts_ok_def completed_assign)
next
  case (reduce_task k)
  with assms show ?thesis by (auto simp: wf_coord_def counts_ok_def completed_assign)
qed (use assms in auto)

section \<open>Runs\<close>

text \<open>
  A run of the coordinator is a sequence of requests and reports. \<open>once\<close> restricts the reports to
  tasks that are not completed yet, as when no task is given out twice.
\<close>

inductive coord_step :: "bool \<Rightarrow> Coordinator \<Rightarrow> Coordinator \<Rightarrow> bool" for once where
  request: "RequestTask now c = Some (c', reply) \<Longrightarrow> coord_step once c c'"
| report: "ra_TaskType args \<in> {MapTask, ReduceTask} \<Longrightarrow>
    go_index (getTasksForType (ra_TaskType args) c) (ra_TaskID args) = Some t \<Longrightarrow>
    status t \<noteq> NotStarted \<Longrightarrow> (once \<longrightarrow> status t = InProgress) \<Longrightarrow>
    ReportTask args c = Some c' \<Longrightarrow> coord_step once c c'"

lemma coord_step_keeps:
  assumes "coord_step True c c'" "wf_coord c" "counts_ok c"
  shows "wf_coord c' \<and> counts_ok c'"
  using assms(1)
proof cases
  case (request now reply)
  with assms show ?thesis using RequestTask_keeps by blast
next
  case (report args t)
  have upd: "completed (ts[nat i := s\<lparr>status := Completed\<rparr>]) = completed ts + 1"
    if "go_index ts i = Some s" "status s = InProgress" for ts i s
  proof -
    from that have i: "nat i < length ts" "ts ! nat i = s" by (auto simp: go_simps)
    with completed_update [OF i(1), of "s\<lparr>status := Completed\<rparr>"] that(2) show ?thesis by simp
  qed
  show ?thesis
    using report assms(2,3) upd
    by (auto simp: ReportTask_def getTasksForType_def bind_Some_iff go_store_def wf_coord_def counts_ok_def
        split: if_splits)
qed

definition coord_reachable :: "bool \<Rightarrow> string list \<Rightarrow> nat \<Rightarrow> Coordinator \<Rightarrow> bool" where
  "coord_reachable once files n c \<longleftrightarrow> (coord_step once)\<^sup>*\<^sup>* (MakeCoordinator files n) c"

lemma coord_reachable_keeps:
  assumes "coord_reachable True files n c"
  shows "wf_coord c \<and> counts_ok c"
  using assms [unfolded coord_reachable_def]
proof (induction rule: rtranclp_induct)
  case base
  show ?case by (simp add: MakeCoordinator_def wf_coord_def counts_ok_def completed_def)
qed (use coord_step_keeps in blast)

end
