(* ===== verification/MrJson.thy ===== *)
theory MrJson
  imports GoLib
begin

text \<open>
  Key/value pairs and the stream format of the intermediate files of MapReduce
  (\<open>src/mr/worker.go\<close> writes them with \<open>json.Encoder\<close> and reads them with \<open>json.Decoder\<close>). What the
  worker needs of the two is the interface \<open>kv_codec\<close>: decoding takes off exactly the pair that was
  encoded and leaves the rest of the stream. The theory gives the encoding of a pair the way
  \<open>encoding/json\<close> writes it, a decoder for that format, and shows that they implement the interface
  for ASCII strings (the library replaces bytes that are not UTF-8).
\<close>

record KeyValue =
  Key :: string
  Value :: string

locale kv_codec =
  fixes valid_kv :: "KeyValue \<Rightarrow> bool"
    and Encode :: "KeyValue \<Rightarrow> string"
    and Decode :: "string \<Rightarrow> (KeyValue \<times> string) option"
  assumes Decode_Encode: "valid_kv kv \<Longrightarrow> Decode (Encode kv @ s) = Some (kv, s)"
    and Decode_EOF: "Decode [] = None"
    and Decode_shorter: "Decode s = Some (kv, s') \<Longrightarrow> length s' < length s"

section \<open>Strings\<close>

definition hex :: "nat \<Rightarrow> char" where
  "hex d = (if d < 10 then char_of (48 + d) else char_of (87 + d))"

definition unhex :: "char \<Rightarrow> nat option" where
  "unhex c =
     (let n = of_char c in
      if 48 \<le> n \<and> n \<le> 57 then Some (n - 48)
      else if 97 \<le> n \<and> n \<le> 102 then Some (n - 87)
      else if 65 \<le> n \<and> n \<le> 70 then Some (n - 55) else None)"

definition json_char :: "char \<Rightarrow> string" where
  "json_char c =
     (let n = of_char c :: nat in
      if n = 34 then [CHR 0x5C, CHR 0x22] else if n = 92 then [CHR 0x5C, CHR 0x5C]
      else if n = 8 then [CHR 0x5C, CHR ''b''] else if n = 12 then [CHR 0x5C, CHR ''f'']
      else if n = 10 then [CHR 0x5C, CHR ''n''] else if n = 13 then [CHR 0x5C, CHR ''r'']
      else if n = 9 then [CHR 0x5C, CHR ''t'']
      else if n < 32 \<or> n = 60 \<or> n = 62 \<or> n = 38
      then [CHR 0x5C, CHR ''u'', CHR ''0'', CHR ''0'', hex (n div 16), hex (n mod 16)]
      else [c])"

definition json_string :: "string \<Rightarrow> string" where
  "json_string s = CHR 0x22 # concat (map json_char s) @ [CHR 0x22]"

definition unescape :: "char \<Rightarrow> char option" where
  "unescape c =
     (if c \<in> {CHR 0x22, CHR 0x5C, CHR 0x2F} then Some c
      else if c = CHR ''b'' then Some (CHR 0x08) else if c = CHR ''f'' then Some (CHR 0x0C)
      else if c = CHR ''n'' then Some (CHR 0x0A) else if c = CHR ''r'' then Some (CHR 0x0D)
      else if c = CHR ''t'' then Some (CHR 0x09) else None)"

text \<open>The characters up to the closing quote; an escape \<open>\u00hh\<close> is read as the character \<open>hh\<close>.\<close>

fun json_chars :: "string \<Rightarrow> (string \<times> string) option" where
  "json_chars [] = None"
| "json_chars (c # s) =
     (if c = CHR 0x22 then Some ([], s)
      else if c = CHR 0x5C then
        (case s of
           [] \<Rightarrow> None
         | e # s' \<Rightarrow>
             (if e = CHR ''u'' then
                (case s' of
                   a # b # h # l # s'' \<Rightarrow>
                     (case (unhex h, unhex l) of
                        (Some x, Some y) \<Rightarrow>
                          if a = CHR ''0'' \<and> b = CHR ''0''
                          then map_option (apfst ((#) (char_of (16 * x + y)))) (json_chars s'') else None
                      | _ \<Rightarrow> None)
                 | _ \<Rightarrow> None)
              else
                (case unescape e of
                   None \<Rightarrow> None
                 | Some x \<Rightarrow> map_option (apfst ((#) x)) (json_chars s'))))
      else if of_char c < (32 :: nat) then None
      else map_option (apfst ((#) c)) (json_chars s))"

lemma unhex_hex: "d < 16 \<Longrightarrow> unhex (hex d) = Some d"
  by (auto simp: unhex_def hex_def Let_def)

lemma char_eq_code: "c = d \<longleftrightarrow> of_char c = (of_char d :: nat)"
  by (rule of_char_eq_iff [symmetric])

lemma json_chars_step: "json_chars (json_char c @ s) = map_option (apfst ((#) c)) (json_chars s)"
proof -
  let ?n = "of_char c :: nat"
  consider (short) "c \<in> {CHR 0x22, CHR 0x5C, CHR 0x08, CHR 0x0C, CHR 0x0A, CHR 0x0D, CHR 0x09}"
    | (hexed) "?n \<notin> {34, 92, 8, 12, 10, 13, 9}" "?n < 32 \<or> ?n = 60 \<or> ?n = 62 \<or> ?n = 38"
    | (plain) "?n \<notin> {34, 92, 8, 12, 10, 13, 9, 60, 62, 38}" "\<not> ?n < 32" by (auto simp: char_eq_code)
  then show ?thesis
  proof cases
    case hexed
    then have "?n div 16 < 16" "?n mod 16 < 16" by auto
    then have "unhex (hex (?n div 16)) = Some (?n div 16)" "unhex (hex (?n mod 16)) = Some (?n mod 16)"
      using unhex_hex by blast+
    with hexed show ?thesis by (simp add: json_char_def Let_def)
  next
    case plain
    then have "c \<noteq> CHR 0x22" "c \<noteq> CHR 0x5C" by (auto simp: char_eq_code)
    with plain show ?thesis by (simp add: json_char_def Let_def)
  next
    case short
    then show ?thesis
      by (elim insertE emptyE) (simp_all add: json_char_def unescape_def)
  qed
qed

lemma json_chars_string: "json_chars (concat (map json_char k) @ CHR 0x22 # s) = Some (k, s)"
  by (induction k) (simp_all add: json_chars_step)

lemma json_chars_shorter: "json_chars s = Some (k, s') \<Longrightarrow> length s' < length s"
  by (induction s arbitrary: k s' rule: json_chars.induct)
     (fastforce split: if_splits list.splits option.splits prod.splits simp: less_Suc_eq)+

section \<open>Pairs\<close>

definition json_Encode :: "KeyValue \<Rightarrow> string" where
  "json_Encode kv =
     CHR ''{'' # json_string ''Key'' @ CHR '':'' # json_string (Key kv) @ CHR '','' # json_string ''Value'' @
     CHR '':'' # json_string (Value kv) @ [CHR ''}'', CHR 0x0A]"

definition take_prefix :: "string \<Rightarrow> string \<Rightarrow> string option" where
  "take_prefix p s = (if take (length p) s = p then Some (drop (length p) s) else None)"

definition json_Decode :: "string \<Rightarrow> (KeyValue \<times> string) option" where
  "json_Decode s = do {
     s \<leftarrow> take_prefix (CHR ''{'' # json_string ''Key'' @ [CHR '':'', CHR 0x22]) s;
     (k, s) \<leftarrow> json_chars s;
     s \<leftarrow> take_prefix (CHR '','' # json_string ''Value'' @ [CHR '':'', CHR 0x22]) s;
     (v, s) \<leftarrow> json_chars s;
     s \<leftarrow> take_prefix [CHR ''}'', CHR 0x0A] s;
     Some (\<lparr>Key = k, Value = v\<rparr>, s)
   }"

definition ascii_kv :: "KeyValue \<Rightarrow> bool" where
  "ascii_kv kv \<longleftrightarrow> (\<forall>c \<in> set (Key kv) \<union> set (Value kv). of_char c < (128 :: nat))"

lemma take_prefix_append: "take_prefix p (p @ s) = Some s"
  by (simp add: take_prefix_def)

lemma take_prefix_shorter: "take_prefix p s = Some s' \<Longrightarrow> length s' \<le> length s"
  by (auto simp: take_prefix_def split: if_splits)

lemma json_Decode_Encode: "json_Decode (json_Encode kv @ s) = Some (kv, s)"
proof -
  have "json_Encode kv @ s =
      (CHR ''{'' # json_string ''Key'' @ [CHR '':'', CHR 0x22]) @ concat (map json_char (Key kv)) @ CHR 0x22 #
      (CHR '','' # json_string ''Value'' @ [CHR '':'', CHR 0x22]) @ concat (map json_char (Value kv)) @ CHR 0x22 #
      [CHR ''}'', CHR 0x0A] @ s"
    by (simp add: json_Encode_def json_string_def [of "Key kv"] json_string_def [of "Value kv"])
  then show ?thesis
    unfolding json_Decode_def by (simp only: take_prefix_append json_chars_string bind.bind_lunit split) simp
qed

interpretation js: kv_codec ascii_kv json_Encode json_Decode
proof
  show "json_Decode (json_Encode kv @ s) = Some (kv, s)" for kv s by (rule json_Decode_Encode)
  show "json_Decode [] = None" by (simp add: json_Decode_def take_prefix_def)
  show "length s' < length s" if "json_Decode s = Some (kv, s')" for s kv s'
    using that
    by (auto simp: json_Decode_def bind_Some_iff dest!: take_prefix_shorter json_chars_shorter)
qed

end
