(* ===== verification/MrWorker.thy ===== *)
theory MrWorker
  imports MrCoordinator MrJson
begin

text \<open>
  The MapReduce worker, \<open>src/mr/worker.go\<close>, and the sequential program it is compared with,
  \<open>src/main/mrsequential.go\<close>. The working directory is an association list from file names to
  contents with distinct names. \<open>sort.Sort\<close> (which is not stable), \<open>os.CreateTemp\<close>, the JSON encoder
  and the application's map and reduce functions are arguments; what the worker relies on are the
  interfaces \<open>key_sorter\<close>, \<open>temp_namer\<close> and \<open>kv_codec\<close>. \<open>log.Fatalf\<close> and panics are \<^term>\<open>None\<close>.
\<close>

type_synonym directory = "(string \<times> string) list"
type_synonym namer = "string \<Rightarrow> directory \<Rightarrow> string"

text \<open>\<open>sort.Sort(ByKey(kvs))\<close>: a permutation ordered by \<open>Less\<close>, the bytewise order of the keys.\<close>

locale key_sorter =
  fixes srt :: "KeyValue list \<Rightarrow> KeyValue list"
  assumes mset_srt [simp]: "mset (srt kvs) = mset kvs"
    and sorted_srt: "sorted (map Key (srt kvs))"

interpretation ks: key_sorter "sort_key Key"
  by unfold_locales simp_all

text \<open>
  \<open>os.CreateTemp(".", p + "*")\<close> replaces the star by a random decimal number such that no file of
  that name exists.
\<close>

locale temp_namer =
  fixes rnd :: namer
  assumes rnd_fresh: "p @ rnd p d \<notin> fst ` set d"
    and rnd_no_dash: "CHR ''-'' \<notin> set (rnd p d)"

text \<open>A deterministic choice: more zeros than the longest name has characters.\<close>

definition zeros :: namer where
  "zeros p d = replicate (Suc (sum_list (map (length \<circ> fst) d))) CHR ''0''"

interpretation zn: temp_namer zeros
proof
  fix p d
  show "p @ zeros p d \<notin> fst ` set d"
  proof
    assume "p @ zeros p d \<in> fst ` set d"
    then obtain e where e: "e \<in> set d" "fst e = p @ zeros p d" by (auto dest: sym)
    have "length (fst e) \<le> sum_list (map (length \<circ> fst) d)"
      using member_le_sum_list [of "(length \<circ> fst) e" "map (length \<circ> fst) d"] e(1) by auto
    with e(2) show False by (simp add: zeros_def)
  qed
qed (simp add: zeros_def)

section \<open>Files\<close>

definition fs_rename :: "string \<Rightarrow> string \<Rightarrow> directory \<Rightarrow> directory" where
  "fs_rename old new d =
     (case map_of d old of None \<Rightarrow> d | Some text \<Rightarrow> AList.update new text (AList.delete old d))"

definition ReadDir :: "directory \<Rightarrow> string list" where
  "ReadDir d = sort (map fst d)"

definition iname :: "int \<Rightarrow> int \<Rightarrow> string" where
  "iname taskID i = ''mr-'' @ itoa taskID @ CHR ''-'' # itoa i"

definition outname :: "int \<Rightarrow> string" where
  "outname taskID = ''mr-out-'' @ itoa taskID"

section \<open>Map tasks\<close>

definition ihash :: "string \<Rightarrow> int" where
  "ihash key = uint (fnv32a key AND 0x7fffffff)"

fun create_loop :: "namer \<Rightarrow> int \<Rightarrow> nat list \<Rightarrow> directory \<Rightarrow> string list \<times> directory" where
  "create_loop rnd taskID [] d = ([], d)"
| "create_loop rnd taskID (i # is) d =
     (let p = iname taskID (int i) @ ''-'';
          ofile = p @ rnd p d;
          (files, d') = create_loop rnd taskID is (AList.update ofile [] d)
      in (ofile # files, d'))"

fun encode_loop ::
  "(KeyValue \<Rightarrow> string) \<Rightarrow> nat \<Rightarrow> string list \<Rightarrow> KeyValue list \<Rightarrow> directory \<Rightarrow> directory option" where
  "encode_loop Encode n files [] d = Some d"
| "encode_loop Encode n files (kv # kvs) d =
     (if n = 0 then None
      else do {
        f \<leftarrow> go_index files (ihash (Key kv) mod int n);
        text \<leftarrow> map_of d f;
        encode_loop Encode n files kvs (AList.update f (text @ Encode kv) d)
      })"

fun rename_loop :: "string list \<Rightarrow> directory \<Rightarrow> directory option" where
  "rename_loop [] d = Some d"
| "rename_loop (f # fs) d = do {
     newName \<leftarrow> before_last_dash f;
     rename_loop fs (fs_rename f newName d)
   }"

record mr_world =
  coord :: Coordinator
  dir :: directory

definition startMapTask ::
  "(string \<Rightarrow> string \<Rightarrow> KeyValue list) \<Rightarrow> (KeyValue list \<Rightarrow> KeyValue list) \<Rightarrow> (KeyValue \<Rightarrow> string) \<Rightarrow> namer \<Rightarrow>
   string \<Rightarrow> nat \<Rightarrow> int \<Rightarrow> mr_world \<Rightarrow> mr_world option" where
  "startMapTask mapf srt Encode rnd filename n taskID w = do {
     content \<leftarrow> map_of (dir w) filename;
     let mapRes = srt (mapf filename content);
     let (files, d1) = create_loop rnd taskID [0..<n] (dir w);
     d2 \<leftarrow> encode_loop Encode n files mapRes d1;
     d3 \<leftarrow> rename_loop files d2;
     c \<leftarrow> ReportTask \<lparr>ra_TaskID = taskID, ra_TaskType = MapTask\<rparr> (coord w);
     Some \<lparr>coord = c, dir = d3\<rparr>
   }"

section \<open>Reduce tasks\<close>

text \<open>
  Decoding until the first error. \<open>Decode\<close> takes something off the input whenever it succeeds; the
  guard says so, for the termination of the loop.
\<close>

function decode_loop :: "(string \<Rightarrow> (KeyValue \<times> string) option) \<Rightarrow> string \<Rightarrow> KeyValue list" where
  "decode_loop Decode s =
     (case Decode s of
        None \<Rightarrow> []
      | Some (kv, s') \<Rightarrow> if length s' < length s then kv # decode_loop Decode s' else [kv])"
  by pat_completeness auto
termination by (relation "measure (\<lambda>(_, s). length s)") auto

declare decode_loop.simps [simp del]

fun read_loop :: "(string \<Rightarrow> (KeyValue \<times> string) option) \<Rightarrow> string list \<Rightarrow> directory \<Rightarrow> KeyValue list option" where
  "read_loop Decode [] d = Some []"
| "read_loop Decode (f # fs) d = do {
     text \<leftarrow> map_of d f;
     kvs \<leftarrow> read_loop Decode fs d;
     Some (decode_loop Decode text @ kvs)
   }"

text \<open>The end of the run of equal keys that starts at \<open>i\<close>.\<close>

function run_end :: "KeyValue list \<Rightarrow> nat \<Rightarrow> nat \<Rightarrow> nat" where
  "run_end kvs i j = (if j < length kvs \<and> Key (kvs ! i) = Key (kvs ! j) then run_end kvs i (j + 1) else j)"
  by pat_completeness auto
termination by (relation "measure (\<lambda>(kvs, i, j). length kvs - j)") auto

declare run_end.simps [simp del]

lemma run_end_ge: "j \<le> run_end kvs i j"
  by (induction kvs i j rule: run_end.induct) (subst run_end.simps, auto dest: Suc_leD)

text \<open>\<open>fmt.Fprintf(f, "%v %v\n", key, res)\<close>.\<close>

definition out_line :: "string \<Rightarrow> string \<Rightarrow> string" where
  "out_line key res = key @ CHR '' '' # res @ [CHR 0x0A]"

function reduce_loop :: "(string \<Rightarrow> string list \<Rightarrow> string) \<Rightarrow> KeyValue list \<Rightarrow> nat \<Rightarrow> string list" where
  "reduce_loop reducef kvs i =
     (if i < length kvs
      then let j = run_end kvs i (i + 1);
               vs = map (\<lambda>k. Value (kvs ! k)) [i..<j]
           in out_line (Key (kvs ! i)) (reducef (Key (kvs ! i)) vs) # reduce_loop reducef kvs j
      else [])"
  by pat_completeness auto
termination
proof (relation "measure (\<lambda>(_, kvs, i). length kvs - i)")
  fix kvs :: "KeyValue list" and i j :: nat
  assume "i < length kvs" "j = run_end kvs i (i + 1)"
  with run_end_ge [of "i + 1" kvs i] show "((reducef, kvs, j), reducef, kvs, i) \<in> measure (\<lambda>(_, kvs, i). length kvs - i)"
    for reducef :: "string \<Rightarrow> string list \<Rightarrow> string" by simp
qed simp

declare reduce_loop.simps [simp del]

definition startReduceTask ::
  "(string \<Rightarrow> string list \<Rightarrow> string) \<Rightarrow> (KeyValue list \<Rightarrow> KeyValue list) \<Rightarrow>
   (string \<Rightarrow> (KeyValue \<times> string) option) \<Rightarrow> namer \<Rightarrow> int \<Rightarrow> nat \<Rightarrow> mr_world \<Rightarrow> mr_world option" where
  "startReduceTask reducef srt Decode rnd taskID nMap w = do {
     let files = filter (\<lambda>f. HasSuffix f (CHR ''-'' # itoa taskID)) (ReadDir (dir w));
     kvs \<leftarrow> read_loop Decode files (dir w);
     let sorted_kvs = srt kvs;
     let p = outname taskID @ ''-'';
     let tempFile = p @ rnd p (dir w);
     let d1 = AList.update tempFile (concat (reduce_loop reducef sorted_kvs 0)) (dir w);
     let d2 = fs_rename tempFile (outname taskID) d1;
     c \<leftarrow> ReportTask \<lparr>ra_TaskID = taskID, ra_TaskType = ReduceTask\<rparr> (coord w);
     Some \<lparr>coord = c, dir = d2\<rparr>
   }"

section \<open>The worker's loop\<close>

datatype worker_result = Again mr_world | Finished mr_world | Panicked

text \<open>The application and the library functions a worker runs with.\<close>

record mr_env =
  env_mapf :: "string \<Rightarrow> string \<Rightarrow> KeyValue list"
  env_reducef :: "string \<Rightarrow> string list \<Rightarrow> string"
  env_srt :: "KeyValue list \<Rightarrow> KeyValue list"
  env_Encode :: "KeyValue \<Rightarrow> string"
  env_Decode :: "string \<Rightarrow> (KeyValue \<times> string) option"
  env_rnd :: namer

definition again :: "mr_world option \<Rightarrow> worker_result" where
  "again r = (case r of None \<Rightarrow> Panicked | Some w \<Rightarrow> Again w)"

text \<open>One iteration at time \<open>now\<close>; the coordinator answers and no other worker runs in between.\<close>

definition Worker_iter :: "mr_env \<Rightarrow> int \<Rightarrow> mr_world \<Rightarrow> worker_result" where
  "Worker_iter e now w =
     (case RequestTask now (coord w) of
        None \<Rightarrow> Panicked
      | Some (c, reply) \<Rightarrow>
          let w' = w\<lparr>coord := c\<rparr> in
          (case rt_TaskType reply of
             MapTask \<Rightarrow> again (startMapTask (env_mapf e) (env_srt e) (env_Encode e) (env_rnd e)
                               (rt_File reply) (rt_NReduce reply) (rt_TaskID reply) w')
           | ReduceTask \<Rightarrow> again (startReduceTask (env_reducef e) (env_srt e) (env_Decode e) (env_rnd e)
                               (rt_TaskID reply) (rt_NMap reply) w')
           | Wait \<Rightarrow> Again w'
           | Done \<Rightarrow> Finished w'))"

text \<open>The loop, with fuel and the time of each iteration.\<close>

fun Worker :: "mr_env \<Rightarrow> int list \<Rightarrow> mr_world \<Rightarrow> mr_world option" where
  "Worker e [] w = None"
| "Worker e (now # ts) w =
     (case Worker_iter e now w of
        Again w' \<Rightarrow> Worker e ts w' | Finished w' \<Rightarrow> Some w' | Panicked \<Rightarrow> None)"

section \<open>mrsequential.go\<close>

fun seq_map_loop ::
  "(string \<Rightarrow> string \<Rightarrow> KeyValue list) \<Rightarrow> string list \<Rightarrow> directory \<Rightarrow> KeyValue list \<Rightarrow> KeyValue list option" where
  "seq_map_loop mapf [] d intermediate = Some intermediate"
| "seq_map_loop mapf (filename # fs) d intermediate = do {
     content \<leftarrow> map_of d filename;
     seq_map_loop mapf fs d (intermediate @ mapf filename content)
   }"

text \<open>The contents of \<open>mr-out-0\<close>.\<close>

definition mrsequential ::
  "(string \<Rightarrow> string \<Rightarrow> KeyValue list) \<Rightarrow> (string \<Rightarrow> string list \<Rightarrow> string) \<Rightarrow>
   (KeyValue list \<Rightarrow> KeyValue list) \<Rightarrow> string list \<Rightarrow> directory \<Rightarrow> string option" where
  "mrsequential mapf reducef srt files d = do {
     intermediate \<leftarrow> seq_map_loop mapf files d [];
     Some (concat (reduce_loop reducef (srt intermediate) 0))
   }"

end
