(* ===== verification/MrJob.thy ===== *)
theory MrJob
  imports MrCorrect
begin

text \<open>
  A whole job: the worker's loop against the coordinator and the directory. The locale \<open>mr_job\<close>
  collects what a job needs of the library, of the application and of the directory it starts in;
  inside it every iteration of a worker is shown to complete one more task and to leave that task's
  files, so that the loop ends and the output files together hold the lines the sequential program
  prints.
\<close>

definition bucket :: "nat \<Rightarrow> nat \<Rightarrow> KeyValue list \<Rightarrow> KeyValue list" where
  "bucket n i kvs = filter (\<lambda>kv. ihash (Key kv) mod int n = int i) kvs"

lemma decode_encoded:
  assumes "kv_codec valid_kv Encode Decode" "\<forall>kv \<in> set kvs. valid_kv kv"
  shows "decode_loop Decode (concat (map Encode kvs)) = kvs"
  using assms(2)
proof (induction kvs)
  case Nil
  show ?case using kv_codec.Decode_EOF [OF assms(1)] by (simp add: decode_loop.simps)
next
  case (Cons kv kvs)
  have "Decode (Encode kv @ concat (map Encode kvs)) = Some (kv, concat (map Encode kvs))"
    using Cons.prems by (simp add: kv_codec.Decode_Encode [OF assms(1)])
  with kv_codec.Decode_shorter [OF assms(1) this] Cons show ?case by (subst decode_loop.simps) simp
qed

lemma read_loop_spec:
  assumes "\<forall>f \<in> set fs. map_of d f = Some (t f)"
  shows "read_loop Decode fs d = Some (concat (map (\<lambda>f. decode_loop Decode (t f)) fs))"
  using assms by (induction fs) auto

lemma seq_map_loop_spec:
  assumes "\<forall>f \<in> set fs. map_of d f = Some (t f)"
  shows "seq_map_loop mapf fs d acc = Some (acc @ concat (map (\<lambda>f. mapf f (t f)) fs))"
  using assms by (induction fs arbitrary: acc) auto

lemma bucket_mset: "mset kvs = mset kvs' \<Longrightarrow> mset (bucket n i kvs) = mset (bucket n i kvs')"
  by (simp add: bucket_def)

lemma bucket_concat: "bucket n i (concat kvss) = concat (map (bucket n i) kvss)"
  by (induction kvss) (simp_all add: bucket_def)

lemma mset_sorted_set: "finite A \<Longrightarrow> mset (sorted_list_of_set A) = mset_set A"
  by (metis mset_set_set sorted_list_of_set.distinct_sorted_key_list_of_set sorted_list_of_set.set_sorted_key_list_of_set)

lemma image_mset_set_UN:
  fixes K :: "nat \<Rightarrow> 'a set"
  assumes "\<And>i. finite (K i)" "\<And>i j. i \<noteq> j \<Longrightarrow> K i \<inter> K j = {}"
  shows "(\<Sum>i < n. image_mset f (mset_set (K i))) = image_mset f (mset_set (\<Union>i < n. K i))"
proof (induction n)
  case (Suc n)
  have "mset_set (K n \<union> (\<Union>i < n. K i)) = mset_set (K n) + mset_set (\<Union>i < n. K i)"
  proof (rule mset_set_Union)
    have "K n \<inter> K i = {}" if "i < n" for i using that assms(2) by simp
    then show "K n \<inter> (\<Union>i < n. K i) = {}" by blast
  qed (simp_all add: assms(1))
  with Suc show ?case by (simp add: lessThan_Suc add.commute)
qed simp

text \<open>Every key belongs to one bucket, with all its values.\<close>

lemma chunks_buckets:
  assumes "0 < n"
  shows "(\<Sum>i < n. mset (chunks reducef (bucket n i kvs))) = mset (chunks reducef kvs)"
proof -
  let ?line = "\<lambda>k. out_line k (reducef k (values_of kvs k))"
  define K where "K i = {k \<in> Key ` set kvs. ihash k mod int n = int i}" for i
  have keys: "Key ` set (bucket n i kvs) = K i" for i by (auto simp: bucket_def K_def)
  have vals: "values_of (bucket n i kvs) k = values_of kvs k" if "k \<in> K i" for i k
    using that by (auto simp: values_of_def bucket_def K_def conj_commute intro!: arg_cong [where f = "map Value"] filter_cong)
  have chunk: "mset (chunks reducef (bucket n i kvs)) = image_mset ?line (mset_set (K i))" for i
  proof -
    have "chunks reducef (bucket n i kvs) = map ?line (sorted_list_of_set (K i))"
      unfolding chunks_def keys by (rule map_cong) (simp_all add: vals K_def)
    then show ?thesis by (simp add: mset_sorted_set K_def)
  qed
  have "(\<Sum>i < n. image_mset ?line (mset_set (K i))) = image_mset ?line (mset_set (\<Union>i < n. K i))"
    by (rule image_mset_set_UN) (auto simp: K_def)
  moreover have "(\<Union>i < n. K i) = Key ` set kvs"
  proof -
    have "k \<in> K (nat (ihash k mod int n)) \<and> nat (ihash k mod int n) < n" if "k \<in> Key ` set kvs" for k
      using assms that by (simp add: K_def nat_less_iff)
    then have "Key ` set kvs \<subseteq> (\<Union>i < n. K i)" by blast
    moreover have "K i \<subseteq> Key ` set kvs" for i by (auto simp: K_def)
    ultimately show ?thesis by blast
  qed
  ultimately show ?thesis
    unfolding chunk by (simp add: chunks_def mset_sorted_set)
qed

section \<open>Jobs\<close>

locale mr_job = kv_codec valid_kv Encode Decode + key_sorter srt + temp_namer rnd
  for valid_kv Encode Decode srt rnd +
  fixes mapf :: "string \<Rightarrow> string \<Rightarrow> KeyValue list"
    and reducef :: "string \<Rightarrow> string list \<Rightarrow> string"
    and files :: "string list"
    and n :: nat
    and d0 :: directory
  assumes n_pos: "0 < n"
    and d0_distinct: "distinct (map fst d0)"
    and files_exist: "f \<in> set files \<Longrightarrow> f \<in> fst ` set d0"
    and no_clash: "f \<in> fst ` set d0 \<Longrightarrow> i < n \<Longrightarrow> \<not> HasSuffix f (CHR ''-'' # itoa_nat i)"
    and pairs_valid: "f \<in> set files \<Longrightarrow> map_of d0 f = Some text \<Longrightarrow> kv \<in> set (mapf f text) \<Longrightarrow> valid_kv kv"
    and reducef_free: "order_free reducef"
begin

definition content :: "string \<Rightarrow> string" where
  "content f = the (map_of d0 f)"

definition mapres :: "nat \<Rightarrow> KeyValue list" where
  "mapres m = srt (mapf (files ! m) (content (files ! m)))"

definition intermediate :: "KeyValue list" where
  "intermediate = concat (map (\<lambda>f. mapf f (content f)) files)"

abbreviation nMap :: nat where
  "nMap \<equiv> length files"

text \<open>The maps in \<open>M\<close> and the reduces in \<open>R\<close> have left their files, all else is as at the start.\<close>

definition dir_inv :: "nat set \<Rightarrow> nat set \<Rightarrow> directory \<Rightarrow> bool" where
  "dir_inv M R d \<longleftrightarrow> distinct (map fst d) \<and>
     (\<forall>m \<in> M. \<forall>i < n. map_of d (iname (int m) (int i)) = Some (concat (map Encode (bucket n i (mapres m))))) \<and>
     (\<forall>i \<in> R. map_of d (outname (int i)) = Some (concat (chunks reducef (bucket n i intermediate)))) \<and>
     (\<forall>f. (\<forall>m \<in> M. \<forall>i < n. f \<noteq> iname (int m) (int i)) \<longrightarrow> (\<forall>i \<in> R. f \<noteq> outname (int i)) \<longrightarrow>
        map_of d f = map_of d0 f)"

lemma map_of_files: "f \<in> set files \<Longrightarrow> map_of d0 f = Some (content f)"
proof -
  assume "f \<in> set files"
  then have "map_of d0 f \<noteq> None" using files_exist by (simp add: map_of_eq_None_iff)
  then show ?thesis by (auto simp: content_def)
qed

lemma base_file:
  assumes "dir_inv M R d" "R \<subseteq> {..<n}" "f \<in> set files"
  shows "map_of d f = Some (content f)"
proof -
  have "f \<noteq> iname (int m) (int i)" "f \<noteq> outname (int i)" if "i < n" for m i
    using no_clash [OF files_exist [OF assms(3)] that] by (auto simp: iname_suffix outname_suffix)
  then have "map_of d f = map_of d0 f" using assms(1,2) unfolding dir_inv_def by blast
  then show ?thesis by (simp add: map_of_files assms(3))
qed

lemma map_step:
  assumes "dir_inv M {} d" "m < nMap" "ReportTask \<lparr>ra_TaskID = int m, ra_TaskType = MapTask\<rparr> c = Some c'"
  obtains d' where "startMapTask mapf srt Encode rnd (files ! m) n (int m) \<lparr>coord = c, dir = d\<rparr> =
      Some \<lparr>coord = c', dir = d'\<rparr>" "dir_inv (insert m M) {} d'"
proof -
  let ?kvs = "mapres m"
  obtain ts d1 where c1: "create_loop rnd (int m) [0..<n] d = (ts, d1)" by force
  have dd: "distinct (map fst d)" using assms(1) by (simp add: dir_inv_def)
  note created = create_loop_spec [OF c1 dd]
  define ns where "ns = map (\<lambda>i. iname (int m) (int i)) [0..<n]"
  have ns: "length ns = length ts" "distinct ns" "\<forall>i < n. ns ! i = iname (int m) (int i)"
    using created by (auto simp: ns_def distinct_map inj_on_def)
  have len: "length ts = n" and dts: "distinct ts" using created by simp_all
  have temp: "\<exists>r. CHR ''-'' \<notin> set r \<and> ts ! k = iname (int m) (int k) @ CHR ''-'' # r" if "k < n" for k
    using created that by simp
  then have bld: "\<forall>i < length ts. before_last_dash (ts ! i) = Some (ns ! i)"
    using before_last_dash by (fastforce simp: len ns)
  have disj: "set ns \<inter> set ts = {}"
  proof -
    have "ts ! k \<noteq> iname (int m) (int j)" if "k < n" for j k
      using temp [OF that] temp_not_iname by metis
    then show ?thesis unfolding ns_def by (auto simp: in_set_conv_nth len)
  qed
  have "\<forall>i < n. map_of d1 (ts ! i) = Some []" using created len by auto
  then obtain d2 where d2: "encode_loop Encode n ts ?kvs d1 = Some d2" "distinct (map fst d2)"
    "\<forall>i < n. map_of d2 (ts ! i) = Some (concat (map Encode (bucket n i ?kvs)))"
    "\<forall>f. f \<notin> set ts \<longrightarrow> map_of d2 f = map_of d1 f"
    using encode_loop_spec [OF len _ n_pos, of d1 "\<lambda>_. []" Encode ?kvs] created
    unfolding bucket_def by auto
  then have "\<forall>i < length ts. map_of d2 (ts ! i) = Some (concat (map Encode (bucket n i ?kvs)))" using len by simp
  then obtain d3 where d3: "rename_loop ts d2 = Some d3" "distinct (map fst d3)"
    "\<forall>i < length ts. map_of d3 (ns ! i) = Some (concat (map Encode (bucket n i ?kvs)))"
    "\<forall>f. f \<notin> set ns \<longrightarrow> map_of d3 f = (if f \<in> set ts then None else map_of d2 f)"
    by (rule rename_loop_spec [OF dts ns(1,2) disj bld d2(2)]) blast
  have rest: "map_of d3 f = map_of d f" if "f \<notin> set ns" for f
  proof (cases "f \<in> set ts")
    case True
    then have "map_of d f = None" using created by (auto simp: map_of_eq_None_iff)
    with that True d3(4) show ?thesis by simp
  next
    case False
    with that d3(4) d2(4) created show ?thesis by simp
  qed
  show ?thesis
  proof (rule that)
    have "map_of d (files ! m) = Some (content (files ! m))"
      using base_file [OF assms(1)] assms(2) by simp
    then show "startMapTask mapf srt Encode rnd (files ! m) n (int m) \<lparr>coord = c, dir = d\<rparr> =
        Some \<lparr>coord = c', dir = d3\<rparr>"
      using c1 d2(1) d3(1) assms(3) by (simp add: startMapTask_def mapres_def)
    have row: "\<forall>i < n. map_of d3 (iname (int m) (int i)) = Some (concat (map Encode (bucket n i ?kvs)))"
      using d3(3) len ns(3) by simp
    have notin: "iname (int m') (int i) \<notin> set ns" if "m' \<noteq> m" for m' i using that by (auto simp: ns_def)
    have "\<forall>m' \<in> insert m M. \<forall>i < n. map_of d3 (iname (int m') (int i)) =
        Some (concat (map Encode (bucket n i (mapres m'))))"
    proof (intro ballI allI impI)
      fix m' i assume "m' \<in> insert m M" "i < n"
      then show "map_of d3 (iname (int m') (int i)) = Some (concat (map Encode (bucket n i (mapres m'))))"
        using row rest [OF notin] assms(1) by (cases "m' = m") (simp_all add: dir_inv_def)
    qed
    moreover have "map_of d3 f = map_of d f" if "\<forall>i < n. f \<noteq> iname (int m) (int i)" for f
      using that by (intro rest) (auto simp: ns_def)
    ultimately show "dir_inv (insert m M) {} d3"
      using assms(1) d3(2) unfolding dir_inv_def by simp
  qed
qed

lemma mset_concat_cong:
  "(\<And>x. x \<in> set xs \<Longrightarrow> mset (f x) = mset (g x)) \<Longrightarrow> mset (concat (map f xs)) = mset (concat (map g xs))"
  by (induction xs) auto

lemma sum_mset_UN: "(\<Sum>i < (k :: nat). \<Sum>s \<in># A i. f s) = (\<Sum>s \<in># (\<Sum>i < k. A i). (f s :: 'b multiset))"
  by (induction k) simp_all

lemma intermediate_mset: "mset (concat (map mapres [0..<nMap])) = mset intermediate"
proof -
  have "mset (concat (map mapres [0..<nMap])) = mset (concat (map (\<lambda>m. mapf (files ! m) (content (files ! m))) [0..<nMap]))"
    by (rule mset_concat_cong) (simp add: mapres_def)
  also have "map (\<lambda>m. mapf (files ! m) (content (files ! m))) [0..<nMap] = map (\<lambda>f. mapf f (content f)) files"
    by (rule nth_equalityI) simp_all
  finally show ?thesis by (simp add: intermediate_def)
qed

lemma mapres_valid: "m < nMap \<Longrightarrow> \<forall>kv \<in> set (mapres m). valid_kv kv"
proof -
  assume m: "m < nMap"
  have "set (mapres m) = set (mapf (files ! m) (content (files ! m)))"
    unfolding mapres_def by (rule mset_eq_setD) simp
  then show ?thesis using pairs_valid [OF nth_mem [OF m]] map_of_files [OF nth_mem [OF m]] by blast
qed

text \<open>The files a reduce task picks from the directory by their suffix.\<close>

lemma reduce_files:
  assumes "dir_inv {..<nMap} R d" "R \<subseteq> {..<n}" "i < n" "i \<notin> R"
  shows "mset (filter (\<lambda>f. HasSuffix f (CHR ''-'' # itoa_nat i)) (ReadDir d)) =
    mset (map (\<lambda>m. iname (int m) (int i)) [0..<nMap])" (is "mset ?fs = mset ?ns")
proof -
  have dd: "distinct (map fst d)" using assms(1) by (simp add: dir_inv_def)
  have "set ?fs = set ?ns"
  proof (intro equalityI subsetI)
    fix f assume f: "f \<in> set ?fs"
    then have suf: "HasSuffix f (CHR ''-'' # itoa_nat i)" and "map_of d f \<noteq> None"
      by (auto simp: ReadDir_def map_of_eq_None_iff)
    moreover from suf have "map_of d0 f = None"
      using no_clash [OF _ assms(3)] by (auto simp: map_of_eq_None_iff)
    ultimately consider m j where "m < nMap" "j < n" "f = iname (int m) (int j)" | j where "j \<in> R" "f = outname (int j)"
      using assms(1) unfolding dir_inv_def by (metis lessThan_iff)
    then show "f \<in> set ?ns"
    proof cases
      case (1 m j)
      with suf show ?thesis by (auto simp: iname_suffix)
    next
      case (2 j)
      with suf assms(4) show ?thesis by (simp add: outname_suffix)
    qed
  next
    fix f assume "f \<in> set ?ns"
    then obtain m where m: "m < nMap" "f = iname (int m) (int i)" by auto
    then have "map_of d f \<noteq> None" using assms(1,3) by (simp add: dir_inv_def)
    with m show "f \<in> set ?fs" by (auto simp: ReadDir_def iname_suffix map_of_eq_None_iff)
  qed
  moreover have "distinct ?fs" using dd by (simp add: ReadDir_def)
  moreover have "distinct ?ns" by (simp add: distinct_map inj_on_def)
  ultimately show ?thesis using set_eq_iff_mset_eq_distinct by blast
qed

lemma reduce_step:
  assumes "dir_inv {..<nMap} R d" "R \<subseteq> {..<n}" "i < n" "i \<notin> R"
    "ReportTask \<lparr>ra_TaskID = int i, ra_TaskType = ReduceTask\<rparr> c = Some c'"
  obtains d' where "startReduceTask reducef srt Decode rnd (int i) nm \<lparr>coord = c, dir = d\<rparr> =
      Some \<lparr>coord = c', dir = d'\<rparr>" "dir_inv {..<nMap} (insert i R) d'"
proof -
  define fs where "fs = filter (\<lambda>f. HasSuffix f (CHR ''-'' # itoa_nat i)) (ReadDir d)"
  define t where "t f = the (map_of d f)" for f
  define kvs where "kvs = concat (map (\<lambda>f. decode_loop Decode (t f)) fs)"
  have fs: "mset fs = mset (map (\<lambda>m. iname (int m) (int i)) [0..<nMap])"
    unfolding fs_def by (rule reduce_files [OF assms(1-4)])
  have row: "map_of d (iname (int m) (int i)) = Some (concat (map Encode (bucket n i (mapres m))))" if "m < nMap" for m
    using assms(1,3) that by (simp add: dir_inv_def)
  have "\<forall>f \<in> set fs. map_of d f = Some (t f)"
    using mset_eq_setD [OF fs] row by (auto simp: t_def)
  then have read: "read_loop Decode fs d = Some kvs" unfolding kvs_def by (rule read_loop_spec)
  have dec: "decode_loop Decode (t (iname (int m) (int i))) = bucket n i (mapres m)" if "m < nMap" for m
    using decode_encoded [OF kv_codec_axioms, of "bucket n i (mapres m)"] mapres_valid [OF that] row [OF that]
    by (simp add: t_def bucket_def)
  have "mset kvs = mset (concat (map (bucket n i) (map mapres [0..<nMap])))"
  proof -
    have "mset kvs = (\<Sum>f \<in># mset fs. mset (decode_loop Decode (t f)))"
      unfolding kvs_def by (simp add: mset_concat sum_mset_sum_list [symmetric] comp_def)
    also have "\<dots> = mset (concat (map (\<lambda>m. decode_loop Decode (t (iname (int m) (int i)))) [0..<nMap]))"
      unfolding fs by (simp add: mset_concat sum_mset_sum_list [symmetric] comp_def image_mset.compositionality)
    also have "\<dots> = mset (concat (map (\<lambda>m. bucket n i (mapres m)) [0..<nMap]))"
      by (rule mset_concat_cong) (simp add: dec)
    finally show ?thesis by (simp add: comp_def)
  qed
  then have "mset kvs = mset (bucket n i intermediate)"
    unfolding bucket_concat [symmetric] by (simp only: bucket_mset [OF intermediate_mset])
  then have out: "reduce_loop reducef (srt kvs) 0 = chunks reducef (bucket n i intermediate)"
    using reduce_loop_chunks [OF sorted_srt, of reducef kvs 0] chunks_mset [OF reducef_free, of "srt kvs"]
    by simp
  define p where "p = outname (int i) @ ''-''"
  define tmp where "tmp = p @ rnd p d"
  define d2 where "d2 = fs_rename tmp (outname (int i)) (AList.update tmp (concat (reduce_loop reducef (srt kvs) 0)) d)"
  have tmp: "map_of d tmp = None" using rnd_fresh [of p d] by (simp add: tmp_def map_of_eq_None_iff)
  have "distinct (map fst d)" using assms(1) by (simp add: dir_inv_def)
  then have d2: "distinct (map fst d2)"
    "map_of d2 = (map_of d)(outname (int i) \<mapsto> concat (chunks reducef (bucket n i intermediate)))"
    using tmp by (auto simp: d2_def out fs_rename_def distinct_update distinct_delete update_conv' delete_conv')
  show ?thesis
  proof (rule that)
    show "startReduceTask reducef srt Decode rnd (int i) nm \<lparr>coord = c, dir = d\<rparr> = Some \<lparr>coord = c', dir = d2\<rparr>"
      using read assms(5) by (simp add: startReduceTask_def fs_def d2_def tmp_def p_def Let_def)
    show "dir_inv {..<nMap} (insert i R) d2"
      using assms(1) d2 unfolding dir_inv_def by (auto dest: sym)
  qed
qed

subsection \<open>The coordinator's side\<close>

definition coord_inv :: "nat set \<Rightarrow> nat set \<Rightarrow> Coordinator \<Rightarrow> bool" where
  "coord_inv M R c \<longleftrightarrow>
     M \<subseteq> {..<nMap} \<and> R \<subseteq> {..<n} \<and> MapInputFiles c = files \<and> nReduce c = n \<and> wf_coord c \<and>
     (\<forall>j < nMap. status (MapTasksStatus c ! j) = (if j \<in> M then Completed else NotStarted)) \<and>
     (\<forall>j < n. status (ReduceTasksStatus c ! j) = (if j \<in> R then Completed else NotStarted)) \<and>
     CompletedMaps c = card M \<and> CompletedReduces c = card R"

lemma card_full: "M \<subseteq> {..<k} \<Longrightarrow> card M < k \<longleftrightarrow> M \<noteq> {..<k}"
  using card_subset_eq [of "{..<k}" M] card_mono [of "{..<k}" M] by fastforce

lemma coord_map:
  assumes "coord_inv M R c" "M \<noteq> {..<nMap}"
  obtains k c1 c2 where "k < nMap" "k \<notin> M"
    "RequestTask now c = Some (c1, \<lparr>rt_TaskID = int k, rt_File = files ! k, rt_TaskType = MapTask, rt_NReduce = n, rt_NMap = 0\<rparr>)"
    "ReportTask \<lparr>ra_TaskID = int k, ra_TaskType = MapTask\<rparr> c1 = Some c2" "coord_inv (insert k M) R c2"
proof -
  have wf: "wf_coord c" and lt: "CompletedMaps c < length (MapInputFiles c)"
    using assms by (simp_all add: coord_inv_def card_full)
  from assms(2) obtain j where j: "j < nMap" "j \<notin> M"
    using assms(1) unfolding coord_inv_def by blast
  from wf show ?thesis
  proof (cases rule: RequestTask_cases [of c now])
    case (map_task k)
    have k: "k < nMap" "k \<notin> M"
      using map_task(2,3) assms(1) by (auto simp: coord_inv_def assignable_def split: if_splits)
    have fin: "finite M" using assms(1) finite_subset by (auto simp: coord_inv_def)
    show ?thesis
      by (rule that [OF k]) (use map_task k fin assms(1) in
          \<open>auto simp: coord_inv_def wf_coord_def ReportTask_def go_index_def go_store_def nth_list_update\<close>)
  next
    case map_wait
    then have "\<not> assignable now (MapTasksStatus c ! j)"
      using j assms(1) by (simp add: coord_inv_def wf_coord_def)
    with j assms(1) show ?thesis by (simp add: coord_inv_def assignable_def)
  qed (use lt in simp_all)
qed

lemma coord_reduce:
  assumes "coord_inv {..<nMap} R c" "R \<noteq> {..<n}"
  obtains k c1 c2 nm reply where "k < n" "k \<notin> R" "RequestTask now c = Some (c1, reply)"
    "rt_TaskID reply = int k" "rt_TaskType reply = ReduceTask"
    "ReportTask \<lparr>ra_TaskID = int k, ra_TaskType = ReduceTask\<rparr> c1 = Some c2" "coord_inv {..<nMap} (insert k R) c2"
proof -
  have wf: "wf_coord c" and ge: "\<not> CompletedMaps c < length (MapInputFiles c)"
    using assms by (simp_all add: coord_inv_def)
  from assms(2) obtain j where j: "j < n" "j \<notin> R"
    using assms(1) unfolding coord_inv_def by blast
  from wf show ?thesis
  proof (cases rule: RequestTask_cases [of c now])
    case (reduce_task k)
    have k: "k < n" "k \<notin> R"
      using reduce_task(2,3) assms(1) by (auto simp: coord_inv_def assignable_def split: if_splits)
    have fin: "finite R" using assms(1) finite_subset by (auto simp: coord_inv_def)
    show ?thesis
      by (rule that [OF k reduce_task(4)]) (use k fin assms(1) in
          \<open>auto simp: coord_inv_def wf_coord_def ReportTask_def go_index_def go_store_def nth_list_update\<close>)
  next
    case reduce_none
    then have "\<not> assignable now (ReduceTasksStatus c ! j)"
      using j assms(1) by (simp add: coord_inv_def wf_coord_def)
    with j assms(1) show ?thesis by (simp add: coord_inv_def assignable_def)
  qed (use ge in simp_all)
qed

lemma coord_done:
  assumes "coord_inv {..<nMap} {..<n} c"
  shows "RequestTask now c = Some (c, zero_reply\<lparr>rt_TaskType := Done\<rparr>) \<and> Coordinator_Done c"
proof -
  have wf: "wf_coord c" using assms by (simp add: coord_inv_def)
  then have "RequestTask now c = Some (c, zero_reply\<lparr>rt_TaskType := Done\<rparr>)"
    by (cases rule: RequestTask_cases [of c now]) (use assms in \<open>auto simp: coord_inv_def assignable_def\<close>)
  then show ?thesis using assms by (simp add: coord_inv_def Coordinator_Done_def)
qed

subsection \<open>The loop\<close>

definition job_env :: mr_env where
  "job_env = \<lparr>env_mapf = mapf, env_reducef = reducef, env_srt = srt, env_Encode = Encode, env_Decode = Decode, env_rnd = rnd\<rparr>"

definition world_inv :: "nat set \<Rightarrow> nat set \<Rightarrow> mr_world \<Rightarrow> bool" where
  "world_inv M R w \<longleftrightarrow> (R \<noteq> {} \<longrightarrow> M = {..<nMap}) \<and> coord_inv M R (coord w) \<and> dir_inv M R (dir w)"

lemma Worker_iter_step:
  assumes "world_inv M R w" "\<not> (M = {..<nMap} \<and> R = {..<n})"
  obtains M' R' w' where "Worker_iter job_env now w = Again w'" "world_inv M' R' w'"
    "card M' + card R' = Suc (card M + card R)"
proof (cases "M = {..<nMap}")
  case False
  then have R: "R = {}" and ci: "coord_inv M R (coord w)" and di: "dir_inv M {} (dir w)"
    using assms(1) by (auto simp: world_inv_def)
  obtain k c1 c2 where k: "k < nMap" "k \<notin> M"
    "RequestTask now (coord w) = Some (c1, \<lparr>rt_TaskID = int k, rt_File = files ! k, rt_TaskType = MapTask, rt_NReduce = n, rt_NMap = 0\<rparr>)"
    "ReportTask \<lparr>ra_TaskID = int k, ra_TaskType = MapTask\<rparr> c1 = Some c2" "coord_inv (insert k M) R c2"
    by (rule coord_map [OF ci False])
  obtain d' where d': "startMapTask mapf srt Encode rnd (files ! k) n (int k) \<lparr>coord = c1, dir = dir w\<rparr> =
      Some \<lparr>coord = c2, dir = d'\<rparr>" "dir_inv (insert k M) {} d'"
    by (rule map_step [OF di k(1,4)])
  have "finite M" using ci finite_subset by (auto simp: coord_inv_def)
  moreover have "w\<lparr>coord := c1\<rparr> = \<lparr>coord = c1, dir = dir w\<rparr>" (is "?w = _") by (cases w) simp
  ultimately show ?thesis
    using k d' R by (intro that [of "\<lparr>coord = c2, dir = d'\<rparr>" "insert k M" R])
      (simp_all only: Worker_iter_def job_env_def again_def world_inv_def Let_def split mr_world.simps mr_env.simps
        RequestTaskReply.simps option.case Task.case card_insert_disjoint, simp_all)
next
  case True
  with assms(2) have R: "R \<noteq> {..<n}" by simp
  have ci: "coord_inv {..<nMap} R (coord w)" and di: "dir_inv {..<nMap} R (dir w)"
    using assms(1) True by (auto simp: world_inv_def)
  obtain k c1 c2 reply where k: "k < n" "k \<notin> R" "RequestTask now (coord w) = Some (c1, reply)"
    "rt_TaskID reply = int k" "rt_TaskType reply = ReduceTask"
    "ReportTask \<lparr>ra_TaskID = int k, ra_TaskType = ReduceTask\<rparr> c1 = Some c2" "coord_inv {..<nMap} (insert k R) c2"
    by (rule coord_reduce [OF ci R])
  have Rn: "R \<subseteq> {..<n}" using ci by (simp add: coord_inv_def)
  obtain d' where d': "startReduceTask reducef srt Decode rnd (int k) (rt_NMap reply) \<lparr>coord = c1, dir = dir w\<rparr> =
      Some \<lparr>coord = c2, dir = d'\<rparr>" "dir_inv {..<nMap} (insert k R) d'"
    by (rule reduce_step [OF di Rn k(1,2,6)])
  have "finite R" using Rn finite_subset by blast
  moreover have "w\<lparr>coord := c1\<rparr> = \<lparr>coord = c1, dir = dir w\<rparr>" (is "?w = _") by (cases w) simp
  ultimately show ?thesis
    using k d' True by (intro that [of "\<lparr>coord = c2, dir = d'\<rparr>" M "insert k R"])
      (simp_all only: Worker_iter_def job_env_def again_def world_inv_def Let_def split mr_world.simps mr_env.simps
        RequestTaskReply.simps option.case Task.case card_insert_disjoint, simp_all)
qed

lemma Worker_completes:
  assumes "world_inv M R w" "nMap + n - (card M + card R) < length ts"
  shows "\<exists>w'. Worker job_env ts w = Some w' \<and> world_inv {..<nMap} {..<n} w'"
  using assms
proof (induction ts arbitrary: M R w)
  case (Cons now ts)
  show ?case
  proof (cases "M = {..<nMap} \<and> R = {..<n}")
    case True
    with Cons.prems(1) have "coord_inv {..<nMap} {..<n} (coord w)" by (simp add: world_inv_def)
    then have "Worker_iter job_env now w = Finished w"
      by (simp add: Worker_iter_def coord_done)
    with True Cons.prems(1) show ?thesis by simp
  next
    case False
    obtain M' R' w' where w': "Worker_iter job_env now w = Again w'" "world_inv M' R' w'"
      "card M' + card R' = Suc (card M + card R)"
      by (rule Worker_iter_step [OF Cons.prems(1) False])
    have "M' \<subseteq> {..<nMap}" "R' \<subseteq> {..<n}" using w'(2) by (auto simp: world_inv_def coord_inv_def)
    then have "card M' \<le> nMap" "card R' \<le> n" 
      using card_mono [OF finite_lessThan, of M' nMap] card_mono [OF finite_lessThan, of R' n] by simp_all
    then have "nMap + n - (card M' + card R') < length ts" using w'(3) Cons.prems(2) by auto
    with Cons.IH [OF w'(2)] w'(1) show ?thesis by simp
  qed
qed simp

lemma start_inv: "world_inv {} {} \<lparr>coord = MakeCoordinator files n, dir = d0\<rparr>"
  by (simp add: world_inv_def coord_inv_def dir_inv_def MakeCoordinator_def wf_coord_def d0_distinct)

text \<open>The lines of all output files.\<close>

lemma output_lines:
  assumes "dir_inv M {..<n} d"
  shows "mset (concat (map (\<lambda>i. text_lines (the (map_of d (outname (int i))))) [0..<n])) =
    mset (text_lines (concat (chunks reducef intermediate)))"
proof -
  have nl: "\<forall>s \<in> set (chunks reducef kvs). last s = CHR 0x0A" for kvs
    by (auto simp: chunks_def out_line_def)
  have lines: "mset (text_lines (concat (chunks reducef kvs))) =
      (\<Sum>s \<in># mset (chunks reducef kvs). mset (text_lines s))" for kvs
    by (simp add: text_lines_concat [OF nl] mset_concat sum_mset_sum_list [symmetric] comp_def)
  have "mset (concat (map (\<lambda>i. text_lines (the (map_of d (outname (int i))))) [0..<n])) =
      mset (concat (map (\<lambda>i. text_lines (concat (chunks reducef (bucket n i intermediate)))) [0..<n]))"
    using assms by (intro mset_concat_cong) (simp add: dir_inv_def)
  also have "\<dots> = (\<Sum>i < n. \<Sum>s \<in># mset (chunks reducef (bucket n i intermediate)). mset (text_lines s))"
    by (simp add: mset_concat comp_def lines interv_sum_list_conv_sum_set_nat atLeast0LessThan)
  also have "\<dots> = (\<Sum>s \<in># (\<Sum>i < n. mset (chunks reducef (bucket n i intermediate))). mset (text_lines s))"
    by (rule sum_mset_UN)
  also have "\<dots> = mset (text_lines (concat (chunks reducef intermediate)))"
    by (simp add: chunks_buckets [OF n_pos] lines)
  finally show ?thesis .
qed

lemma sequential_output:
  assumes "key_sorter srt'"
  shows "mrsequential mapf reducef srt' files d0 = Some (concat (chunks reducef intermediate))"
proof -
  have "seq_map_loop mapf files d0 [] = Some intermediate"
    using seq_map_loop_spec [of files d0 content mapf "[]"] map_of_files by (simp add: intermediate_def)
  moreover have "reduce_loop reducef (srt' intermediate) 0 = chunks reducef intermediate"
    using reduce_loop_chunks [OF key_sorter.sorted_srt [OF assms], of reducef intermediate 0]
      chunks_mset [OF reducef_free key_sorter.mset_srt [OF assms]] by simp
  ultimately show ?thesis by (simp add: mrsequential_def)
qed

theorem job_output:
  assumes "nMap + n < length ts" "key_sorter srt'"
  shows "\<exists>w out. Worker job_env ts \<lparr>coord = MakeCoordinator files n, dir = d0\<rparr> = Some w \<and>
    Coordinator_Done (coord w) \<and> mrsequential mapf reducef srt' files d0 = Some out \<and>
    mset (concat (map (\<lambda>i. text_lines (the (map_of (dir w) (outname (int i))))) [0..<n])) = mset (text_lines out)"
proof -
  obtain w where w: "Worker job_env ts \<lparr>coord = MakeCoordinator files n, dir = d0\<rparr> = Some w"
    "world_inv {..<nMap} {..<n} w"
    using Worker_completes [OF start_inv, of ts] assms(1) by auto
  then have "coord_inv {..<nMap} {..<n} (coord w)" "dir_inv {..<nMap} {..<n} (dir w)"
    by (simp_all add: world_inv_def)
  then show ?thesis
    using w(1) sequential_output [OF assms(2)] output_lines coord_done by blast
qed

end

end
