(* ===== verification/MrApps.thy ===== *)
theory MrApps
  imports MrJob
begin

text \<open>
  The MapReduce applications of \<open>src/mrapps\<close>: word count, the indexer, the crash test and its twin
  that does not crash, and the early-exit test. Texts are read as sequences of ASCII characters, so
  that a rune is one character; which characters are letters is an argument (\<open>unicode.IsLetter\<close>).
  The order in which Go ranges over a map is arbitrary; the indexer's model takes the order of first
  occurrence. The random number \<open>maybeCrash\<close> draws is an argument and a crash is \<^term>\<open>None\<close>.
\<close>

section \<open>Strings\<close>

text \<open>\<open>strings.FieldsFunc\<close>: the maximal runs of characters that are not separators.\<close>

fun FieldsFunc_loop :: "(char \<Rightarrow> bool) \<Rightarrow> string \<Rightarrow> string \<Rightarrow> string list" where
  "FieldsFunc_loop sep [] cur = (if cur = [] then [] else [cur])"
| "FieldsFunc_loop sep (c # s) cur =
     (if sep c then (if cur = [] then FieldsFunc_loop sep s [] else cur # FieldsFunc_loop sep s [])
      else FieldsFunc_loop sep s (cur @ [c]))"

definition FieldsFunc :: "string \<Rightarrow> (char \<Rightarrow> bool) \<Rightarrow> string list" where
  "FieldsFunc s sep = FieldsFunc_loop sep s []"

fun Join :: "string list \<Rightarrow> string \<Rightarrow> string" where
  "Join [] sep = []"
| "Join [s] sep = s"
| "Join (s # t # ss) sep = s @ sep @ Join (t # ss) sep"

definition ascii_letter :: "char \<Rightarrow> bool" where
  "ascii_letter c \<longleftrightarrow> (let n = of_char c :: nat in 65 \<le> n \<and> n \<le> 90 \<or> 97 \<le> n \<and> n \<le> 122)"

definition Contains :: "string \<Rightarrow> string \<Rightarrow> bool" where
  "Contains s t \<longleftrightarrow> (\<exists>i \<in> {0..length s}. take (length t) (drop i s) = t)"

section \<open>wc.go\<close>

definition wc_Map :: "(char \<Rightarrow> bool) \<Rightarrow> string \<Rightarrow> string \<Rightarrow> KeyValue list" where
  "wc_Map IsLetter filename contents =
     map (\<lambda>w. \<lparr>Key = w, Value = ''1''\<rparr>) (FieldsFunc contents (\<lambda>r. \<not> IsLetter r))"

definition wc_Reduce :: "string \<Rightarrow> string list \<Rightarrow> string" where
  "wc_Reduce key vs = itoa (int (length vs))"

section \<open>indexer.go\<close>

definition indexer_Map :: "(char \<Rightarrow> bool) \<Rightarrow> string \<Rightarrow> string \<Rightarrow> KeyValue list" where
  "indexer_Map IsLetter document value =
     map (\<lambda>w. \<lparr>Key = w, Value = document\<rparr>) (remdups (FieldsFunc value (\<lambda>x. \<not> IsLetter x)))"

definition indexer_Reduce :: "string \<Rightarrow> string list \<Rightarrow> string" where
  "indexer_Reduce key vs = itoa (int (length vs)) @ '' '' @ Join (sort vs) '',''"

section \<open>crash.go and nocrash.go\<close>

definition crash_maybeCrash :: "int \<Rightarrow> unit option" where
  "crash_maybeCrash rr = (if rr < 330 then None else Some ())"

definition crash_Map :: "int \<Rightarrow> string \<Rightarrow> string \<Rightarrow> KeyValue list option" where
  "crash_Map rr filename contents = do {
     _ \<leftarrow> crash_maybeCrash rr;
     Some [\<lparr>Key = ''a'', Value = filename\<rparr>, \<lparr>Key = ''b'', Value = itoa (int (length filename))\<rparr>,
           \<lparr>Key = ''c'', Value = itoa (int (length contents))\<rparr>, \<lparr>Key = ''d'', Value = ''xyzzy''\<rparr>]
   }"

definition crash_Reduce :: "int \<Rightarrow> string \<Rightarrow> string list \<Rightarrow> string option" where
  "crash_Reduce rr key vs = do {
     _ \<leftarrow> crash_maybeCrash rr;
     let vv = sort vs;
     Some (Join vv '' '')
   }"

definition nocrash_Map :: "string \<Rightarrow> string \<Rightarrow> KeyValue list" where
  "nocrash_Map filename contents =
     [\<lparr>Key = ''a'', Value = filename\<rparr>, \<lparr>Key = ''b'', Value = itoa (int (length filename))\<rparr>,
      \<lparr>Key = ''c'', Value = itoa (int (length contents))\<rparr>, \<lparr>Key = ''d'', Value = ''xyzzy''\<rparr>]"

definition nocrash_Reduce :: "string \<Rightarrow> string list \<Rightarrow> string" where
  "nocrash_Reduce key vs = (let vv = sort vs in Join vv '' '')"

section \<open>early_exit.go\<close>

definition early_Map :: "string \<Rightarrow> string \<Rightarrow> KeyValue list" where
  "early_Map filename contents = [\<lparr>Key = filename, Value = ''1''\<rparr>]"

text \<open>The result and whether the task sleeps for three seconds first.\<close>

definition early_Reduce :: "string \<Rightarrow> string list \<Rightarrow> bool \<times> string" where
  "early_Reduce key vs = (Contains key ''sherlock'' \<or> Contains key ''tom'', itoa (int (length vs)))"

section \<open>The reduce functions do not depend on the order of the values\<close>

lemma sort_mset: "mset vs = mset ws \<Longrightarrow> sort vs = sort (ws :: 'a :: linorder list)"
  by (metis sorted_list_of_multiset_mset)

lemma wc_Reduce_free: "order_free wc_Reduce"
  by (auto simp: order_free_def wc_Reduce_def dest: mset_eq_length)

lemma indexer_Reduce_free: "order_free indexer_Reduce"
  unfolding order_free_def indexer_Reduce_def
proof (intro allI impI)
  fix vs ws :: "string list"
  assume "mset vs = mset ws"
  from mset_eq_length [OF this] sort_mset [OF this]
  show "itoa (int (length vs)) @ '' '' @ Join (sort vs) '','' = itoa (int (length ws)) @ '' '' @ Join (sort ws) '',''"
    by simp
qed

lemma nocrash_Reduce_free: "order_free nocrash_Reduce"
  by (auto simp: order_free_def nocrash_Reduce_def dest: sort_mset)

lemma early_Reduce_free: "order_free (\<lambda>k vs. snd (early_Reduce k vs))"
  by (auto simp: order_free_def early_Reduce_def dest: mset_eq_length)

lemma crash_is_nocrash:
  "crash_Map rr f c = (if rr < 330 then None else Some (nocrash_Map f c)) \<and>
   crash_Reduce rr k vs = (if rr < 330 then None else Some (nocrash_Reduce k vs))"
  by (simp add: crash_Map_def nocrash_Map_def crash_Reduce_def nocrash_Reduce_def crash_maybeCrash_def)

text \<open>The words \<open>FieldsFunc\<close> yields consist of letters and are not empty.\<close>

lemma FieldsFunc_loop_letters:
  assumes "\<forall>c \<in> set cur. \<not> sep c" "w \<in> set (FieldsFunc_loop sep s cur)"
  shows "w \<noteq> [] \<and> (\<forall>c \<in> set w. \<not> sep c)"
  using assms
proof (induction s arbitrary: cur)
  case (Cons c s)
  show ?case
  proof (cases "sep c")
    case True
    with Cons.prems(2) have "w = cur \<and> cur \<noteq> [] \<or> w \<in> set (FieldsFunc_loop sep s [])"
      by (simp split: if_splits)
    with Cons.IH [of "[]"] Cons.prems(1) show ?thesis by auto
  next
    case False
    with Cons.IH [of "cur @ [c]"] Cons.prems show ?thesis by simp
  qed
qed (simp split: if_splits)

lemma FieldsFunc_letters: "w \<in> set (FieldsFunc s sep) \<Longrightarrow> w \<noteq> [] \<and> (\<forall>c \<in> set w. \<not> sep c)"
  unfolding FieldsFunc_def by (rule FieldsFunc_loop_letters) simp_all

text \<open>No letter is lost: the words put together are the text without its separators.\<close>

lemma FieldsFunc_loop_concat: "concat (FieldsFunc_loop sep s cur) = cur @ filter (\<lambda>c. \<not> sep c) s"
  by (induction sep s cur rule: FieldsFunc_loop.induct) auto

lemma ascii_letter_small: "ascii_letter c \<Longrightarrow> of_char c < (128 :: nat)"
  by (auto simp: ascii_letter_def Let_def)

lemma wc_Map_valid: "kv \<in> set (wc_Map ascii_letter f t) \<Longrightarrow> ascii_kv kv"
  by (auto simp: wc_Map_def ascii_kv_def dest!: FieldsFunc_letters intro: ascii_letter_small)

text \<open>The count that \<open>wc\<close> prints for a word.\<close>

lemma wc_values:
  "length (values_of (concat (map (\<lambda>f. wc_Map L f (t f)) fs)) w) =
     sum_list (map (\<lambda>f. count_list (FieldsFunc (t f) (\<lambda>c. \<not> L c)) w) fs)"
proof (induction fs)
  case (Cons f fs)
  have "length (values_of (wc_Map L f (t f)) w) = count_list (FieldsFunc (t f) (\<lambda>c. \<not> L c)) w"
    unfolding values_of_def wc_Map_def count_list_eq_length_filter
    by (simp add: filter_map comp_def) (metis (mono_tags, lifting) filter_cong)
  with Cons show ?case by (simp add: values_of_def)
qed (simp add: values_of_def)

section \<open>A word-count job\<close>

definition wc_dir :: directory where
  "wc_dir = [(''a.txt'', ''to be or not to be''), (''b.txt'', ''be there, be!'')]"

interpretation wcj: mr_job ascii_kv json_Encode json_Decode "sort_key Key" zeros "wc_Map ascii_letter" wc_Reduce
  "[''a.txt'', ''b.txt'']" 3 wc_dir
proof
  show "order_free wc_Reduce" by (rule wc_Reduce_free)
  show "\<not> HasSuffix f (CHR ''-'' # itoa_nat i)" if "f \<in> fst ` set wc_dir" "i < 3" for f i
  proof -
    from that(1) have "CHR ''-'' \<notin> set f" by (auto simp: wc_dir_def)
    then show ?thesis by (auto simp: HasSuffix_append)
  qed
qed (auto simp: wc_dir_def wc_Map_valid)

end
