(* ===== verification/MrProps.thy ===== *)
theory MrProps
  imports MrApps
begin

text \<open>
  The properties of MapReduce: the job computes what the sequential program computes; the
  coordinator starts the reduces after the maps as long as no task is reported twice; and what two
  reports of one task do to its counters.
\<close>

section \<open>The job and the sequential program\<close>



section \<open>The coordinator\<close>

text \<open>
  C31. As long as every task is reported once, the coordinator hands out a reduce task only when
  every map task is completed, tells a worker that the job is done only when every map and every
  reduce task is completed, and \<open>Done\<close> holds exactly when every reduce task is completed.
\<close>

theorem reduces_after_maps:
  assumes "coord_reachable True files n c" "RequestTask now c = Some (c', reply)"
  shows "(rt_TaskType reply = ReduceTask \<longrightarrow> (\<forall>t \<in> set (MapTasksStatus c). status t = Completed)) \<and>
    (rt_TaskType reply = Done \<longrightarrow>
       (\<forall>t \<in> set (MapTasksStatus c) \<union> set (ReduceTasksStatus c). status t = Completed)) \<and>
    (Coordinator_Done c \<longleftrightarrow> (\<forall>t \<in> set (ReduceTasksStatus c). status t = Completed))"
proof -
  have inv: "wf_coord c" "counts_ok c" using coord_reachable_keeps [OF assms(1)] by auto
  have maps: "\<forall>t \<in> set (MapTasksStatus c). status t = Completed" if "length (MapInputFiles c) \<le> CompletedMaps c"
    using that inv completed_le [of "MapTasksStatus c"]
    by (simp add: completed_all [symmetric] wf_coord_def counts_ok_def)
  have reduces: "\<forall>t \<in> set (ReduceTasksStatus c). status t = Completed" if "\<not> CompletedReduces c < nReduce c"
    using that inv completed_le [of "ReduceTasksStatus c"]
    by (simp add: completed_all [symmetric] wf_coord_def counts_ok_def)
  have don: "Coordinator_Done c \<longleftrightarrow> (\<forall>t \<in> set (ReduceTasksStatus c). status t = Completed)"
    using inv by (simp add: Coordinator_Done_def completed_all [symmetric] wf_coord_def counts_ok_def)
  from inv(1) show ?thesis
    by (cases rule: RequestTask_cases [of c now])
       (use assms(2) maps reduces don in \<open>auto simp: zero_reply_def split: if_splits\<close>)
qed

text \<open>Runs given as sequences of requests (with their time) and reports.\<close>

fun coord_run :: "bool \<Rightarrow> (int + ReportTaskArgs) list \<Rightarrow> Coordinator \<Rightarrow> Coordinator option" where
  "coord_run once [] c = Some c"
| "coord_run once (Inl now # es) c = (case RequestTask now c of None \<Rightarrow> None | Some (c', _) \<Rightarrow> coord_run once es c')"
| "coord_run once (Inr args # es) c =
     (if ra_TaskType args \<in> {MapTask, ReduceTask} then
        (case go_index (getTasksForType (ra_TaskType args) c) (ra_TaskID args) of
           None \<Rightarrow> None
         | Some t \<Rightarrow> if status t = NotStarted \<or> once \<and> status t \<noteq> InProgress then None
                     else case ReportTask args c of None \<Rightarrow> None | Some c' \<Rightarrow> coord_run once es c')
      else None)"

lemma coord_run_sound:
  assumes "coord_run once es c = Some c'"
  shows "(coord_step once)\<^sup>*\<^sup>* c c'"
  using assms
proof (induction once es c rule: coord_run.induct)
  case (2 once now es c)
  then obtain c1 r where "RequestTask now c = Some (c1, r)" "(coord_step once)\<^sup>*\<^sup>* c1 c'"
    by (auto split: option.splits)
  then show ?case by (blast intro: converse_rtranclp_into_rtranclp coord_step.request)
next
  case (3 once args es c)
  then obtain t c1 where "ra_TaskType args \<in> {MapTask, ReduceTask}"
    "go_index (getTasksForType (ra_TaskType args) c) (ra_TaskID args) = Some t" "status t \<noteq> NotStarted"
    "once \<longrightarrow> status t = InProgress" "ReportTask args c = Some c1" "(coord_step once)\<^sup>*\<^sup>* c1 c'"
    by (auto split: option.splits if_splits)
  then show ?case by (blast intro: converse_rtranclp_into_rtranclp coord_step.report)
qed simp

lemma coord_run_reachable:
  assumes "case coord_run once es (MakeCoordinator files n) of None \<Rightarrow> False | Some c \<Rightarrow> P c"
  obtains c where "coord_reachable once files n c" "P c"
proof -
  from assms obtain c where c: "coord_run once es (MakeCoordinator files n) = Some c" "P c"
    by (auto split: option.splits)
  from coord_run_sound [OF c(1)] have "coord_reachable once files n c" by (simp add: coord_reachable_def)
  then show ?thesis using c(2) by (rule that)
qed

definition MapReport :: "int \<Rightarrow> ReportTaskArgs" where
  "MapReport i = \<lparr>ra_TaskID = i, ra_TaskType = MapTask\<rparr>"

definition ReduceReport :: "int \<Rightarrow> ReportTaskArgs" where
  "ReduceReport i = \<lparr>ra_TaskID = i, ra_TaskType = ReduceTask\<rparr>"

text \<open>
  When a task that timed out is given to a second worker and both workers report it, the
  coordinator counts it twice: with two map tasks it then hands out a reduce task while the other map
  task is still running, and with two reports of the only reduce task the counter passes \<open>nReduce\<close>
  and \<open>Done\<close> is false although every task is completed.
\<close>

theorem double_report_miscounts:
  "(\<exists>c now c' reply. coord_reachable False [''a'', ''b''] 1 c \<and> RequestTask now c = Some (c', reply) \<and>
      rt_TaskType reply = ReduceTask \<and> status (MapTasksStatus c ! 0) = InProgress) \<and>
   (\<exists>c. coord_reachable False [''a''] 1 c \<and> status (MapTasksStatus c ! 0) = Completed \<and>
      status (ReduceTasksStatus c ! 0) = Completed \<and> \<not> Coordinator_Done c)"
proof
  have "case coord_run False [Inl 0, Inl 1, Inr (MapReport 1), Inr (MapReport 1)] (MakeCoordinator [''a'', ''b''] 1) of
      None \<Rightarrow> False
    | Some c \<Rightarrow> (case RequestTask 2 c of None \<Rightarrow> False | Some (_, reply) \<Rightarrow> rt_TaskType reply = ReduceTask) \<and>
        status (MapTasksStatus c ! 0) = InProgress"
    by code_simp
  then obtain c where c: "coord_reachable False [''a'', ''b''] 1 c"
    "(case RequestTask 2 c of None \<Rightarrow> False | Some (_, reply) \<Rightarrow> rt_TaskType reply = ReduceTask) \<and>
      status (MapTasksStatus c ! 0) = InProgress"
    by (rule coord_run_reachable)
  then show "\<exists>c now c' reply. coord_reachable False [''a'', ''b''] 1 c \<and> RequestTask now c = Some (c', reply) \<and>
      rt_TaskType reply = ReduceTask \<and> status (MapTasksStatus c ! 0) = InProgress"
    by (auto split: option.splits)
next
  have "case coord_run False [Inl 0, Inr (MapReport 0), Inl 1, Inr (ReduceReport 0), Inr (ReduceReport 0)]
        (MakeCoordinator [''a''] 1) of
      None \<Rightarrow> False
    | Some c \<Rightarrow> status (MapTasksStatus c ! 0) = Completed \<and> status (ReduceTasksStatus c ! 0) = Completed \<and>
        \<not> Coordinator_Done c"
    by code_simp
  then show "\<exists>c. coord_reachable False [''a''] 1 c \<and> status (MapTasksStatus c ! 0) = Completed \<and>
      status (ReduceTasksStatus c ! 0) = Completed \<and> \<not> Coordinator_Done c"
    by (rule coord_run_reachable) blast
qed

theorem reduces_after_maps_witness:
  "\<exists>c c' reply. coord_reachable True [''a''] 1 c \<and> RequestTask 5 c = Some (c', reply) \<and>
     rt_TaskType reply = ReduceTask \<and> status (MapTasksStatus c ! 0) = Completed"
proof -
  have "case coord_run True [Inl 0, Inr (MapReport 0)] (MakeCoordinator [''a''] 1) of
      None \<Rightarrow> False
    | Some c \<Rightarrow> MapTasksStatus c \<noteq> [] \<and>
        (case RequestTask 5 c of None \<Rightarrow> False | Some (_, reply) \<Rightarrow> rt_TaskType reply = ReduceTask)"
    by code_simp
  then obtain c where c: "coord_reachable True [''a''] 1 c"
    "MapTasksStatus c \<noteq> [] \<and>
     (case RequestTask 5 c of None \<Rightarrow> False | Some (_, reply) \<Rightarrow> rt_TaskType reply = ReduceTask)"
    by (rule coord_run_reachable)
  then obtain c' reply where r: "RequestTask 5 c = Some (c', reply)" "rt_TaskType reply = ReduceTask"
    by (auto split: option.splits)
  have "MapTasksStatus c ! 0 \<in> set (MapTasksStatus c)" using c(2) by simp
  with reduces_after_maps [OF c(1) r(1)] r c(1) show ?thesis by blast
qed

end
