(* ===== verification/MrTest.thy ===== *)
theory MrTest
  imports MrProps
begin

text \<open>
  How the tests of MapReduce judge a job, \<open>src/mr/util.go\<close>: the output files are found, sorted together
  and compared with the sorted output of the sequential program. Starting the processes is left out;
  the commands \<open>find\<close>, \<open>sort\<close> and \<open>cmp\<close> are modelled by what they document: \<open>find\<close> prints one path per
  line in an order of its own (\<open>ord\<close>), \<open>sort\<close> prints the lines of all its files sorted. \<open>Fatalf\<close> is
  \<^term>\<open>None\<close>.
\<close>

section \<open>The commands\<close>

locale line_sorter =
  fixes srtl :: "string list \<Rightarrow> string list"
  assumes mset_srtl: "mset (srtl ls) = mset ls"
    and sorted_srtl: "sorted (srtl ls)"
begin

lemma srtl_determined: "mset xs = mset ys \<Longrightarrow> srtl xs = srtl ys"
  using properties_for_sort [of "srtl xs" ys] properties_for_sort [of "srtl ys" ys] mset_srtl sorted_srtl by metis

end

interpretation ls: line_sorter sort
  by unfold_locales simp_all

definition nl :: char where
  "nl = CHR 0x0A"





section \<open>util.go\<close>



fun Split_lines :: "string \<Rightarrow> string list" where
  "Split_lines [] = [[]]"
| "Split_lines (c # s) = (if c = nl then [] # Split_lines s
     else case Split_lines s of [] \<Rightarrow> [[c]] | l # ls \<Rightarrow> (c # l) # ls)"







text \<open>\<open>matches\<close> is the number of matches of the compiled pattern in a text.\<close>

definition countPatternFile :: "(string \<Rightarrow> nat) \<Rightarrow> string \<Rightarrow> directory \<Rightarrow> nat option" where
  "countPatternFile matches f d = map_option matches (map_of d f)"

fun countPattern :: "(string \<Rightarrow> nat) \<Rightarrow> string list \<Rightarrow> directory \<Rightarrow> nat option" where
  "countPattern matches [] d = Some 0"
| "countPattern matches (f # fs) d = do {
     k \<leftarrow> countPatternFile matches f d;
     n \<leftarrow> countPattern matches fs d;
     Some (k + n)
   }"

section \<open>Finding the files\<close>

lemma Split_lines_not_Nil [simp]: "Split_lines s \<noteq> []"
  by (induction s) (auto split: list.splits)











section \<open>A job passes its test\<close>






end
