(* ===== verification/GoParse.thy ===== *)
theory GoParse
  imports GoLib
begin

text \<open>
  Reading numbers back: \<open>strconv.Atoi\<close>, and \<open>fmt.Sscanf\<close> with a format that is a prefix followed by
  \<open>%d\<close>.
\<close>

text \<open>\<open>strconv.Atoi\<close>: an optional sign and decimal digits, within 64 bits.\<close>

definition is_digit :: "char \<Rightarrow> bool" where
  "is_digit c \<longleftrightarrow> (48 :: nat) \<le> of_char c \<and> of_char c \<le> (57 :: nat)"

definition parse_digits :: "string \<Rightarrow> int option" where
  "parse_digits s = (if s \<noteq> [] \<and> list_all is_digit s then Some (int (atoi s)) else None)"

definition Atoi :: "string \<Rightarrow> int option" where
  "Atoi s = do {
     v \<leftarrow> (case s of
            [] \<Rightarrow> None
          | c # ds \<Rightarrow> if c = CHR ''-'' then map_option uminus (parse_digits ds)
                      else if c = CHR ''+'' then parse_digits ds else parse_digits s);
     if - (2 ^ 63) \<le> v \<and> v < 2 ^ 63 then Some v else None
   }"

text \<open>\<open>Sscanf(name, pre + "%d", &x)\<close>: leading spaces are skipped and what follows the digits is not read.\<close>

definition scan_int :: "string \<Rightarrow> int option" where
  "scan_int s =
     (case dropWhile (\<lambda>c. c = CHR '' '') s of
        [] \<Rightarrow> None
      | c # r \<Rightarrow> Atoi (if c = CHR ''-'' \<or> c = CHR ''+'' then c # takeWhile is_digit r else takeWhile is_digit (c # r)))"

definition Sscanf_d :: "string \<Rightarrow> string \<Rightarrow> int option" where
  "Sscanf_d pre name = (if take (length pre) name = pre then scan_int (drop (length pre) name) else None)"

lemma is_digit_digit: "d < 10 \<Longrightarrow> is_digit (digit d)"
  by (simp add: is_digit_def)

lemma itoa_nat_digits: "list_all is_digit (itoa_nat n)"
proof (induction n rule: itoa_nat.induct)
  case (1 n)
  then show ?case by (subst itoa_nat.simps) (auto simp: is_digit_digit)
qed

lemma Atoi_itoa:
  assumes "n < 2 ^ 63"
  shows "Atoi (itoa_nat n) = Some (int n)"
proof -
  obtain c cs where s: "itoa_nat n = c # cs" by (cases "itoa_nat n") simp_all
  then have d: "is_digit c" using itoa_nat_digits [of n] by simp
  have "c \<noteq> CHR ''-''" "c \<noteq> CHR ''+''" using d by (auto simp: is_digit_def)
  moreover have "parse_digits (itoa_nat n) = Some (int n)"
    by (simp add: parse_digits_def itoa_nat_digits atoi_itoa_nat)
  moreover have "int n < 2 ^ 63" using assms by simp
  ultimately show ?thesis using s by (simp add: Atoi_def)
qed

lemma Sscanf_d_itoa:
  assumes "n < 2 ^ 63"
  shows "Sscanf_d pre (pre @ itoa_nat n) = Some (int n)"
proof -
  obtain c cs where s: "itoa_nat n = c # cs" by (cases "itoa_nat n") simp_all
  then have d: "is_digit c" "list_all is_digit cs" using itoa_nat_digits [of n] by simp_all
  have "c \<noteq> CHR ''-''" "c \<noteq> CHR ''+''" "c \<noteq> CHR '' ''" using d(1) by (auto simp: is_digit_def)
  moreover have "takeWhile is_digit (c # cs) = c # cs" using d by (simp add: list_all_iff)
  ultimately show ?thesis using Atoi_itoa [OF assms] by (simp add: Sscanf_d_def scan_int_def s)
qed

end
