(* ===== verification/MrTiming.thy ===== *)
theory MrTiming
  imports MrApps GoParse
begin

text \<open>
  The MapReduce applications that measure the workers: \<open>src/mrapps/mtiming.go\<close> and \<open>rtiming.go\<close> count the
  tasks that run in parallel, \<open>jobcount.go\<close> how often a map ran. They meet in the directory, an
  association list whose order stands for that of the names read. Process ids, the time and which
  processes are alive are arguments; an error of the file system is \<^term>\<open>None\<close>.
\<close>

section \<open>nparallel\<close>

definition worker_file :: "string \<Rightarrow> int \<Rightarrow> string" where
  "worker_file phase pid = ''mr-worker-'' @ phase @ ''-'' @ itoa pid"

definition worker_pid :: "string \<Rightarrow> string \<Rightarrow> int option" where
  "worker_pid phase name = Sscanf_d (''mr-worker-'' @ phase @ ''-'') name"

text \<open>Up to the sleep of one second, and after it.\<close>

definition nparallel_enter :: "string \<Rightarrow> int \<Rightarrow> (int \<Rightarrow> bool) \<Rightarrow> directory \<Rightarrow> directory \<times> nat" where
  "nparallel_enter phase pid alive d =
     (let d1 = AList.update (worker_file phase pid) ''x'' d;
          names = take 1000000 (map fst d1)
      in (d1, length (filter (\<lambda>name. case worker_pid phase name of Some xpid \<Rightarrow> alive xpid | None \<Rightarrow> False) names)))"

definition nparallel_leave :: "string \<Rightarrow> int \<Rightarrow> directory \<Rightarrow> directory option" where
  "nparallel_leave phase pid d =
     (if map_of d (worker_file phase pid) = None then None else Some (AList.delete (worker_file phase pid) d))"

section \<open>mtiming.go and rtiming.go\<close>

text \<open>\<open>ts\<close> is the printed time and \<open>n\<close> the result of \<open>nparallel\<close>.\<close>

definition mtiming_Map :: "string \<Rightarrow> int \<Rightarrow> nat \<Rightarrow> KeyValue list" where
  "mtiming_Map ts pid n =
     [\<lparr>Key = ''times-'' @ itoa pid, Value = ts\<rparr>, \<lparr>Key = ''parallel-'' @ itoa pid, Value = itoa (int n)\<rparr>]"

definition mtiming_Reduce :: "string \<Rightarrow> string list \<Rightarrow> string" where
  "mtiming_Reduce key vs = (let vv = sort vs in Join vv '' '')"

definition rtiming_Map :: "string \<Rightarrow> string \<Rightarrow> KeyValue list" where
  "rtiming_Map filename contents = map (\<lambda>c. \<lparr>Key = [c], Value = ''1''\<rparr>) ''abcdefghij''"

definition rtiming_Reduce :: "nat \<Rightarrow> string \<Rightarrow> string list \<Rightarrow> string" where
  "rtiming_Reduce n key vs = itoa (int n)"

section \<open>jobcount.go\<close>

definition jobcount_file :: "int \<Rightarrow> nat \<Rightarrow> string" where
  "jobcount_file me k = ''mr-worker-jobcount-'' @ itoa me @ ''-'' @ itoa (int k)"

text \<open>The number is the variable \<open>count\<close> of the process.\<close>

definition jobcount_Map :: "int \<Rightarrow> nat \<times> directory \<Rightarrow> (nat \<times> directory) \<times> KeyValue list" where
  "jobcount_Map me st =
     (case st of (k, d) \<Rightarrow>
        ((k + 1, AList.update (jobcount_file me k) ''x'' d), [\<lparr>Key = ''a'', Value = ''x''\<rparr>]))"

definition is_jobcount :: "string \<Rightarrow> bool" where
  "is_jobcount f \<longleftrightarrow> take (length ''mr-worker-jobcount'') f = ''mr-worker-jobcount''"

definition jobcount_Reduce :: "directory \<Rightarrow> string \<Rightarrow> string list \<Rightarrow> string" where
  "jobcount_Reduce d key vs = itoa (int (length (filter is_jobcount (map fst d))))"

section \<open>Workers over time\<close>

text \<open>
  The directory, the processes that are alive and those that are inside \<open>nparallel\<close> of one phase. A
  process that crashes leaves its file behind; the system does not give its number to a new process
  while that file is there. The last component collects what the calls counted, with who was inside.
\<close>

record timing =
  tm_dir :: directory
  tm_alive :: "int set"
  tm_inside :: "int set"
  tm_counts :: "(nat \<times> int set) list"

inductive tstep :: "string \<Rightarrow> timing \<Rightarrow> timing \<Rightarrow> bool" for phase where
  spawn: "0 \<le> pid \<Longrightarrow> pid < 2 ^ 63 \<Longrightarrow> map_of (tm_dir s) (worker_file phase pid) = None \<Longrightarrow>
    tstep phase s (s\<lparr>tm_alive := insert pid (tm_alive s)\<rparr>)"
| enter: "pid \<in> tm_alive s \<Longrightarrow> pid \<notin> tm_inside s \<Longrightarrow> length (tm_dir s) < 1000000 \<Longrightarrow>
    nparallel_enter phase pid (\<lambda>p. p \<in> tm_alive s) (tm_dir s) = (d, n) \<Longrightarrow>
    tstep phase s (s\<lparr>tm_dir := d, tm_inside := insert pid (tm_inside s), tm_counts := (n, insert pid (tm_inside s)) # tm_counts s\<rparr>)"
| leave: "pid \<in> tm_inside s \<Longrightarrow> nparallel_leave phase pid (tm_dir s) = Some d \<Longrightarrow>
    tstep phase s (s\<lparr>tm_dir := d, tm_inside := tm_inside s - {pid}\<rparr>)"
| crash: "tstep phase s (s\<lparr>tm_alive := tm_alive s - {pid}, tm_inside := tm_inside s - {pid}\<rparr>)"
| others: "worker_pid phase f = None \<Longrightarrow> tstep phase s (s\<lparr>tm_dir := AList.update f c (tm_dir s)\<rparr>)"
| removed: "worker_pid phase f = None \<Longrightarrow> tstep phase s (s\<lparr>tm_dir := AList.delete f (tm_dir s)\<rparr>)"

lemma worker_file_inject: "0 \<le> p \<Longrightarrow> 0 \<le> q \<Longrightarrow> worker_file phase p = worker_file phase q \<longleftrightarrow> p = q"
  by (simp add: worker_file_def itoa_def eq_nat_nat_iff)

lemma worker_pid_file: "0 \<le> p \<Longrightarrow> p < 2 ^ 63 \<Longrightarrow> worker_pid phase (worker_file phase p) = Some p"
  using Sscanf_d_itoa [of "nat p" "''mr-worker-'' @ phase @ ''-''"]
  by (simp add: worker_pid_def worker_file_def itoa_def nat_less_iff)

definition timing_ok :: "string \<Rightarrow> timing \<Rightarrow> bool" where
  "timing_ok phase s \<longleftrightarrow> distinct (map fst (tm_dir s)) \<and> tm_inside s \<subseteq> tm_alive s \<and> tm_alive s \<subseteq> {0..<2 ^ 63} \<and>
     (\<forall>f p. f \<in> fst ` set (tm_dir s) \<longrightarrow> worker_pid phase f = Some p \<longrightarrow> f = worker_file phase p) \<and>
     (\<forall>p \<in> tm_alive s. worker_file phase p \<in> fst ` set (tm_dir s) \<longleftrightarrow> p \<in> tm_inside s) \<and>
     (\<forall>(n, I) \<in> set (tm_counts s). n = card I)"

lemma nparallel_counts:
  assumes ok: "timing_ok phase s" and p: "pid \<in> tm_alive s" "pid \<notin> tm_inside s" and len: "length (tm_dir s) < 1000000"
    and e: "nparallel_enter phase pid (\<lambda>p. p \<in> tm_alive s) (tm_dir s) = (d, n)"
  shows "d = AList.update (worker_file phase pid) ''x'' (tm_dir s) \<and> n = card (insert pid (tm_inside s))"
proof -
  let ?d = "AList.update (worker_file phase pid) ''x'' (tm_dir s)"
  let ?P = "\<lambda>name. case worker_pid phase name of Some xpid \<Rightarrow> xpid \<in> tm_alive s | None \<Rightarrow> False"
  have range: "0 \<le> q \<and> q < 2 ^ 63" if "q \<in> tm_alive s" for q using ok that by (auto simp: timing_ok_def)
  have dom: "fst ` set ?d = insert (worker_file phase pid) (fst ` set (tm_dir s))" by (simp add: dom_update)
  have "worker_file phase pid \<notin> fst ` set (tm_dir s)" using ok p by (auto simp: timing_ok_def)
  then have "length ?d = Suc (length (tm_dir s))" by (simp add: AList_update_new)
  then have all: "take 1000000 (map fst ?d) = map fst ?d" using len by simp
  have "f \<in> set (filter ?P (map fst ?d)) \<longleftrightarrow> f \<in> worker_file phase ` insert pid (tm_inside s)" for f
  proof
    assume "f \<in> set (filter ?P (map fst ?d))"
    then obtain q where q: "f \<in> fst ` set ?d" "worker_pid phase f = Some q" "q \<in> tm_alive s" by (auto split: option.splits)
    show "f \<in> worker_file phase ` insert pid (tm_inside s)"
    proof (cases "f = worker_file phase pid")
      case False
      then have f: "f \<in> fst ` set (tm_dir s)" using q(1) dom by simp
      then have "f = worker_file phase q" using ok q(2) by (simp add: timing_ok_def)
      with f q(3) ok show ?thesis by (simp add: timing_ok_def)
    qed simp
  next
    assume "f \<in> worker_file phase ` insert pid (tm_inside s)"
    then obtain q where q: "f = worker_file phase q" "q = pid \<or> q \<in> tm_inside s" by auto
    then have al: "q \<in> tm_alive s" using ok p(1) by (auto simp: timing_ok_def)
    then have "worker_pid phase f = Some q" using worker_pid_file range q(1) by simp
    moreover have "f \<in> fst ` set ?d" using q ok al unfolding dom timing_ok_def by auto
    ultimately show "f \<in> set (filter ?P (map fst ?d))" using al by simp
  qed
  then have "set (filter ?P (map fst ?d)) = worker_file phase ` insert pid (tm_inside s)" by blast
  moreover have "distinct (filter ?P (map fst ?d))" using ok by (simp add: timing_ok_def distinct_update)
  moreover have "inj_on (worker_file phase) (insert pid (tm_inside s))"
    using ok p(1) range worker_file_inject [of _ _ phase] by (auto simp: inj_on_def timing_ok_def subset_iff)
  ultimately have "length (filter ?P (map fst ?d)) = card (insert pid (tm_inside s))"
    by (metis card_image distinct_card)
  moreover have "d = ?d \<and> n = length (filter ?P (map fst ?d))"
    using e unfolding nparallel_enter_def Let_def all prod.inject by blast
  ultimately show ?thesis by blast
qed

lemma tstep_ok: "tstep phase s s' \<Longrightarrow> timing_ok phase s \<Longrightarrow> timing_ok phase s'"
proof (induction rule: tstep.induct)
  case (spawn pid s)
  then show ?case by (auto simp: timing_ok_def map_of_eq_None_iff)
next
  case (enter pid s d n)
  note c = nparallel_counts [OF enter.prems enter.hyps(1-4)]
  have range: "0 \<le> q \<and> q < 2 ^ 63" if "q \<in> tm_alive s" for q using enter.prems that by (auto simp: timing_ok_def)
  have "fst ` set d = insert (worker_file phase pid) (fst ` set (tm_dir s))" using c by (simp add: dom_update)
  moreover have "worker_pid phase (worker_file phase pid) = Some pid" using worker_pid_file range enter.hyps(1) by simp
  moreover have "worker_file phase q = worker_file phase pid \<longleftrightarrow> q = pid" if "q \<in> tm_alive s" for q
    using worker_file_inject range that enter.hyps(1) by simp
  ultimately show ?case using enter.prems enter.hyps(1) c by (auto simp: timing_ok_def distinct_update)
next
  case (leave pid s d)
  have range: "0 \<le> q" if "q \<in> tm_alive s" for q using leave.prems that by (auto simp: timing_ok_def)
  have "d = AList.delete (worker_file phase pid) (tm_dir s)" using leave.hyps(2) by (simp add: nparallel_leave_def split: if_splits)
  then have "fst ` set d = fst ` set (tm_dir s) - {worker_file phase pid}" "distinct (map fst d)"
    using leave.prems by (simp_all add: fst_delete timing_ok_def distinct_delete)
  moreover have "worker_file phase q = worker_file phase pid \<longleftrightarrow> q = pid" if "q \<in> tm_alive s" for q
    using worker_file_inject range that leave by (auto simp: timing_ok_def)
  ultimately show ?case using leave.prems by (auto simp: timing_ok_def)
next
  case (crash s pid)
  then show ?case by (auto simp: timing_ok_def)
next
  case (others f s c)
  have "worker_file phase q \<noteq> f" if "q \<in> tm_alive s" for q
    using others worker_pid_file [of q phase] that by (auto simp: timing_ok_def)
  with others show ?case by (auto simp: timing_ok_def dom_update distinct_update)
next
  case (removed f s)
  have "worker_file phase q \<noteq> f" if "q \<in> tm_alive s" for q
    using removed worker_pid_file [of q phase] that by (auto simp: timing_ok_def)
  with removed show ?case by (auto simp: timing_ok_def distinct_delete fst_delete)
qed

definition timing_start :: timing where
  "timing_start = \<lparr>tm_dir = [], tm_alive = {}, tm_inside = {}, tm_counts = []\<rparr>"

text \<open>
  What \<open>nparallel\<close> returns is the number of workers inside it at that moment, the caller included,
  whatever workers start, leave and crash, and whatever other files come and go.
\<close>

theorem nparallel_exact:
  assumes "(tstep phase)\<^sup>*\<^sup>* timing_start s" "(n, I) \<in> set (tm_counts s)"
  shows "n = card I"
proof -
  have "timing_ok phase s" using assms(1)
  proof (induction rule: rtranclp_induct)
    case base
    show ?case by (simp add: timing_start_def timing_ok_def)
  next
    case (step t u)
    from tstep_ok [OF step.hyps(2) step.IH] show ?case .
  qed
  with assms(2) show ?thesis by (auto simp: timing_ok_def)
qed

text \<open>
  \<open>jobcount\<close> counts every map: after any maps of any processes, each with its own counter, the reduce
  returns their number, unless a file of that name was there before.
\<close>

fun jobcount_run :: "int list \<Rightarrow> (int \<Rightarrow> nat) \<Rightarrow> directory \<Rightarrow> directory" where
  "jobcount_run [] cnt d = d"
| "jobcount_run (pid # pids) cnt d =
     (case jobcount_Map pid (cnt pid, d) of ((k, d1), _) \<Rightarrow> jobcount_run pids (cnt(pid := k)) d1)"

lemma jobcount_file_inject: "0 \<le> p \<Longrightarrow> 0 \<le> q \<Longrightarrow> jobcount_file p i = jobcount_file q j \<longleftrightarrow> p = q \<and> i = j"
  using append_Cons_eq_iff [of "CHR ''-''" "itoa_nat (nat p)" "itoa_nat i" "itoa_nat (nat q)" "itoa_nat j"]
  by (auto simp: jobcount_file_def itoa_def itoa_nat_no_dash eq_nat_nat_iff)

theorem jobcount_exact:
  assumes "\<forall>p \<in> set pids. 0 \<le> p" "\<forall>f \<in> fst ` set d. \<not> is_jobcount f"
  shows "jobcount_Reduce (jobcount_run pids (\<lambda>_. 0) d) key vs = itoa (int (length pids))"
proof -
  have "length (filter is_jobcount (map fst (jobcount_run pids cnt e))) = length (filter is_jobcount (map fst e)) + length pids"
    if "\<forall>p \<in> set pids. 0 \<le> p" "\<forall>p i. 0 \<le> p \<longrightarrow> cnt p \<le> i \<longrightarrow> jobcount_file p i \<notin> fst ` set e" for cnt e
    using that
  proof (induction pids arbitrary: cnt e)
    case (Cons p ps)
    have new: "AList.update (jobcount_file p (cnt p)) ''x'' e = e @ [(jobcount_file p (cnt p), ''x'')]"
      using Cons.prems by (intro AList_update_new) auto
    have step: "\<forall>q i. 0 \<le> q \<longrightarrow> (cnt(p := cnt p + 1)) q \<le> i \<longrightarrow> jobcount_file q i \<notin> fst ` set (e @ [(jobcount_file p (cnt p), ''x'')])"
      using Cons.prems jobcount_file_inject [of _ p] by (auto split: if_splits)
    have "is_jobcount (jobcount_file p (cnt p))" by (simp add: is_jobcount_def jobcount_file_def)
    then show ?case using Cons.IH [OF _ step] Cons.prems(1) by (simp add: jobcount_Map_def new fun_upd_def)
  qed simp
  moreover have "is_jobcount (jobcount_file p i)" for p i by (simp add: is_jobcount_def jobcount_file_def)
  ultimately show ?thesis using assms by (fastforce simp: jobcount_Reduce_def filter_empty_conv)
qed

end
