(* ===== verification/LabRpcInv.thy ===== *)
theory LabRpcInv
  imports LabRpc
begin

text \<open>
  What the simulated network guarantees: the handler of a request runs at most once, the handlers of
  a server run one after the other, and a caller that is told its call succeeded holds the reply of
  that one run.
\<close>

text \<open>Serving a sequence of requests on one server.\<close>

fun serve_reqs ::
  "('v \<Rightarrow> string) \<Rightarrow> (string \<Rightarrow> 'v option) \<Rightarrow> reqMsg list \<Rightarrow> ('s, 'v) Server \<Rightarrow>
   (('s, 'v) Server \<times> replyMsg list) option" where
  "serve_reqs enc dec [] rs = Some (rs, [])"
| "serve_reqs enc dec (r # rest) rs = do {
     (rs1, rep) \<leftarrow> Server_dispatch enc dec r rs;
     (rs2, reps) \<leftarrow> serve_reqs enc dec rest rs1;
     Some (rs2, rep # reps)
   }"

lemma serve_reqs_append:
  "serve_reqs enc dec (xs @ [r]) rs = do {
     (rs1, reps) \<leftarrow> serve_reqs enc dec xs rs;
     (rs2, rep) \<leftarrow> Server_dispatch enc dec r rs1;
     Some (rs2, reps @ [rep])
   }"
proof (induction xs arbitrary: rs)
  case Nil
  show ?case by (cases "Server_dispatch enc dec r rs") auto
next
  case (Cons x xs)
  then show ?case
    by (cases "Server_dispatch enc dec x rs")
       (auto simp: Option.bind_eq_Some_conv split: Option.bind_splits)
qed

lemma serve_reqs_count:
  assumes "serve_reqs enc dec rqs rs = Some (rs', reps)"
  shows "srv_count rs' = srv_count rs + length rqs \<and> length reps = length rqs"
  using assms
proof (induction rqs arbitrary: rs reps)
  case (Cons r rqs)
  then obtain rs1 rep reps' where 1: "Server_dispatch enc dec r rs = Some (rs1, rep)"
    "serve_reqs enc dec rqs rs1 = Some (rs', reps')" "reps = rep # reps'"
    by (auto simp: bind_Some_iff)
  have "srv_count rs1 = srv_count rs + 1"
    using 1(1) by (auto simp: Server_dispatch_def bind_Some_iff Let_def case_prod_beta split: option.splits)
  with Cons.IH [OF 1(2)] 1(3) show ?case by simp
qed simp

text \<open>The server a request's handler has run on.\<close>

definition ran_at :: "rpc \<Rightarrow> nat option" where
  "ran_at r = (case (ran r, info r) of (Some _, Some (_, a, _, _)) \<Rightarrow> Some a | _ \<Rightarrow> None)"

type_synonym view = "reqMsg \<times> replyMsg option \<times> nat option"

definition view :: "rpc \<Rightarrow> view" where
  "view r = (req r, ran r, ran_at r)"

text \<open>The runs on server \<open>a\<close>, put in order, lead from \<open>s0\<close> to \<open>s\<close>.\<close>

definition linear ::
  "('v \<Rightarrow> string) \<Rightarrow> (string \<Rightarrow> 'v option) \<Rightarrow> view list \<Rightarrow> nat \<Rightarrow> ('s, 'v) Server \<Rightarrow> ('s, 'v) Server \<Rightarrow> bool" where
  "linear enc dec vs a s0 s \<longleftrightarrow> (\<exists>order. distinct order \<and>
     set order = {i. i < length vs \<and> snd (snd (vs ! i)) = Some a} \<and>
     serve_reqs enc dec (map (\<lambda>i. fst (vs ! i)) order) s0 = Some (s, map (\<lambda>i. the (fst (snd (vs ! i)))) order))"

text \<open>Where a request is in its life and what is known of it.\<close>

definition rpc_ok :: "rpc \<Rightarrow> bool" where
  "rpc_ok r \<longleftrightarrow>
     (ran r \<noteq> None \<longrightarrow> info r \<noteq> None) \<and>
     (case ph r of
        Queued \<Rightarrow> info r = None
      | Running \<Rightarrow> info r \<noteq> None
      | Delayed rep \<Rightarrow> ran r = Some rep
      | Answered rep \<Rightarrow> rep = failed \<or> ran r = Some rep)"

definition net_inv ::
  "('v \<Rightarrow> string) \<Rightarrow> (string \<Rightarrow> 'v option) \<Rightarrow> ('s, 'v) Server list \<Rightarrow> ('s, 'v) rpc_world \<Rightarrow> bool" where
  "net_inv enc dec inits w \<longleftrightarrow>
     length (heap w) = length inits \<and> net_count (net w) = of_nat (length (rpcs w)) \<and>
     (\<forall>r \<in> set (rpcs w). rpc_ok r \<and> (\<forall>a. ran_at r = Some a \<longrightarrow> a < length inits)) \<and>
     (\<forall>a < length inits. linear enc dec (map view (rpcs w)) a (inits ! a) (heap w ! a))"

fun new_servers :: "('s, 'v) net_event list \<Rightarrow> ('s, 'v) Server list" where
  "new_servers [] = []"
| "new_servers (NewServer svcs # es) = fold AddService svcs MakeServer # new_servers es"
| "new_servers (_ # es) = new_servers es"

section \<open>One request changes\<close>

lemma linear_cong:
  assumes "linear enc dec vs a s0 s"
    "\<And>i. i < length vs \<Longrightarrow> snd (snd (vs ! i)) = Some a \<Longrightarrow> i < length vs' \<and> vs' ! i = vs ! i"
    "\<And>i. i < length vs' \<Longrightarrow> snd (snd (vs' ! i)) = Some a \<Longrightarrow> i < length vs \<and> vs ! i = vs' ! i"
  shows "linear enc dec vs' a s0 s"
proof -
  obtain order where o: "distinct order" "set order = {i. i < length vs \<and> snd (snd (vs ! i)) = Some a}"
    "serve_reqs enc dec (map (\<lambda>i. fst (vs ! i)) order) s0 = Some (s, map (\<lambda>i. the (fst (snd (vs ! i)))) order)"
    using assms(1) unfolding linear_def by blast
  have nth: "vs' ! i = vs ! i" if "i \<in> set order" for i using that o(2) assms(2) by auto
  have "set order = {i. i < length vs' \<and> snd (snd (vs' ! i)) = Some a}"
    unfolding o(2)
  proof (rule Collect_cong)
    show "i < length vs \<and> snd (snd (vs ! i)) = Some a \<longleftrightarrow> i < length vs' \<and> snd (snd (vs' ! i)) = Some a" for i
      using assms(2,3) [of i] by auto
  qed
  moreover have "serve_reqs enc dec (map (\<lambda>i. fst (vs' ! i)) order) s0 =
      Some (s, map (\<lambda>i. the (fst (snd (vs' ! i)))) order)"
  proof -
    have "map (\<lambda>i. fst (vs' ! i)) order = map (\<lambda>i. fst (vs ! i)) order"
      "map (\<lambda>i. the (fst (snd (vs' ! i)))) order = map (\<lambda>i. the (fst (snd (vs ! i)))) order"
      using nth by simp_all
    then show ?thesis using o(3) by (simp only:)
  qed
  ultimately show ?thesis unfolding linear_def using o(1) by blast
qed

lemma linear_append:
  assumes "linear enc dec vs a s0 s" "snd (snd v) \<noteq> Some a"
  shows "linear enc dec (vs @ [v]) a s0 s"
  using assms(1) by (rule linear_cong) (use assms(2) in \<open>auto simp: nth_append less_Suc_eq split: if_splits\<close>)

lemma linear_other:
  assumes "linear enc dec vs a s0 s" "i < length vs" "snd (snd (vs ! i)) = None" "snd (snd v) \<noteq> Some a"
  shows "linear enc dec (vs[i := v]) a s0 s"
  using assms(1) by (rule linear_cong) (use assms(2-4) in \<open>auto simp: nth_list_update split: if_splits\<close>)

lemma linear_run:
  assumes "linear enc dec vs a s0 s" "i < length vs" "vs ! i = (r, rp, None)"
    "Server_dispatch enc dec r s = Some (s', rep)"
  shows "linear enc dec (vs[i := (r, Some rep, Some a)]) a s0 s'"
proof -
  let ?vs = "vs[i := (r, Some rep, Some a)]"
  obtain order where o: "distinct order" "set order = {i. i < length vs \<and> snd (snd (vs ! i)) = Some a}"
    "serve_reqs enc dec (map (\<lambda>i. fst (vs ! i)) order) s0 = Some (s, map (\<lambda>i. the (fst (snd (vs ! i)))) order)"
    using assms(1) unfolding linear_def by blast
  have i: "i \<notin> set order" using o(2) assms(3) by auto
  have nth: "?vs ! j = vs ! j" if "j \<in> set order" for j
    using that i by (cases "j = i") auto
  have "map (\<lambda>j. fst (?vs ! j)) (order @ [i]) = map (\<lambda>j. fst (vs ! j)) order @ [r]"
    "map (\<lambda>j. the (fst (snd (?vs ! j)))) (order @ [i]) = map (\<lambda>j. the (fst (snd (vs ! j)))) order @ [rep]"
    using nth assms(2) by simp_all
  then have "serve_reqs enc dec (map (\<lambda>j. fst (?vs ! j)) (order @ [i])) s0 =
      Some (s', map (\<lambda>j. the (fst (snd (?vs ! j)))) (order @ [i]))"
    using o(3) assms(4) by (simp only: serve_reqs_append) simp
  moreover have "set (order @ [i]) = {j. j < length ?vs \<and> snd (snd (?vs ! j)) = Some a}"
    using o(2) assms(2) by (auto simp: nth_list_update)
  moreover have "distinct (order @ [i])" using o(1) i by simp
  ultimately show ?thesis unfolding linear_def by blast
qed

text \<open>A change that does not run a handler.\<close>

lemma net_inv_upd:
  assumes "net_inv enc dec inits w" "i < length (rpcs w)" "rpc_ok r" "view r = view (rpcs w ! i)"
    "net_count rn = net_count (net w)"
  shows "net_inv enc dec inits (upd_rpc i r (w\<lparr>net := rn\<rparr>))"
proof -
  have eq: "map view ((rpcs w)[i := r]) = map view (rpcs w)"
    by (metis assms(4) list_update_id map_update)
  have "ran_at r = ran_at (rpcs w ! i)" using assms(4) by (simp add: view_def)
  moreover have "rpcs w ! i \<in> set (rpcs w)" using assms(2) by simp
  ultimately have "\<forall>r' \<in> set ((rpcs w)[i := r]). rpc_ok r' \<and> (\<forall>a. ran_at r' = Some a \<longrightarrow> a < length inits)"
    using assms(1,3) set_update_subset_insert [of "rpcs w" i r] unfolding net_inv_def by (metis insertE subsetD)
  with assms(1,5) show ?thesis unfolding net_inv_def upd_rpc_def by (simp add: eq)
qed

section \<open>Every event\<close>

lemma administer_count: "administer op rn = Some rn' \<Longrightarrow> net_count rn' = net_count rn"
  by (cases op)
     (auto simp: Reliable_def LongReordering_def LongDelays_def MakeEnd_def DeleteEnd_def AddServer_def
       DeleteServer_def Connect_def Enable_def Cleanup_def Let_def split: option.splits)

lemma begin_ok:
  assumes "rpc_ok r" "ph r = Queued"
  shows "rpc_ok (processReq_begin rnd rn r) \<and> view (processReq_begin rnd rn r) = view r"
  using assms unfolding processReq_begin_def readEndnameInfo_def
  by (auto simp: rpc_ok_def view_def ran_at_def split: option.splits bool.splits)

lemma timer_ok:
  assumes "rpc_ok r"
  shows "rpc_ok (processReq_timer rn r) \<and> view (processReq_timer rn r) = view r"
  using assms by (auto simp: processReq_timer_def rpc_ok_def view_def ran_at_def split: option.splits)

lemma finish_ok:
  assumes "rpc_ok r" "processReq_finish rnd1 rnd2 rn r = (rn', r')"
  shows "rpc_ok r' \<and> view r' = view r \<and> net_count rn' = net_count rn"
  using assms
  by (auto simp: processReq_finish_def rpc_ok_def view_def ran_at_def sent_def split: option.splits if_splits prod.splits)

lemma handler_inv:
  assumes "net_inv enc dec inits w" "net_exec enc dec (Handler i) w = Some w'"
  shows "net_inv enc dec inits w'"
proof -
  obtain sn a rel lr rs rep where h: "i < length (rpcs w)" "ran (rpcs w ! i) = None"
    "info (rpcs w ! i) = Some (sn, a, rel, lr)" "a < length (heap w)"
    "Server_dispatch enc dec (req (rpcs w ! i)) (heap w ! a) = Some (rs, rep)"
    "w' = upd_rpc i ((rpcs w ! i)\<lparr>ran := Some rep\<rparr>) (w\<lparr>heap := (heap w)[a := rs]\<rparr>)"
    using assms(2) by (auto simp: bind_Some_iff split: if_splits option.splits prod.splits)
  define r where "r = (rpcs w ! i)\<lparr>ran := Some rep\<rparr>"
  have v: "view (rpcs w ! i) = (req (rpcs w ! i), None, None)" "view r = (req (rpcs w ! i), Some rep, Some a)"
    using h(2,3) by (simp_all add: view_def ran_at_def r_def)
  have "rpc_ok (rpcs w ! i)" using assms(1) h(1) by (simp add: net_inv_def)
  then have r_ok: "rpc_ok r" using h(2,3) by (auto simp: rpc_ok_def r_def split: phase.splits)
  have len: "length (heap w) = length inits" using assms(1) by (simp add: net_inv_def)
  have lin: "linear enc dec (map view ((rpcs w)[i := r])) b (inits ! b) ((heap w)[a := rs] ! b)" if "b < length inits" for b
  proof -
    have old: "linear enc dec (map view (rpcs w)) b (inits ! b) (heap w ! b)"
      using assms(1) that by (simp add: net_inv_def)
    show ?thesis
    proof (cases "b = a")
      case True
      have "linear enc dec ((map view (rpcs w))[i := view r]) a (inits ! a) rs"
        unfolding v(2) using old h(1,5) v(1) unfolding True by (intro linear_run) simp_all
      then show ?thesis using True that len by (simp add: map_update)
    next
      case False
      have "linear enc dec ((map view (rpcs w))[i := view r]) b (inits ! b) (heap w ! b)"
        using old h(1) v False by (intro linear_other) simp_all
      then show ?thesis using False by (simp add: map_update)
    qed
  qed
  have "\<forall>r' \<in> set ((rpcs w)[i := r]). rpc_ok r' \<and> (\<forall>b. ran_at r' = Some b \<longrightarrow> b < length inits)"
  proof
    fix r' assume "r' \<in> set ((rpcs w)[i := r])"
    then consider "r' = r" | "r' \<in> set (rpcs w)" using set_update_subset_insert [of "rpcs w" i r] by blast
    then show "rpc_ok r' \<and> (\<forall>b. ran_at r' = Some b \<longrightarrow> b < length inits)"
    proof cases
      case 1
      with v(2) r_ok h(4) len show ?thesis by (simp add: view_def)
    next
      case 2
      with assms(1) show ?thesis by (simp add: net_inv_def)
    qed
  qed
  with assms(1) lin len show ?thesis
    unfolding h(6) r_def [symmetric] by (simp add: net_inv_def upd_rpc_def)
qed

lemma net_exec_inv:
  assumes "net_inv enc dec inits w" "net_exec enc dec e w = Some w'"
  shows "net_inv enc dec (inits @ new_servers [e]) w'"
proof (cases e)
  case (Send rq)
  let ?r = "\<lparr>req = rq, info = None, ran = None, ph = Queued\<rparr>"
  have r: "rpc_ok ?r" "view ?r = (rq, None, None)" "ran_at ?r = None" by (simp_all add: rpc_ok_def view_def ran_at_def)
  have w': "w' = w\<lparr>net := accept rq (net w), rpcs := rpcs w @ [?r]\<rparr>"
    using assms(2) Send by (simp split: if_splits)
  show ?thesis
    unfolding w' using assms(1) r Send by (auto simp: net_inv_def accept_def intro: linear_append)
next
  case (Begin i rnd)
  have w': "i < length (rpcs w)" "ph (rpcs w ! i) = Queued"
    "w' = upd_rpc i (processReq_begin rnd (net w) (rpcs w ! i)) (w\<lparr>net := net w\<rparr>)"
    using assms(2) Begin by (simp_all split: if_splits)
  have "rpc_ok (rpcs w ! i)" using assms(1) w'(1) by (simp add: net_inv_def)
  from begin_ok [OF this w'(2), of rnd "net w"] have
    "net_inv enc dec inits (upd_rpc i (processReq_begin rnd (net w) (rpcs w ! i)) (w\<lparr>net := net w\<rparr>))"
    by (intro net_inv_upd [OF assms(1) w'(1)]) simp_all
  then show ?thesis unfolding w'(3) Begin by simp
next
  case (Handler i)
  with handler_inv [OF assms(1)] assms(2) show ?thesis by simp
next
  case (Timer i)
  have w': "i < length (rpcs w)" "w' = upd_rpc i (processReq_timer (net w) (rpcs w ! i)) (w\<lparr>net := net w\<rparr>)"
    using assms(2) Timer by (simp_all split: if_splits)
  have "rpc_ok (rpcs w ! i)" using assms(1) w'(1) by (simp add: net_inv_def)
  from timer_ok [OF this, of "net w"] have
    "net_inv enc dec inits (upd_rpc i (processReq_timer (net w) (rpcs w ! i)) (w\<lparr>net := net w\<rparr>))"
    by (intro net_inv_upd [OF assms(1) w'(1)]) simp_all
  then show ?thesis unfolding w'(2) Timer by simp
next
  case (Finish i rnd1 rnd2)
  then obtain rn r where w': "i < length (rpcs w)" "processReq_finish rnd1 rnd2 (net w) (rpcs w ! i) = (rn, r)"
    "w' = upd_rpc i r (w\<lparr>net := rn\<rparr>)"
    using assms(2) by (auto split: if_splits prod.splits)
  have "rpc_ok (rpcs w ! i)" using assms(1) w'(1) by (simp add: net_inv_def)
  with finish_ok [OF _ w'(2)] w'(3) net_inv_upd [OF assms(1) w'(1)] Finish show ?thesis by simp
next
  case (Deliver i)
  then obtain rep where w': "i < length (rpcs w)" "ph (rpcs w ! i) = Delayed rep"
    "w' = upd_rpc i ((rpcs w ! i)\<lparr>ph := Answered rep\<rparr>) (w\<lparr>net := sent rep (net w)\<rparr>)"
    using assms(2) by (auto split: if_splits phase.splits)
  have "rpc_ok (rpcs w ! i)" using assms(1) w'(1) by (simp add: net_inv_def)
  then have "rpc_ok ((rpcs w ! i)\<lparr>ph := Answered rep\<rparr>)" using w'(2) by (simp add: rpc_ok_def)
  then have "net_inv enc dec inits w'"
    unfolding w'(3) by (intro net_inv_upd [OF assms(1) w'(1)]) (simp_all add: view_def ran_at_def sent_def)
  then show ?thesis by (simp add: Deliver)
next
  case (NewServer svcs)
  let ?s = "fold AddService svcs MakeServer"
  have w': "w' = w\<lparr>heap := heap w @ [?s]\<rparr>" using assms(2) NewServer by simp
  have "linear enc dec (map view (rpcs w)) (length inits) ?s ?s"
    unfolding linear_def
    by (rule exI [of _ "[]"]) (use assms(1) in \<open>auto simp: net_inv_def view_def set_conv_nth\<close>)
  then show ?thesis
    unfolding w' using assms(1) NewServer by (auto simp: net_inv_def nth_append less_Suc_eq)
next
  case (Admin op)
  then obtain rn where "administer op (net w) = Some rn" "w' = w\<lparr>net := rn\<rparr>" using assms(2) by auto
  with assms(1) administer_count Admin show ?thesis by (simp add: net_inv_def)
qed

lemma new_servers_Cons: "new_servers (e # es) = new_servers [e] @ new_servers es"
  by (cases e) simp_all

lemma net_run_inv:
  assumes "net_inv enc dec inits w" "net_run enc dec es w = Some w'"
  shows "net_inv enc dec (inits @ new_servers es) w'"
  using assms
proof (induction es arbitrary: inits w)
  case (Cons e es)
  then obtain w1 where w1: "net_exec enc dec e w = Some w1" "net_run enc dec es w1 = Some w'" by (auto simp: bind_Some_iff)
  from Cons.IH [OF net_exec_inv [OF Cons.prems(1) w1(1)] w1(2)] show ?case
    by (subst new_servers_Cons) simp
qed simp

lemma net_start_inv: "net_inv enc dec [] net_start"
  by (simp add: net_inv_def net_start_def MakeNetwork_def)


end
