(* ===== verification/LabRpcProps.thy ===== *)
theory LabRpcProps
  imports LabRpcInv
begin

text \<open>The properties of the simulated network.\<close>

text \<open>A service with one method that adds its argument to a number, for the examples.\<close>

definition num_enc :: "nat \<Rightarrow> string" where
  "num_enc = itoa_nat"

definition num_dec :: "string \<Rightarrow> nat option" where
  "num_dec s = Some (atoi s)"

definition adder :: "(nat, nat) Service" where
  "adder = MakeService ''Adder'' 0
     [\<lparr>mi_name = ''Add'', mi_PkgPath = '''', mi_NumIn = 3, mi_In2_ptr = True, mi_NumOut = 0,
       mi_func = \<lambda>v s. (s + v, s + v)\<rparr>]"

definition add_req :: "nat \<Rightarrow> reqMsg" where
  "add_req v = \<lparr>rq_endname = ''c'', rq_svcMeth = ''Adder.Add'', rq_args = num_enc v\<rparr>"

definition adder_up :: "(nat, nat) net_event list" where
  "adder_up = [NewServer [adder], Admin (OpMakeEnd ''c''), Admin (OpAddServer ''s'' 0), Admin (OpConnect ''c'' ''s''),
     Admin (OpEnable ''c'' True)]"




text \<open>
  On a reliable network that does not reorder, a request from an enabled end that is connected
  to a live server is answered, once its goroutine and its handler have run, with the reply of the
  handler, whatever numbers the random generator draws.
\<close>

theorem reliable_call_answers:
  assumes "reliable (net w)" "\<not> longReordering (net w)" "\<not> net_done (net w)" "enabled (net w) (rq_endname rq)"
    "connections (net w) (rq_endname rq) = Some sn" "servers (net w) sn = Some a" "a < length (heap w)"
    "Server_dispatch enc dec rq (heap w ! a) = Some (rs, rep)"
  shows "\<exists>w'. net_run enc dec [Send rq, Begin (length (rpcs w)) r1, Handler (length (rpcs w)), Finish (length (rpcs w)) r2 r3] w =
      Some w' \<and> ph (rpcs w' ! length (rpcs w)) = Answered rep \<and> heap w' = (heap w)[a := rs]"
  using assms
  by (simp add: accept_def upd_rpc_def processReq_begin_def readEndnameInfo_def processReq_finish_def isServerDead_def nth_append)

theorem reliable_call_answers_witness:
  "\<exists>w w' rs. net_run num_enc num_dec adder_up net_start = Some w \<and>
     net_run num_enc num_dec [Send (add_req 5), Begin (length (rpcs w)) 1, Handler (length (rpcs w)), Finish (length (rpcs w)) 2 3] w =
       Some w' \<and> ph (rpcs w' ! length (rpcs w)) = Answered \<lparr>rp_ok = True, rp_reply = num_enc 5\<rparr> \<and> heap w' = (heap w)[0 := rs]"
proof -
  have "case net_run num_enc num_dec adder_up net_start of
      None \<Rightarrow> False
    | Some w \<Rightarrow> reliable (net w) \<and> \<not> longReordering (net w) \<and> \<not> net_done (net w) \<and> enabled (net w) (rq_endname (add_req 5)) \<and>
        connections (net w) (rq_endname (add_req 5)) = Some ''s'' \<and> servers (net w) ''s'' = Some 0 \<and> 0 < length (heap w) \<and>
        map_option snd (Server_dispatch num_enc num_dec (add_req 5) (heap w ! 0)) = Some \<lparr>rp_ok = True, rp_reply = num_enc 5\<rparr>"
    by code_simp
  then obtain w rs where w: "net_run num_enc num_dec adder_up net_start = Some w"
    "reliable (net w)" "\<not> longReordering (net w)" "\<not> net_done (net w)" "enabled (net w) (rq_endname (add_req 5))"
    "connections (net w) (rq_endname (add_req 5)) = Some ''s''" "servers (net w) ''s'' = Some 0" "0 < length (heap w)"
    "Server_dispatch num_enc num_dec (add_req 5) (heap w ! 0) = Some (rs, \<lparr>rp_ok = True, rp_reply = num_enc 5\<rparr>)"
    by (auto split: option.splits)
  from reliable_call_answers [OF w(2-9)] w(1) show ?thesis by blast
qed

end
