(* ===== verification/LabGob.thy ===== *)
theory LabGob
  imports Prelude "HOL-Library.Monad_Syntax"
begin

text \<open>
  The checks \<open>src/labgob/labgob.go\<close> wraps around Go's gob encoding: \<open>checkType\<close> walks the graph of the
  types a value is built from and counts the fields whose names are not capitalised (gob skips them
  silently), each type once; \<open>checkDefault\<close> counts the fields that are not zero before decoding. Types
  may be recursive, so they are nodes of a graph given as a list; the recursion carries fuel, and the
  number of types plus one is shown to be enough. \<open>unicode.IsUpper\<close> and the gob encoder are arguments.
\<close>

section \<open>Types\<close>

text \<open>A type by its kind, with the types it refers to as indices; arrays, slices and pointers have one.\<close>

datatype gotype =
    Struct "(string \<times> nat) list"
  | ElemType nat
  | MapType nat nat
  | BasicType

type_synonym type_graph = "gotype list"

text \<open>The package variables: the types that have been checked and the number of errors.\<close>

type_synonym gob_state = "nat set \<times> nat"

definition capital :: "(char \<Rightarrow> bool) \<Rightarrow> string \<Rightarrow> bool" where
  "capital IsUpper name = (case name of [] \<Rightarrow> False | c # _ \<Rightarrow> IsUpper c)"

fun checkType :: "(char \<Rightarrow> bool) \<Rightarrow> nat \<Rightarrow> type_graph \<Rightarrow> nat \<Rightarrow> gob_state \<Rightarrow> gob_state option"
and checkFields :: "(char \<Rightarrow> bool) \<Rightarrow> nat \<Rightarrow> type_graph \<Rightarrow> (string \<times> nat) list \<Rightarrow> gob_state \<Rightarrow> gob_state option" where
  "checkType U 0 ts t st = None"
| "checkType U (Suc n) ts t (checked, errs) =
     (if t \<in> checked then Some (checked, errs)
      else
        (case ts ! t of
           Struct fs \<Rightarrow> checkFields U n ts fs (insert t checked, errs)
         | ElemType e \<Rightarrow> checkType U n ts e (insert t checked, errs)
         | MapType e k \<Rightarrow> do {
             st \<leftarrow> checkType U n ts e (insert t checked, errs);
             checkType U n ts k st
           }
         | BasicType \<Rightarrow> Some (insert t checked, errs)))"
| "checkFields U n ts [] st = Some st"
| "checkFields U n ts ((name, t) # fs) (checked, errs) = do {
     st \<leftarrow> checkType U n ts t (checked, if capital U name then errs else errs + 1);
     checkFields U n ts fs st
   }"

definition checkValue :: "(char \<Rightarrow> bool) \<Rightarrow> type_graph \<Rightarrow> nat \<Rightarrow> gob_state \<Rightarrow> gob_state option" where
  "checkValue U ts t st = checkType U (length ts + 1) ts t st"

section \<open>Values\<close>

text \<open>A basic value knows the name of its type and if it is zero; other kinds are not looked at.\<close>

datatype goval =
    VStruct "(string \<times> goval) list"
  | VPtr "goval option"
  | VBasic string bool
  | VOther

text \<open>The number of errors and the warnings printed; only the first one is printed.\<close>

type_synonym warn_state = "nat \<times> string list"

fun checkDefault1 :: "goval \<Rightarrow> nat \<Rightarrow> string \<Rightarrow> warn_state \<Rightarrow> warn_state"
and checkDefaults :: "(string \<times> goval) list \<Rightarrow> nat \<Rightarrow> string \<Rightarrow> warn_state \<Rightarrow> warn_state" where
  "checkDefault1 (VStruct fs) depth name st =
     (if depth > 3 then st else checkDefaults fs depth name st)"
| "checkDefault1 (VPtr None) depth name st = st"
| "checkDefault1 (VPtr (Some v)) depth name st =
     (if depth > 3 then st else checkDefault1 v (depth + 1) name st)"
| "checkDefault1 (VBasic tname zero) depth name (errs, out) =
     (if depth > 3 \<or> zero then (errs, out)
      else (errs + 1, if errs < 1 then out @ [if name = '''' then tname else name] else out))"
| "checkDefault1 VOther depth name st = st"
| "checkDefaults [] depth name st = st"
| "checkDefaults ((f, v) # fs) depth name st =
     checkDefaults fs depth name
       (checkDefault1 v (depth + 1) (if name \<noteq> '''' then name @ ''.'' @ f else f) st)"

definition checkDefault :: "goval option \<Rightarrow> warn_state \<Rightarrow> warn_state" where
  "checkDefault v st = (case v of None \<Rightarrow> st | Some w \<Rightarrow> checkDefault1 w 1 '''' st)"

section \<open>The encoder and the decoder\<close>

definition LabEncoder_Encode ::
  "(char \<Rightarrow> bool) \<Rightarrow> type_graph \<Rightarrow> ('v \<Rightarrow> string option) \<Rightarrow> nat \<Rightarrow> 'v \<Rightarrow> gob_state \<Rightarrow> (gob_state \<times> string option) option" where
  "LabEncoder_Encode U ts gob_Encode t v st = do { st' \<leftarrow> checkValue U ts t st; Some (st', gob_Encode v) }"

text \<open>\<open>errorCount\<close> is shared by the two checks of \<open>Decode\<close>.\<close>

definition LabDecoder_Decode ::
  "(char \<Rightarrow> bool) \<Rightarrow> type_graph \<Rightarrow> (string \<Rightarrow> 'v option) \<Rightarrow> nat \<Rightarrow> goval option \<Rightarrow> string \<Rightarrow> gob_state \<Rightarrow> string list \<Rightarrow>
   (gob_state \<times> string list \<times> 'v option) option" where
  "LabDecoder_Decode U ts gob_Decode t target b st out = do {
     (checked, errs) \<leftarrow> checkValue U ts t st;
     let (errs', out') = checkDefault target (errs, out);
     Some ((checked, errs'), out', gob_Decode b)
   }"

definition Register :: "(char \<Rightarrow> bool) \<Rightarrow> type_graph \<Rightarrow> nat \<Rightarrow> 'r list \<Rightarrow> 'r \<Rightarrow> gob_state \<Rightarrow> (gob_state \<times> 'r list) option" where
  "Register U ts t registry v st = do { st' \<leftarrow> checkValue U ts t st; Some (st', registry @ [v]) }"

section \<open>The walk visits what is reachable\<close>

definition succs :: "gotype \<Rightarrow> nat set" where
  "succs ty = (case ty of Struct fs \<Rightarrow> snd ` set fs | ElemType e \<Rightarrow> {e} | MapType e k \<Rightarrow> {e, k} | BasicType \<Rightarrow> {})"

definition wf_graph :: "type_graph \<Rightarrow> bool" where
  "wf_graph ts \<longleftrightarrow> (\<forall>ty \<in> set ts. succs ty \<subseteq> {..<length ts})"

definition refers :: "type_graph \<Rightarrow> nat \<Rightarrow> nat \<Rightarrow> bool" where
  "refers ts t u \<longleftrightarrow> u \<in> succs (ts ! t)"

text \<open>The number of fields of a type that are not capitalised.\<close>

definition low_fields :: "(char \<Rightarrow> bool) \<Rightarrow> gotype \<Rightarrow> nat" where
  "low_fields U ty = (case ty of Struct fs \<Rightarrow> length (filter (\<lambda>f. \<not> capital U (fst f)) fs) | _ \<Rightarrow> 0)"

text \<open>What a walk from the types in \<open>S\<close> adds to the checked types.\<close>

definition walked :: "(char \<Rightarrow> bool) \<Rightarrow> type_graph \<Rightarrow> nat set \<Rightarrow> nat \<Rightarrow> gob_state \<Rightarrow> gob_state \<Rightarrow> bool" where
  "walked U ts S extra st st' \<longleftrightarrow>
     finite (fst st') \<and> fst st \<subseteq> fst st' \<and> S \<subseteq> fst st' \<and>
     (\<forall>x \<in> fst st' - fst st. succs (ts ! x) \<subseteq> fst st' \<and> (\<exists>s \<in> S. (refers ts)\<^sup>*\<^sup>* s x)) \<and>
     snd st' = snd st + extra + (\<Sum>x \<in> fst st' - fst st. low_fields U (ts ! x))"

lemma walked_nil: "finite C \<Longrightarrow> S \<subseteq> C \<Longrightarrow> walked U ts S 0 (C, e) (C, e)"
  by (simp add: walked_def)

lemma walked_trans:
  assumes "walked U ts S i (C, e + k) st1" "walked U ts T j st1 st2" "finite C"
  shows "walked U ts (S \<union> T) (i + j + k) (C, e) st2"
proof -
  obtain C1 e1 C2 e2 where st: "st1 = (C1, e1)" "st2 = (C2, e2)" by (cases st1, cases st2) blast
  have sub: "C \<subseteq> C1" "C1 \<subseteq> C2" and fin: "finite C2" using assms(1,2) by (auto simp: walked_def st)
  have "C2 - C = (C1 - C) \<union> (C2 - C1)" "(C1 - C) \<inter> (C2 - C1) = {}" using sub by auto
  then have sum: "(\<Sum>x \<in> C2 - C. low_fields U (ts ! x)) =
      (\<Sum>x \<in> C1 - C. low_fields U (ts ! x)) + (\<Sum>x \<in> C2 - C1. low_fields U (ts ! x))"
    using fin sub finite_subset by (metis finite_Diff sum.union_disjoint)
  have "\<forall>x \<in> C2 - C. succs (ts ! x) \<subseteq> C2 \<and> (\<exists>s \<in> S \<union> T. (refers ts)\<^sup>*\<^sup>* s x)"
  proof
    fix x assume "x \<in> C2 - C"
    then consider "x \<in> C1 - C" | "x \<in> C2 - C1" by blast
    then show "succs (ts ! x) \<subseteq> C2 \<and> (\<exists>s \<in> S \<union> T. (refers ts)\<^sup>*\<^sup>* s x)"
    proof cases
      case 1
      then have "succs (ts ! x) \<subseteq> C1 \<and> (\<exists>s \<in> S. (refers ts)\<^sup>*\<^sup>* s x)" using assms(1) by (simp add: walked_def st)
      with sub(2) show ?thesis by blast
    next
      case 2
      then have "succs (ts ! x) \<subseteq> C2 \<and> (\<exists>s \<in> T. (refers ts)\<^sup>*\<^sup>* s x)" using assms(2) by (simp add: walked_def st)
      then show ?thesis by blast
    qed
  qed
  then show ?thesis using assms(1,2) sub fin sum by (auto simp: walked_def st)
qed

text \<open>Entering a type that was not checked.\<close>

lemma walked_enter:
  assumes "walked U ts (succs (ts ! t)) (low_fields U (ts ! t)) (insert t C, e) st'" "t \<notin> C"
  shows "walked U ts {t} 0 (C, e) st'"
proof -
  obtain C' e' where st': "st' = (C', e')" by (cases st')
  have w: "finite C'" "insert t C \<subseteq> C'" "succs (ts ! t) \<subseteq> C'"
    "\<forall>x \<in> C' - insert t C. succs (ts ! x) \<subseteq> C' \<and> (\<exists>s \<in> succs (ts ! t). (refers ts)\<^sup>*\<^sup>* s x)"
    "e' = e + low_fields U (ts ! t) + (\<Sum>x \<in> C' - insert t C. low_fields U (ts ! x))"
    using assms(1) by (simp_all add: walked_def st')
  have eq: "C' - C = insert t (C' - insert t C)" using w(2) assms(2) by auto
  have "(\<Sum>x \<in> C' - C. low_fields U (ts ! x)) =
      low_fields U (ts ! t) + (\<Sum>x \<in> C' - insert t C. low_fields U (ts ! x))"
    unfolding eq using w(1) by (subst sum.insert) auto
  moreover have "succs (ts ! x) \<subseteq> C' \<and> (refers ts)\<^sup>*\<^sup>* t x" if "x \<in> C' - C" for x
  proof (cases "x = t")
    case False
    with that w(4) obtain s where s: "succs (ts ! x) \<subseteq> C'" "s \<in> succs (ts ! t)" "(refers ts)\<^sup>*\<^sup>* s x" by blast
    have "refers ts t s" using s(2) by (simp add: refers_def)
    with s show ?thesis by (blast intro: converse_rtranclp_into_rtranclp)
  qed (simp add: w(3))
  ultimately show ?thesis using w by (simp add: walked_def st')
qed

lemma walked_extra0: "walked U ts S i (C, e) st' \<Longrightarrow> i = j \<Longrightarrow> S = T \<Longrightarrow> walked U ts T j (C, e) st'"
  by simp

lemma check_walked:
  "checkType U n ts t (C, e) = Some st' \<Longrightarrow> finite C \<Longrightarrow> walked U ts {t} 0 (C, e) st'"
  "checkFields U n ts fs (C, e) = Some st' \<Longrightarrow> finite C \<Longrightarrow>
     walked U ts (snd ` set fs) (length (filter (\<lambda>f. \<not> capital U (fst f)) fs)) (C, e) st'"
proof (induction U n ts t "(C, e)" and U n ts fs "(C, e)" arbitrary: C e st' and C e st' rule: checkType_checkFields.induct)
  case (2 U n ts t C e)
  show ?case
  proof (cases "t \<in> C")
    case True
    with 2 show ?thesis by (auto intro: walked_nil)
  next
    case False
    have fin: "finite (insert t C)" using 2 by simp
    have "walked U ts (succs (ts ! t)) (low_fields U (ts ! t)) (insert t C, e) st'"
    proof (cases "ts ! t")
      case (Struct fs)
      with False 2 show ?thesis by (simp add: succs_def low_fields_def)
    next
      case (ElemType u)
      with False 2 show ?thesis by (simp add: succs_def low_fields_def)
    next
      case (MapType u k)
      with False 2(5) obtain C1 e1 where 1: "checkType U n ts u (insert t C, e) = Some (C1, e1)"
        "checkType U n ts k (C1, e1) = Some st'"
        by (auto simp: bind_Some_iff)
      have w1: "walked U ts {u} 0 (insert t C, e + 0) (C1, e1)"
        using 2(3) [OF False MapType] 1(1) fin by simp
      then have "finite C1" by (simp add: walked_def)
      then have "walked U ts {k} 0 (C1, e1) st'"
        using 2(4) [OF False MapType] 1 by simp
      from walked_trans [OF w1 this fin] show ?thesis
        by (simp add: MapType succs_def low_fields_def insert_commute)
    next
      case BasicType
      with False 2(5) fin show ?thesis by (auto simp: succs_def low_fields_def intro: walked_nil)
    qed
    then show ?thesis using False by (rule walked_enter)
  qed
next
  case (4 U n ts name t fs C e)
  let ?e = "e + (if capital U name then 0 else 1)"
  from 4(3) obtain C1 e1 where 1: "checkType U n ts t (C, ?e) = Some (C1, e1)" "checkFields U n ts fs (C1, e1) = Some st'"
    by (auto simp: bind_Some_iff split: if_splits)
  have w1: "walked U ts {t} 0 (C, ?e) (C1, e1)" using 4 1(1) by (auto split: if_splits)
  then have fin1: "finite C1" by (simp add: walked_def)
  then have "walked U ts (snd ` set fs) (length (filter (\<lambda>f. \<not> capital U (fst f)) fs)) (C1, e1) st'"
    using 4(2) 1 by (auto split: if_splits)
  from walked_trans [OF w1 this 4(4)] show ?case by (rule walked_extra0) auto
qed (auto intro: walked_nil)

section \<open>The fuel is enough\<close>

definition unseen :: "type_graph \<Rightarrow> nat set \<Rightarrow> nat" where
  "unseen ts C = card ({..<length ts} - C)"

lemma unseen_mono: "C \<subseteq> C' \<Longrightarrow> unseen ts C' \<le> unseen ts C"
  unfolding unseen_def by (rule card_mono) auto

lemma unseen_insert: "t < length ts \<Longrightarrow> t \<notin> C \<Longrightarrow> unseen ts (insert t C) < unseen ts C"
  unfolding unseen_def by (rule psubset_card_mono) auto

lemma check_mono:
  assumes "checkType U n ts t (C, e) = Some (C', e')" "finite C"
  shows "finite C' \<and> unseen ts C' \<le> unseen ts C"
  using check_walked(1) [OF assms] by (auto simp: walked_def intro: unseen_mono)

lemma check_returns:
  "wf_graph ts \<Longrightarrow> t < length ts \<Longrightarrow> unseen ts C < n \<Longrightarrow> finite C \<Longrightarrow> checkType U n ts t (C, e) \<noteq> None"
  "wf_graph ts \<Longrightarrow> snd ` set fs \<subseteq> {..<length ts} \<Longrightarrow> unseen ts C < n \<Longrightarrow> finite C \<Longrightarrow>
     checkFields U n ts fs (C, e) \<noteq> None"
proof (induction U n ts t "(C, e)" and U n ts fs "(C, e)" arbitrary: C e and C e rule: checkType_checkFields.induct)
  case (2 U n ts t C e)
  show ?case
  proof (cases "t \<in> C")
    case False
    have lt: "unseen ts (insert t C) < n" using unseen_insert [OF 2(6) False] 2(7) by simp
    have fin: "finite (insert t C)" using 2 by simp
    have sub: "succs (ts ! t) \<subseteq> {..<length ts}" using 2(5,6) by (simp add: wf_graph_def)
    show ?thesis
    proof (cases "ts ! t")
      case (Struct fs)
      with False 2(1) [OF False Struct] 2(5) lt fin sub show ?thesis by (simp add: succs_def)
    next
      case (ElemType u)
      with False 2(2) [OF False ElemType] 2(5) lt fin sub show ?thesis by (simp add: succs_def)
    next
      case (MapType u k)
      have uk: "u < length ts" "k < length ts" using sub MapType by (simp_all add: succs_def)
      obtain C1 e1 where 1: "checkType U n ts u (insert t C, e) = Some (C1, e1)"
        using 2(3) [OF False MapType 2(5) uk(1) lt fin] by auto
      from check_mono [OF 1 fin] lt have "unseen ts C1 < n" "finite C1" by auto
      with 2(4) [OF False MapType _ 2(5) uk(2)] 1 have "checkType U n ts k (C1, e1) \<noteq> None" by blast
      with False MapType 1 show ?thesis by simp
    qed (use False in simp)
  qed simp
next
  case (4 U n ts name t fs C e)
  let ?e = "if capital U name then e else e + 1"
  have t: "t < length ts" "snd ` set fs \<subseteq> {..<length ts}" using 4(4) by auto
  obtain C1 e1 where 1: "checkType U n ts t (C, ?e) = Some (C1, e1)"
    using 4(1) [OF 4(3) t(1) 4(5,6)] by auto
  from check_mono [OF 1 4(6)] 4(5) have "unseen ts C1 < n" "finite C1" by auto
  with 4(2) [OF _ 4(3) t(2)] 1 have "checkFields U n ts fs (C1, e1) \<noteq> None" by blast
  with 1 show ?case by simp
qed simp_all

text \<open>
  C14. Checking a type ends, also when types are recursive, marks exactly the types reachable from it
  and counts exactly their fields that are not capitalised, each type's fields once.
\<close>

theorem checkValue_finds_all:
  assumes "wf_graph ts" "t < length ts"
  shows "checkValue U ts t ({}, 0) =
    Some ({x. (refers ts)\<^sup>*\<^sup>* t x}, \<Sum>x | (refers ts)\<^sup>*\<^sup>* t x. low_fields U (ts ! x))"
proof -
  have "unseen ts {} < length ts + 1" by (simp add: unseen_def)
  then obtain C e where C: "checkType U (length ts + 1) ts t ({}, 0) = Some (C, e)"
    using check_returns(1) [OF assms, of "{}" "length ts + 1" U 0] by auto
  have w: "t \<in> C" "\<forall>x \<in> C. succs (ts ! x) \<subseteq> C \<and> (refers ts)\<^sup>*\<^sup>* t x" "e = (\<Sum>x \<in> C. low_fields U (ts ! x))"
    using check_walked(1) [OF C] by (simp_all add: walked_def)
  have "x \<in> C" if "(refers ts)\<^sup>*\<^sup>* t x" for x
    using that by (induction rule: rtranclp_induct) (use w(1,2) in \<open>auto simp: refers_def\<close>)
  with w(2) have "C = {x. (refers ts)\<^sup>*\<^sup>* t x}" by blast
  with C w(3) show ?thesis by (simp add: checkValue_def)
qed

text \<open>A list cell with a lower-case pointer to itself.\<close>

definition list_type :: type_graph where
  "list_type = [Struct [(''Key'', 2), (''next'', 1)], ElemType 0, BasicType]"

definition ascii_upper :: "char \<Rightarrow> bool" where
  "ascii_upper c \<longleftrightarrow> 65 \<le> (of_char c :: nat) \<and> of_char c \<le> (90 :: nat)"

theorem checkValue_finds_all_witness:
  "checkValue ascii_upper list_type 0 ({}, 0) =
     Some ({x. (refers list_type)\<^sup>*\<^sup>* 0 x}, \<Sum>x | (refers list_type)\<^sup>*\<^sup>* 0 x. low_fields ascii_upper (list_type ! x)) \<and>
   checkValue ascii_upper list_type 0 ({}, 0) = Some ({0, 1, 2}, 1)"
proof
  show "checkValue ascii_upper list_type 0 ({}, 0) =
     Some ({x. (refers list_type)\<^sup>*\<^sup>* 0 x}, \<Sum>x | (refers list_type)\<^sup>*\<^sup>* 0 x. low_fields ascii_upper (list_type ! x))"
    by (rule checkValue_finds_all) (simp_all add: wf_graph_def list_type_def succs_def)
  show "checkValue ascii_upper list_type 0 ({}, 0) = Some ({0, 1, 2}, 1)"
    by (simp add: checkValue_def list_type_def numeral_eq_Suc capital_def ascii_upper_def insert_commute)
qed

section \<open>Non-default fields\<close>

text \<open>The non-zero basic fields down to depth three.\<close>

fun nonzero :: "goval \<Rightarrow> nat \<Rightarrow> nat"
and nonzeros :: "(string \<times> goval) list \<Rightarrow> nat \<Rightarrow> nat" where
  "nonzero (VStruct fs) depth = (if depth > 3 then 0 else nonzeros fs (depth + 1))"
| "nonzero (VPtr None) depth = 0"
| "nonzero (VPtr (Some v)) depth = (if depth > 3 then 0 else nonzero v (depth + 1))"
| "nonzero (VBasic tname zero) depth = (if depth > 3 \<or> zero then 0 else 1)"
| "nonzero VOther depth = 0"
| "nonzeros [] depth = 0"
| "nonzeros ((f, v) # fs) depth = nonzero v depth + nonzeros fs depth"

lemma checkDefault_counts:
  "fst (checkDefault1 v depth name st) = fst st + nonzero v depth"
  "fst (checkDefaults fs depth name st) = fst st + nonzeros fs (depth + 1)"
  by (induction v depth name st and fs depth name st rule: checkDefault1_checkDefaults.induct) simp_all

text \<open>At most one warning is printed, and one is printed when the first error is found.\<close>

lemma checkDefault_warns:
  "fst st = 0 \<longrightarrow> snd st = [] \<Longrightarrow> length (snd st) \<le> 1 \<Longrightarrow>
     length (snd (checkDefault1 v depth name st)) \<le> 1 \<and> (fst (checkDefault1 v depth name st) = 0 \<longrightarrow> snd (checkDefault1 v depth name st) = [])"
  "fst st = 0 \<longrightarrow> snd st = [] \<Longrightarrow> length (snd st) \<le> 1 \<Longrightarrow>
     length (snd (checkDefaults fs depth name st)) \<le> 1 \<and> (fst (checkDefaults fs depth name st) = 0 \<longrightarrow> snd (checkDefaults fs depth name st) = [])"
  by (induction v depth name st and fs depth name st rule: checkDefault1_checkDefaults.induct) auto


end
