(* ===== verification/KvTest.thy ===== *)
theory KvTest
  imports KvLock GoLib
begin

text \<open>
  The clients and the checks of the key/value tests, \<open>src/kvtest1/kvtest.go\<close>. A clerk is a pair of
  arguments: its \<open>Put\<close> and its \<open>Get\<close> as functions on the state of the system. The JSON coding of the
  values is an argument too. \<open>Fatalf\<close> is \<^term>\<open>None\<close>; the loops that may not end carry fuel.
\<close>

type_synonym 's ck_put = "string \<Rightarrow> string \<Rightarrow> Tversion \<Rightarrow> 's \<Rightarrow> 's \<times> Err"
type_synonym 's ck_get = "string \<Rightarrow> 's \<Rightarrow> 's \<times> string \<times> Tversion \<times> Err"

section \<open>Puts and gets\<close>

text \<open>\<^term>\<open>None\<close>: out of fuel or \<open>Fatalf\<close>.\<close>

fun PutAtLeastOnce :: "nat \<Rightarrow> 's ck_put \<Rightarrow> string \<Rightarrow> string \<Rightarrow> Tversion \<Rightarrow> 's \<Rightarrow> ('s \<times> Tversion) option" where
  "PutAtLeastOnce 0 put key val ver s = None"
| "PutAtLeastOnce (Suc n) put key val ver s =
     (case put key val ver s of
        (s', err) \<Rightarrow>
          if err = OK then Some (s', ver + 1)
          else if err = ErrMaybe \<or> err = ErrVersion then PutAtLeastOnce n put key val (ver + 1) s'
          else if ver \<noteq> 0 then None
          else PutAtLeastOnce n put key val ver s')"

definition CheckGet :: "'s ck_get \<Rightarrow> string \<Rightarrow> string \<Rightarrow> Tversion \<Rightarrow> 's \<Rightarrow> 's option" where
  "CheckGet get key val version s =
     (case get key s of
        (s', v, ver, err) \<Rightarrow>
          if err \<noteq> OK then None else if v \<noteq> val \<or> ver \<noteq> version then None else Some s')"

definition GetJson :: "(string \<Rightarrow> 'v option) \<Rightarrow> 's ck_get \<Rightarrow> string \<Rightarrow> 's \<Rightarrow> ('s \<times> 'v \<times> Tversion) option" where
  "GetJson unmarshal get key s =
     (case get key s of
        (s', val, ver, err) \<Rightarrow>
          if err = OK then map_option (\<lambda>v. (s', v, ver)) (unmarshal val) else None)"

definition PutJson :: "('v \<Rightarrow> string) \<Rightarrow> 's ck_put \<Rightarrow> string \<Rightarrow> 'v \<Rightarrow> Tversion \<Rightarrow> 's \<Rightarrow> 's \<times> Err" where
  "PutJson marshal put key v ver s = put key (marshal v) ver s"

text \<open>The version sent is always 0.\<close>

fun PutAtLeastOnceJson :: "nat \<Rightarrow> ('v \<Rightarrow> string) \<Rightarrow> 's ck_put \<Rightarrow> string \<Rightarrow> 'v \<Rightarrow> Tversion \<Rightarrow> 's \<Rightarrow> ('s \<times> Tversion) option" where
  "PutAtLeastOnceJson 0 marshal put key v ver s = None"
| "PutAtLeastOnceJson (Suc n) marshal put key v ver s =
     (case PutJson marshal put key v 0 s of
        (s', err) \<Rightarrow> if err \<noteq> ErrMaybe then Some (s', ver) else PutAtLeastOnceJson n marshal put key v (ver + 1) s')"

section \<open>Concurrent puts\<close>

record ClntRes =
  Nok :: int
  Nmaybe :: int

record EntryV =
  ev_Id :: int
  ev_V :: Tversion

definition sum_res :: "ClntRes list \<Rightarrow> ClntRes \<Rightarrow> ClntRes" where
  "sum_res rs res = fold (\<lambda>r acc. acc\<lparr>Nok := Nok acc + Nok r, Nmaybe := Nmaybe acc + Nmaybe r\<rparr>) rs res"

definition CheckPutConcurrent ::
  "(string \<Rightarrow> EntryV option) \<Rightarrow> 's ck_get \<Rightarrow> string \<Rightarrow> ClntRes list \<Rightarrow> ClntRes \<Rightarrow> bool \<Rightarrow> 's \<Rightarrow> ('s \<times> ClntRes) option" where
  "CheckPutConcurrent unmarshal get key rs res rel s = do {
     (s', e, ver0) \<leftarrow> GetJson unmarshal get key s;
     let res' = sum_res rs res;
     if rel then (if ver0 \<noteq> of_int (Nok res') then None else Some (s', res'))
     else if ver0 > of_int (Nok res' + Nmaybe res') then None
     else Some (s', res')
   }"

fun OnePut ::
  "nat \<Rightarrow> (EntryV \<Rightarrow> string) \<Rightarrow> (string \<Rightarrow> EntryV option) \<Rightarrow> 's ck_put \<Rightarrow> 's ck_get \<Rightarrow> int \<Rightarrow> string \<Rightarrow> Tversion \<Rightarrow> 's \<Rightarrow>
   ('s \<times> Tversion \<times> bool) option" where
  "OnePut 0 marshal unmarshal put get me key ver s = None"
| "OnePut (Suc n) marshal unmarshal put get me key ver s =
     (let (s1, err) = PutJson marshal put key \<lparr>ev_Id = me, ev_V = ver\<rparr> ver s in
      if \<not> (err = OK \<or> err = ErrVersion \<or> err = ErrMaybe) then None
      else do {
        (s2, e, ver0) \<leftarrow> GetJson unmarshal get key s1;
        if err = OK \<and> ver0 = ver + 1 \<and> ev_Id e \<noteq> me \<and> ev_V e \<noteq> ver then None
        else if err = OK \<or> err = ErrMaybe then Some (s2, ver0, err = OK)
        else OnePut n marshal unmarshal put get me key ver0 s2
      })"

text \<open>One iteration of \<open>OneClientPut\<close> on the key it draws.\<close>

definition OneClientPut_iter ::
  "nat \<Rightarrow> (EntryV \<Rightarrow> string) \<Rightarrow> (string \<Rightarrow> EntryV option) \<Rightarrow> 's ck_put \<Rightarrow> 's ck_get \<Rightarrow> int \<Rightarrow> string \<Rightarrow>
   's \<times> (string \<Rightarrow> Tversion) \<times> ClntRes \<Rightarrow> ('s \<times> (string \<Rightarrow> Tversion) \<times> ClntRes) option" where
  "OneClientPut_iter n marshal unmarshal put get cli k st =
     (case st of (s, verm, res) \<Rightarrow> do {
        (s', v, ok) \<leftarrow> OnePut n marshal unmarshal put get cli k (verm k) s;
        Some (s', verm(k := v), if ok then res\<lparr>Nok := Nok res + 1\<rparr> else res\<lparr>Nmaybe := Nmaybe res + 1\<rparr>)
      })"

fun OneClientPut ::
  "nat \<Rightarrow> (EntryV \<Rightarrow> string) \<Rightarrow> (string \<Rightarrow> EntryV option) \<Rightarrow> 's ck_put \<Rightarrow> 's ck_get \<Rightarrow> int \<Rightarrow> string list \<Rightarrow>
   's \<times> (string \<Rightarrow> Tversion) \<times> ClntRes \<Rightarrow> ('s \<times> (string \<Rightarrow> Tversion) \<times> ClntRes) option" where
  "OneClientPut n marshal unmarshal put get cli [] st = Some st"
| "OneClientPut n marshal unmarshal put get cli (k # ks) st = do {
     st' \<leftarrow> OneClientPut_iter n marshal unmarshal put get cli k st;
     OneClientPut n marshal unmarshal put get cli ks st'
   }"

section \<open>Spreading keys\<close>

definition MakeKeys :: "nat \<Rightarrow> string list" where
  "MakeKeys n = map (\<lambda>i. ''k'' @ itoa (int i)) [0..<n]"

fun SpreadPuts_loop :: "'s ck_put \<Rightarrow> (string \<times> string) list \<Rightarrow> 's \<Rightarrow> 's" where
  "SpreadPuts_loop put [] s = s"
| "SpreadPuts_loop put ((k, v) # kvs) s = SpreadPuts_loop put kvs (fst (put k v 0 s))"

fun SpreadGets_loop :: "'s ck_get \<Rightarrow> (string \<times> string) list \<Rightarrow> 's \<Rightarrow> 's option" where
  "SpreadGets_loop get [] s = Some s"
| "SpreadGets_loop get ((k, v) # kvs) s = do { s' \<leftarrow> CheckGet get k v 1 s; SpreadGets_loop get kvs s' }"

text \<open>The random values are an argument.\<close>

definition SpreadPutsSize :: "'s ck_put \<Rightarrow> 's ck_get \<Rightarrow> string list \<Rightarrow> 's \<Rightarrow> ('s \<times> string list \<times> string list) option" where
  "SpreadPutsSize put get va s =
     (let ka = MakeKeys (length va);
          s1 = SpreadPuts_loop put (zip ka va) s
      in map_option (\<lambda>s2. (s2, ka, va)) (SpreadGets_loop get (zip ka va) s1))"

section \<open>Appends\<close>

record entry =
  ent_Id :: int
  ent_N :: int

fun CheckAppends_loop :: "entry list \<Rightarrow> (int \<Rightarrow> int) \<Rightarrow> (int \<Rightarrow> int) \<Rightarrow> ((int \<Rightarrow> int) \<times> (int \<Rightarrow> int)) option" where
  "CheckAppends_loop [] expect skipped = Some (expect, skipped)"
| "CheckAppends_loop (e # es) expect skipped =
     (if expect (ent_Id e) > ent_N e then None
      else if expect (ent_Id e) = ent_N e
      then CheckAppends_loop es (expect(ent_Id e := expect (ent_Id e) + 1)) skipped
      else CheckAppends_loop es (expect(ent_Id e := ent_N e + 1))
             (skipped(ent_Id e := skipped (ent_Id e) + (ent_N e - expect (ent_Id e)))))"

definition CheckAppends :: "entry list \<Rightarrow> nat \<Rightarrow> ClntRes list \<Rightarrow> Tversion \<Rightarrow> unit option" where
  "CheckAppends es nclnt rs ver = do {
     (expect, skipped) \<leftarrow> CheckAppends_loop es (\<lambda>_. 0) (\<lambda>_. 0);
     if int (length es) + 1 \<noteq> sint ver then None
     else if \<forall>c \<in> set (map int [0..<nclnt] @ map ent_Id es).
            (case go_index rs c of
               None \<Rightarrow> False
             | Some r \<Rightarrow> skipped c \<le> Nmaybe r \<and> expect c \<le> Nok r + Nmaybe r)
     then Some () else None
   }"

text \<open>
  \<open>OneClientAppend\<close>, cut at its clerk calls: at the head of an iteration, before the get, in the put
  (with what it writes, the version it sends and the clerk's \<open>isFirst\<close>), returned.
\<close>

datatype app_pc = AppTop | AppGet | AppPut "entry list" Tversion bool | AppDone

record app_client =
  ac_i :: int
  ac_res :: ClntRes
  ac_pc :: app_pc

definition app_start :: app_client where
  "app_start = \<lparr>ac_i = 0, ac_res = \<lparr>Nok = 0, Nmaybe = 0\<rparr>, ac_pc = AppTop\<rparr>"

definition append_got :: "int \<Rightarrow> entry list \<Rightarrow> Tversion \<Rightarrow> app_client \<Rightarrow> app_client" where
  "append_got me es ver c = c\<lparr>ac_pc := AppPut (es @ [\<lparr>ent_Id = me, ent_N = ac_i c\<rparr>]) ver True\<rparr>"

definition append_put :: "Err \<Rightarrow> app_client \<Rightarrow> app_client" where
  "append_put err c =
     (if err = OK
      then c\<lparr>ac_res := (ac_res c)\<lparr>Nok := Nok (ac_res c) + 1\<rparr>, ac_i := ac_i c + 1, ac_pc := AppTop\<rparr>
      else if err = ErrMaybe
      then c\<lparr>ac_res := (ac_res c)\<lparr>Nmaybe := Nmaybe (ac_res c) + 1\<rparr>, ac_i := ac_i c + 1, ac_pc := AppTop\<rparr>
      else c\<lparr>ac_pc := AppGet\<rparr>)"

section \<open>The helpers on the server itself\<close>

lemma MakeKeys_distinct: "distinct (MakeKeys n)" "length (MakeKeys n) = n"
  by (simp_all add: MakeKeys_def distinct_map inj_on_def)

text \<open>A clerk whose calls never fail.\<close>

definition direct_put :: "KVServer ck_put" where
  "direct_put key val ver s =
     (case KVServer_Put \<lparr>pa_Key = key, pa_Value = val, pa_Version = ver\<rparr> s of (s', r) \<Rightarrow> (s', pr_Err r))"

text \<open>
  \<open>PutAtLeastOnce\<close> that starts at most \<open>n\<close> versions below the key's ends, with its value stored.
\<close>

lemma PutAtLeastOnce_reaches:
  assumes "kv s key = Some en" "e_version en = ver + of_nat n" "n < 2 ^ 64"
  shows "PutAtLeastOnce (Suc n) direct_put key val ver s =
    Some (s\<lparr>kv := (kv s)(key \<mapsto> \<lparr>e_value = val, e_version = ver + of_nat n + 1\<rparr>)\<rparr>, ver + of_nat n + 1)"
  using assms
proof (induction n arbitrary: ver)
  case 0
  then show ?case by (simp add: direct_put_def KVServer_Put_def fun_upd_def)
next
  case (Suc n)
  have "of_nat (Suc n) \<noteq> (0 :: 64 word)" by (rule word_of_nat_neq_0) (use Suc.prems(3) in simp_all)
  then have "ver \<noteq> e_version en" using Suc.prems(2) by (metis add_cancel_right_right)
  then have put: "direct_put key val ver s = (s, ErrVersion)"
    using Suc.prems(1) by (simp add: direct_put_def KVServer_Put_def)
  have "e_version en = ver + 1 + of_nat n" using Suc.prems(2) by simp
  from Suc.IH [OF Suc.prems(1) this] Suc.prems(3) have
    "PutAtLeastOnce (Suc n) direct_put key val (ver + 1) s =
      Some (s\<lparr>kv := (kv s)(key \<mapsto> \<lparr>e_value = val, e_version = ver + 1 + of_nat n + 1\<rparr>)\<rparr>, ver + 1 + of_nat n + 1)"
    by linarith
  moreover have "ver + 1 + of_nat n + 1 = ver + of_nat (Suc n) + 1" by simp
  ultimately show ?case by (subst PutAtLeastOnce.simps(2)) (simp only: put split if_False if_True Err.distinct simp_thms)
qed

end
