(* ===== verification/KvAppend.thy ===== *)
theory KvAppend
  imports KvTest "HOL-Library.Countable"
begin

text \<open>
  The append test: clients that run \<open>OneClientAppend\<close> of \<open>src/kvtest1/kvtest.go\<close> on the clerk and the
  server of \<open>src/kvsrv1\<close>, their attempts interleaving and getting lost, and the tester's check
  \<open>CheckAppends\<close> of what they leave. The check accepts every run.
\<close>

section \<open>The clients and the server\<close>

text \<open>\<open>appended\<close> is history: the entries under the key, which the server holds encoded.\<close>

record app_world =
  app_srv :: KVServer
  clients :: "nat \<Rightarrow> app_client"
  appended :: "entry list"

definition app_key :: string where
  "app_key = ''k''"

definition app_args :: "(entry list \<Rightarrow> string) \<Rightarrow> entry list \<Rightarrow> Tversion \<Rightarrow> PutArgs" where
  "app_args marshal es ver = \<lparr>pa_Key = app_key, pa_Value = marshal es, pa_Version = ver\<rparr>"

text \<open>The test stores the empty list first.\<close>

definition app_init :: "(entry list \<Rightarrow> string) \<Rightarrow> app_world" where
  "app_init marshal =
     \<lparr>app_srv = fst (KVServer_Put (app_args marshal [] 0) MakeKVServer), clients = (\<lambda>_. app_start), appended = []\<rparr>"

definition set_client :: "nat \<Rightarrow> app_client \<Rightarrow> app_world \<Rightarrow> app_world" where
  "set_client i c w = w\<lparr>clients := (clients w)(i := c)\<rparr>"

text \<open>A get, answered; \<open>GetJson\<close> fails the test when the key is missing or its value is no list.\<close>

definition app_get :: "(string \<Rightarrow> entry list option) \<Rightarrow> nat \<Rightarrow> app_world \<Rightarrow> app_world option" where
  "app_get unmarshal i w =
     (let r = KVServer_Get \<lparr>ga_Key = app_key\<rparr> (app_srv w) in
      if gr_Err r = OK
      then map_option (\<lambda>es. set_client i (append_got (int i) es (gr_Version r) (clients w i)) w) (unmarshal (gr_Value r))
      else None)"

text \<open>One attempt of a client's put.\<close>

definition app_attempt :: "(entry list \<Rightarrow> string) \<Rightarrow> nat \<Rightarrow> entry list \<Rightarrow> Tversion \<Rightarrow> bool \<Rightarrow> delivery \<Rightarrow> app_world \<Rightarrow> app_world" where
  "app_attempt marshal i es ver isFirst d w =
     (let args = app_args marshal es ver;
          (s', r) = put_attempt isFirst args d (app_srv w);
          c = clients w i
      in w\<lparr>app_srv := s',
           clients := (clients w)(i := (case r of None \<Rightarrow> c\<lparr>ac_pc := AppPut es ver False\<rparr> | Some err \<Rightarrow> append_put err c)),
           appended := (if d \<noteq> Drop \<and> put_ok args (app_srv w) then es else appended w)\<rparr>)"

inductive app_step ::
  "(entry list \<Rightarrow> string) \<Rightarrow> (string \<Rightarrow> entry list option) \<Rightarrow> nat \<Rightarrow> app_world \<Rightarrow> app_world \<Rightarrow> bool"
  for marshal unmarshal n where
  iterate: "i < n \<Longrightarrow> ac_pc (clients w i) = AppTop \<Longrightarrow>
    app_step marshal unmarshal n w (set_client i ((clients w i)\<lparr>ac_pc := AppGet\<rparr>) w)"
| stop: "i < n \<Longrightarrow> ac_pc (clients w i) = AppTop \<Longrightarrow>
    app_step marshal unmarshal n w (set_client i ((clients w i)\<lparr>ac_pc := AppDone\<rparr>) w)"
| get: "i < n \<Longrightarrow> ac_pc (clients w i) = AppGet \<Longrightarrow> app_get unmarshal i w = Some w' \<Longrightarrow>
    app_step marshal unmarshal n w w'"
| attempt: "i < n \<Longrightarrow> ac_pc (clients w i) = AppPut es ver isFirst \<Longrightarrow>
    app_step marshal unmarshal n w (app_attempt marshal i es ver isFirst d w)"

section \<open>What the check computes\<close>

definition ns_of :: "int \<Rightarrow> entry list \<Rightarrow> int list" where
  "ns_of c es = map ent_N (filter (\<lambda>e. ent_Id e = c) es)"

definition next_of :: "int list \<Rightarrow> int" where
  "next_of ns = (if ns = [] then 0 else last ns + 1)"

lemma ns_of_append: "ns_of c (es @ [e]) = ns_of c es @ (if ent_Id e = c then [ent_N e] else [])"
  by (simp add: ns_of_def)

text \<open>The numbers of a client grow and are not negative.\<close>

definition growing :: "int list \<Rightarrow> bool" where
  "growing ns \<longleftrightarrow> sorted_wrt (<) ns \<and> (\<forall>x \<in> set ns. 0 \<le> x)"

lemma growing_snoc: "growing (ns @ [x]) \<longleftrightarrow> growing ns \<and> next_of ns \<le> x"
proof -
  have "(\<forall>y \<in> set ns. y < x) \<and> 0 \<le> x \<longleftrightarrow> next_of ns \<le> x" if "growing ns"
  proof (cases ns rule: rev_cases)
    case (snoc ms y)
    then have "\<forall>z \<in> set ms. z < y" "0 \<le> y" using that by (auto simp: growing_def sorted_wrt_append)
    then show ?thesis using snoc by (fastforce simp: next_of_def)
  qed (simp add: next_of_def)
  then show ?thesis by (auto simp: growing_def sorted_wrt_append)
qed

lemma CheckAppends_loop_snoc:
  "CheckAppends_loop (es @ [e]) expect skipped =
     Option.bind (CheckAppends_loop es expect skipped) (\<lambda>(ex, sk). CheckAppends_loop [e] ex sk)"
  by (induction es arbitrary: expect skipped) (simp_all add: Let_def)

lemma CheckAppends_loop_spec:
  assumes "\<forall>c. growing (ns_of c es)"
  shows "CheckAppends_loop es (\<lambda>_. 0) (\<lambda>_. 0) =
    Some (\<lambda>c. next_of (ns_of c es), \<lambda>c. next_of (ns_of c es) - int (length (ns_of c es)))"
  using assms
proof (induction es rule: rev_induct)
  case Nil
  then show ?case by (simp add: ns_of_def next_of_def)
next
  case (snoc e es)
  have grow: "growing (ns_of c es)" for c
    using snoc.prems [rule_format, of c] by (auto simp: ns_of_append growing_snoc split: if_splits)
  have "next_of (ns_of (ent_Id e) es) \<le> ent_N e"
    using snoc.prems [rule_format, of "ent_Id e"] by (simp add: ns_of_append growing_snoc)
  then show ?case
    using snoc.IH grow
    by (auto simp: CheckAppends_loop_snoc ns_of_append fun_eq_iff) (simp_all add: next_of_def)
qed

section \<open>The invariant\<close>

text \<open>
  A client's numbers are below its counter, but for the one its put may just have written: then the
  put was sent before, and the version it carries is no longer current.
\<close>

definition app_ok :: "entry list \<Rightarrow> nat \<Rightarrow> app_client \<Rightarrow> bool" where
  "app_ok es i c \<longleftrightarrow>
     (let ns = ns_of (int i) es in
      0 \<le> ac_i c \<and> Nok (ac_res c) + Nmaybe (ac_res c) = ac_i c \<and> growing ns \<and>
      Nok (ac_res c) \<le> int (length (filter (\<lambda>x. x < ac_i c) ns)) \<and>
      (case ac_pc c of
         AppPut es' ver isFirst \<Rightarrow>
           (\<exists>k \<le> length es. ver = of_nat (k + 1) \<and> es' = take k es @ [\<lparr>ent_Id = int i, ent_N = ac_i c\<rparr>] \<and>
              ((\<forall>x \<in> set ns. x < ac_i c) \<or> k < length es \<and> \<not> isFirst \<and> (\<forall>x \<in> set ns. x \<le> ac_i c)))
       | _ \<Rightarrow> \<forall>x \<in> set ns. x < ac_i c))"

definition app_inv :: "(entry list \<Rightarrow> string) \<Rightarrow> nat \<Rightarrow> app_world \<Rightarrow> bool" where
  "app_inv marshal n w \<longleftrightarrow>
     kv (app_srv w) app_key = Some \<lparr>e_value = marshal (appended w), e_version = of_nat (length (appended w) + 1)\<rparr> \<and>
     (\<forall>e \<in> set (appended w). \<exists>i < n. ent_Id e = int i) \<and>
     (\<forall>i < n. app_ok (appended w) i (clients w i))"

lemma app_ok_frame:
  assumes "app_ok es i c" "ent_Id e \<noteq> int i"
  shows "app_ok (es @ [e]) i c"
proof -
  have ns: "ns_of (int i) (es @ [e]) = ns_of (int i) es" using assms(2) by (simp add: ns_of_append)
  show ?thesis
  proof (cases "ac_pc c")
    case (AppPut es' ver isFirst)
    then obtain k where "k \<le> length es" "ver = of_nat (k + 1)" "es' = take k es @ [\<lparr>ent_Id = int i, ent_N = ac_i c\<rparr>]"
      "(\<forall>x \<in> set (ns_of (int i) es). x < ac_i c) \<or> k < length es \<and> \<not> isFirst \<and> (\<forall>x \<in> set (ns_of (int i) es). x \<le> ac_i c)"
      using assms(1) by (auto simp: app_ok_def Let_def)
    then show ?thesis
      using assms(1) AppPut unfolding app_ok_def Let_def ns
      by (auto intro!: exI [of _ k])
  qed (use assms(1) ns in \<open>simp_all add: app_ok_def\<close>)
qed

lemma attempt_result:
  assumes "kv s app_key = Some en"
  shows "put_attempt isFirst (app_args marshal es ver) d s =
    (if d \<noteq> Drop \<and> ver = e_version en
     then s\<lparr>kv := (kv s)(app_key \<mapsto> \<lparr>e_value = marshal es, e_version = ver + 1\<rparr>)\<rparr> else s,
     if d = Answer then Some (if ver = e_version en then OK else if isFirst then ErrVersion else ErrMaybe) else None)"
  using assms by (cases d) (auto simp: put_attempt_def KVServer_Put_def app_args_def Let_def)

lemma filter_all: "\<forall>x \<in> set xs. P x \<Longrightarrow> length (filter P xs) = length xs"
  by (simp add: filter_id_conv)

text \<open>A put that does not take effect.\<close>

lemma app_ok_refused:
  assumes "app_ok es i c" "ac_pc c = AppPut es' ver isFirst"
    "r = None \<or> r = Some (if isFirst then ErrVersion else ErrMaybe)"
  shows "app_ok es i (case r of None \<Rightarrow> c\<lparr>ac_pc := AppPut es' ver False\<rparr> | Some err \<Rightarrow> append_put err c)"
proof -
  let ?ns = "ns_of (int i) es"
  obtain k where k: "k \<le> length es" "ver = of_nat (k + 1)" "es' = take k es @ [\<lparr>ent_Id = int i, ent_N = ac_i c\<rparr>]"
    "(\<forall>x \<in> set ?ns. x < ac_i c) \<or> k < length es \<and> \<not> isFirst \<and> (\<forall>x \<in> set ?ns. x \<le> ac_i c)"
    using assms(1,2) by (auto simp: app_ok_def Let_def)
  have base: "0 \<le> ac_i c" "Nok (ac_res c) + Nmaybe (ac_res c) = ac_i c" "growing ?ns"
    "Nok (ac_res c) \<le> int (length (filter (\<lambda>x. x < ac_i c) ?ns))"
    using assms(1) by (simp_all add: app_ok_def Let_def)
  consider "r = None" | "r = Some ErrVersion" "isFirst" | "r = Some ErrMaybe" using assms(3) by (auto split: if_splits)
  then show ?thesis
  proof cases
    case 1
    then show ?thesis using k base unfolding app_ok_def Let_def by (auto intro!: exI [of _ k])
  next
    case 2
    then have "\<forall>x \<in> set ?ns. x < ac_i c" using k(4) by auto
    then show ?thesis using 2 base by (simp add: app_ok_def append_put_def)
  next
    case 3
    have "\<forall>x \<in> set ?ns. x < ac_i c + 1" using k(4) by auto
    moreover have "Nok (ac_res c) \<le> int (length ?ns)"
      using base(4) length_filter_le [of "\<lambda>x. x < ac_i c" ?ns] by linarith
    ultimately show ?thesis
      using 3 base by (simp add: app_ok_def append_put_def Let_def filter_all)
  qed
qed

text \<open>A put that takes effect.\<close>

lemma app_ok_performed:
  assumes "app_ok es i c" "ac_pc c = AppPut es' (of_nat (length es + 1)) isFirst" "length es + 1 < 2 ^ 64"
    "r = None \<or> r = Some OK"
  shows "es' = es @ [\<lparr>ent_Id = int i, ent_N = ac_i c\<rparr>] \<and>
    app_ok es' i (case r of None \<Rightarrow> c\<lparr>ac_pc := AppPut es' (of_nat (length es + 1)) False\<rparr> | Some err \<Rightarrow> append_put err c)"
proof -
  let ?ns = "ns_of (int i) es"
  obtain k where k: "k \<le> length es" "of_nat (length es + 1) = (of_nat (k + 1) :: 64 word)"
    "es' = take k es @ [\<lparr>ent_Id = int i, ent_N = ac_i c\<rparr>]"
    "(\<forall>x \<in> set ?ns. x < ac_i c) \<or> k < length es \<and> \<not> isFirst \<and> (\<forall>x \<in> set ?ns. x \<le> ac_i c)"
    using assms(1,2) by (auto simp: app_ok_def Let_def)
  have "length es + 1 = k + 1"
    using k(1,2) assms(3) of_nat_64_inject [of "length es + 1" "k + 1"] by simp
  then have keq: "k = length es" by simp
  then have lt: "\<forall>x \<in> set ?ns. x < ac_i c" and es': "es' = es @ [\<lparr>ent_Id = int i, ent_N = ac_i c\<rparr>]" using k(3,4) by auto
  have ns': "ns_of (int i) es' = ?ns @ [ac_i c]" by (simp add: es' ns_of_append)
  have base: "0 \<le> ac_i c" "Nok (ac_res c) + Nmaybe (ac_res c) = ac_i c" "growing ?ns"
    "Nok (ac_res c) \<le> int (length ?ns)"
    using assms(1) lt by (simp_all add: app_ok_def Let_def filter_all)
  have "last ?ns < ac_i c" if "?ns \<noteq> []" using lt last_in_set [OF that] by blast
  then have "next_of ?ns \<le> ac_i c" using base(1) by (cases "?ns = []") (simp_all add: next_of_def)
  then have grow: "growing (?ns @ [ac_i c])" using base(3) by (simp add: growing_snoc)
  from assms(4) show ?thesis
  proof
    assume "r = None"
    then show ?thesis
      using base grow lt es'
      unfolding app_ok_def Let_def ns' by (auto simp: filter_all intro!: exI [of _ "length es"])
  next
    assume "r = Some OK"
    moreover have "\<forall>x \<in> set ?ns. x \<le> ac_i c" using lt by auto
    ultimately show ?thesis
      using base grow lt es'
      unfolding app_ok_def Let_def append_put_def by (auto simp: filter_all ns' [unfolded es'])
  qed
qed

lemma app_attempt_inv:
  assumes "app_inv marshal n w" "i < n" "ac_pc (clients w i) = AppPut es ver isFirst" "length (appended w) + 1 < 2 ^ 64"
  shows "app_inv marshal n (app_attempt marshal i es ver isFirst d w)"
proof -
  define c where "c = clients w i"
  define r where "r = snd (put_attempt isFirst (app_args marshal es ver) d (app_srv w))"
  let ?c' = "case r of None \<Rightarrow> c\<lparr>ac_pc := AppPut es ver False\<rparr> | Some err \<Rightarrow> append_put err c"
  have kv: "kv (app_srv w) app_key = Some \<lparr>e_value = marshal (appended w), e_version = of_nat (length (appended w) + 1)\<rparr>"
    and ids: "\<forall>e \<in> set (appended w). \<exists>i < n. ent_Id e = int i" and oks: "\<forall>i < n. app_ok (appended w) i (clients w i)"
    using assms(1) by (simp_all add: app_inv_def)
  have ok: "app_ok (appended w) i c" using oks assms(2) by (simp add: c_def)
  note res = attempt_result [OF kv, of isFirst marshal es ver d]
  have pok: "put_ok (app_args marshal es ver) (app_srv w) \<longleftrightarrow> ver = of_nat (length (appended w) + 1)"
    using kv by (simp add: put_ok_def app_args_def version_of_def)
  show ?thesis
  proof (cases "d \<noteq> Drop \<and> ver = of_nat (length (appended w) + 1)")
    case True
    then have r: "r = None \<or> r = Some OK" using res by (simp add: r_def)
    have pc: "ac_pc c = AppPut es (of_nat (length (appended w) + 1)) isFirst" using assms(3) True by (simp add: c_def)
    have es: "es = appended w @ [\<lparr>ent_Id = int i, ent_N = ac_i c\<rparr>]" and ok': "app_ok es i ?c'"
      using app_ok_performed [OF ok pc assms(4) r] unfolding conjunct2 [OF True, symmetric] by blast+
    have w': "app_attempt marshal i es ver isFirst d w =
        w\<lparr>app_srv := (app_srv w)\<lparr>kv := (kv (app_srv w))(app_key \<mapsto> \<lparr>e_value = marshal es, e_version = ver + 1\<rparr>)\<rparr>,
          clients := (clients w)(i := ?c'), appended := es\<rparr>"
      using True res pok by (simp add: app_attempt_def Let_def r_def c_def)
    have "app_ok es j (if j = i then ?c' else clients w j)" if "j < n" for j
      using that ok' oks app_ok_frame [of "appended w" j "clients w j"] es by (cases "j = i") simp_all
    moreover have "ver + 1 = of_nat (length es + 1)" using True es by simp
    ultimately show ?thesis
      unfolding w' using ids es assms(2) by (auto simp: app_inv_def)
  next
    case False
    then have r: "r = None \<or> r = Some (if isFirst then ErrVersion else ErrMaybe)" using res by (auto simp: r_def)
    have "app_ok (appended w) i ?c'" by (rule app_ok_refused [OF ok _ r]) (simp add: c_def assms(3))
    moreover have "app_attempt marshal i es ver isFirst d w = w\<lparr>clients := (clients w)(i := ?c')\<rparr>"
      using False res pok by (auto simp: app_attempt_def Let_def r_def c_def)
    ultimately show ?thesis using kv ids oks by (simp add: app_inv_def)
  qed
qed


section \<open>Runs\<close>

text \<open>The worlds after \<open>t\<close> steps; with fewer than \<open>2\<^sup>6\<^sup>4\<close> of them no version wraps around.\<close>

definition app_run :: "(entry list \<Rightarrow> string) \<Rightarrow> (string \<Rightarrow> entry list option) \<Rightarrow> nat \<Rightarrow> nat \<Rightarrow> app_world \<Rightarrow> bool" where
  "app_run marshal unmarshal n t w \<longleftrightarrow> (app_step marshal unmarshal n ^^ t) (app_init marshal) w"

lemma app_ok_pc:
  assumes "app_ok es i c" "ac_pc c \<in> {AppTop, AppGet, AppDone}" "pc \<in> {AppTop, AppGet, AppDone}"
  shows "app_ok es i (c\<lparr>ac_pc := pc\<rparr>)"
  using assms unfolding app_ok_def Let_def by auto

lemma app_inv_set_client:
  "app_inv marshal n w \<Longrightarrow> i < n \<Longrightarrow> app_ok (appended w) i c \<Longrightarrow> app_inv marshal n (set_client i c w)"
  by (simp add: app_inv_def set_client_def)

lemma app_inv_pc:
  assumes "app_inv marshal n w" "i < n" "ac_pc (clients w i) = AppTop" "pc \<in> {AppGet, AppDone}"
  shows "app_inv marshal n (set_client i ((clients w i)\<lparr>ac_pc := pc\<rparr>) w)"
proof (rule app_inv_set_client [OF assms(1,2)])
  have "app_ok (appended w) i (clients w i)" using assms(1,2) by (simp add: app_inv_def)
  then show "app_ok (appended w) i ((clients w i)\<lparr>ac_pc := pc\<rparr>)" by (rule app_ok_pc) (use assms(3,4) in auto)
qed

lemma app_step_length:
  assumes "app_step marshal unmarshal n w w'" "app_inv marshal n w"
  shows "length (appended w') \<le> length (appended w) + 1"
  using assms(1)
proof cases
  case (attempt i es ver isFirst d)
  then have "app_ok (appended w) i (clients w i)" using assms(2) by (simp add: app_inv_def)
  then have "length es \<le> length (appended w) + 1"
    using attempt(3) by (auto simp: app_ok_def Let_def)
  then show ?thesis using attempt(1) by (simp add: app_attempt_def Let_def split: prod.splits)
qed (auto simp: set_client_def app_get_def Let_def split: if_splits)

lemma app_step_inv:
  assumes "app_step marshal unmarshal n w w'" "app_inv marshal n w" "\<forall>es. unmarshal (marshal es) = Some es"
    "length (appended w) + 1 < 2 ^ 64"
  shows "app_inv marshal n w'"
  using assms(1)
proof cases
  case (get i)
  have kv: "kv (app_srv w) app_key = Some \<lparr>e_value = marshal (appended w), e_version = of_nat (length (appended w) + 1)\<rparr>"
    using assms(2) by (simp add: app_inv_def)
  have w': "w' = set_client i (append_got (int i) (appended w) (of_nat (length (appended w) + 1)) (clients w i)) w"
    using get(3) kv assms(3) by (simp add: app_get_def KVServer_Get_def)
  have "app_ok (appended w) i (clients w i)" using assms(2) get(1) by (simp add: app_inv_def)
  then have "app_ok (appended w) i (append_got (int i) (appended w) (of_nat (length (appended w) + 1)) (clients w i))"
    using get(2) unfolding app_ok_def Let_def append_got_def by (auto intro!: exI [of _ "length (appended w)"])
  then show ?thesis unfolding w' by (rule app_inv_set_client [OF assms(2) get(1)])
next
  case (attempt i es ver isFirst d)
  then show ?thesis using app_attempt_inv [OF assms(2) attempt(2,3) assms(4)] by simp
next
  case (iterate i)
  then show ?thesis using app_inv_pc [OF assms(2)] by simp
next
  case (stop i)
  then show ?thesis using app_inv_pc [OF assms(2)] by simp
qed

lemma app_init_inv: "app_inv marshal n (app_init marshal)"
  by (simp add: app_inv_def app_init_def KVServer_Put_def MakeKVServer_def app_args_def app_ok_def app_start_def
      ns_of_def growing_def)

lemma app_run_inv:
  assumes "app_run marshal unmarshal n t w" "\<forall>es. unmarshal (marshal es) = Some es" "t + 1 < 2 ^ 64"
  shows "app_inv marshal n w \<and> length (appended w) \<le> t"
  using assms(1,3) unfolding app_run_def
proof (induction t arbitrary: w)
  case 0
  then show ?case using app_init_inv by (auto simp: app_init_def)
next
  case (Suc t)
  then obtain w1 where w1: "(app_step marshal unmarshal n ^^ t) (app_init marshal) w1" "app_step marshal unmarshal n w1 w"
    by auto
  have IH: "app_inv marshal n w1" "length (appended w1) \<le> t" using Suc.IH [OF w1(1)] Suc.prems(2) by auto
  then show ?case
    using app_step_inv [OF w1(2) IH(1) assms(2)] app_step_length [OF w1(2) IH(1)] Suc.prems(2) by simp
qed

lemma sint_of_nat_64: "m < 2 ^ 63 \<Longrightarrow> sint (of_nat m :: 64 word) = int m"
  using signed_take_bit_int_eq_self [of 63 "int m"] by (simp add: signed_of_nat)

text \<open>
  C8. Whatever the interleaving of the clients and whatever requests and replies get lost: when every
  client of the append test has returned, the tester's check of the value under the key, its version
  and the clients' counts succeeds, for runs of fewer than \<open>2\<^sup>6\<^sup>3\<close> steps.
\<close>

theorem CheckAppends_accepts:
  assumes "app_run marshal unmarshal n t w" "\<forall>es. unmarshal (marshal es) = Some es" "t + 1 < 2 ^ 63"
    "\<forall>i < n. ac_pc (clients w i) = AppDone"
  shows "\<exists>es ver. kv (app_srv w) app_key = Some \<lparr>e_value = marshal es, e_version = ver\<rparr> \<and>
    CheckAppends es n (map (\<lambda>i. ac_res (clients w i)) [0..<n]) ver = Some ()"
proof -
  let ?es = "appended w"
  have inv: "app_inv marshal n w" and len: "length ?es \<le> t" using app_run_inv [OF assms(1,2)] assms(3) by auto
  have kv: "kv (app_srv w) app_key = Some \<lparr>e_value = marshal ?es, e_version = of_nat (length ?es + 1)\<rparr>"
    and ids: "\<forall>e \<in> set ?es. \<exists>i < n. ent_Id e = int i"
    using inv by (simp_all add: app_inv_def)
  have ok: "0 \<le> ac_i (clients w i)" "Nok (ac_res (clients w i)) + Nmaybe (ac_res (clients w i)) = ac_i (clients w i)"
    "growing (ns_of (int i) ?es)" "\<forall>x \<in> set (ns_of (int i) ?es). x < ac_i (clients w i)"
    "Nok (ac_res (clients w i)) \<le> int (length (ns_of (int i) ?es))" if "i < n" for i
  proof -
    have "app_ok ?es i (clients w i)" "ac_pc (clients w i) = AppDone" using inv that assms(4) by (simp_all add: app_inv_def)
    then show "0 \<le> ac_i (clients w i)" "Nok (ac_res (clients w i)) + Nmaybe (ac_res (clients w i)) = ac_i (clients w i)"
      "growing (ns_of (int i) ?es)" "\<forall>x \<in> set (ns_of (int i) ?es). x < ac_i (clients w i)"
      "Nok (ac_res (clients w i)) \<le> int (length (ns_of (int i) ?es))"
      by (auto simp: app_ok_def Let_def filter_all)
  qed
  have "growing (ns_of c ?es)" for c
  proof (cases "\<exists>i < n. c = int i")
    case False
    then have "ns_of c ?es = []" using ids by (auto simp: ns_of_def filter_empty_conv)
    then show ?thesis by (simp add: growing_def)
  qed (use ok(3) in auto)
  then have loop: "CheckAppends_loop ?es (\<lambda>_. 0) (\<lambda>_. 0) =
      Some (\<lambda>c. next_of (ns_of c ?es), \<lambda>c. next_of (ns_of c ?es) - int (length (ns_of c ?es)))"
    by (intro CheckAppends_loop_spec) simp
  have nxt: "next_of (ns_of (int i) ?es) \<le> ac_i (clients w i)" if "i < n" for i
    using ok(1,4) [OF that] last_in_set [of "ns_of (int i) ?es"] by (cases "ns_of (int i) ?es = []") (fastforce simp: next_of_def)+
  have ver: "int (length ?es) + 1 = sint (of_nat (length ?es + 1) :: 64 word)"
    by (subst sint_of_nat_64) (use len assms(3) in simp_all)
  let ?rs = "map (\<lambda>i. ac_res (clients w i)) [0..<n]"
  have all: "\<forall>c \<in> set (map int [0..<n] @ map ent_Id ?es).
      (case go_index ?rs c of
         None \<Rightarrow> False
       | Some r \<Rightarrow> next_of (ns_of c ?es) - int (length (ns_of c ?es)) \<le> Nmaybe r \<and> next_of (ns_of c ?es) \<le> Nok r + Nmaybe r)"
  proof
    fix c assume "c \<in> set (map int [0..<n] @ map ent_Id ?es)"
    then obtain i where i: "i < n" "c = int i" using ids by auto
    then have "go_index ?rs c = Some (ac_res (clients w i))" by (simp add: go_index_def)
    then show "case go_index ?rs c of
         None \<Rightarrow> False
       | Some r \<Rightarrow> next_of (ns_of c ?es) - int (length (ns_of c ?es)) \<le> Nmaybe r \<and> next_of (ns_of c ?es) \<le> Nok r + Nmaybe r"
      using ok(2,5) [OF i(1)] nxt [OF i(1)] i(2) by simp
  qed
  have "CheckAppends ?es n ?rs (of_nat (length ?es + 1)) = Some ()"
    unfolding CheckAppends_def loop by (simp only: bind.bind_lunit split ver if_P [OF all] simp_thms if_False)
  with kv show ?thesis by blast
qed

section \<open>An example\<close>

text \<open>A coding of the entries by counting them.\<close>

definition tally :: "entry list \<Rightarrow> string" where
  "tally es = replicate (to_nat (map (\<lambda>e. (ent_Id e, ent_N e)) es)) CHR ''x''"

definition untally :: "string \<Rightarrow> entry list option" where
  "untally s = Some (map (\<lambda>(i, n). \<lparr>ent_Id = i, ent_N = n\<rparr>) (from_nat (length s)))"

lemma untally_tally: "untally (tally es) = Some es"
proof -
  have "(\<lambda>x. \<lparr>ent_Id = ent_Id x, ent_N = ent_N x\<rparr>) = (id :: entry \<Rightarrow> entry)" by (rule ext) simp
  then show ?thesis by (simp add: tally_def untally_def comp_def)
qed

text \<open>One client appends once and returns.\<close>

theorem CheckAppends_accepts_witness:
  "\<exists>w es ver. app_run tally untally 1 4 w \<and> kv (app_srv w) app_key = Some \<lparr>e_value = tally es, e_version = ver\<rparr> \<and>
     CheckAppends es 1 (map (\<lambda>i. ac_res (clients w i)) [0..<1]) ver = Some ()"
proof -
  define w1 where "w1 = set_client 0 ((clients (app_init tally) 0)\<lparr>ac_pc := AppGet\<rparr>) (app_init tally)"
  define w2 where "w2 = set_client 0 (append_got 0 [] 1 (clients w1 0)) w1"
  define es where "es = [\<lparr>ent_Id = 0, ent_N = 0\<rparr>]"
  define w3 where "w3 = app_attempt tally 0 es 1 True Answer w2"
  define w4 where "w4 = set_client 0 ((clients w3 0)\<lparr>ac_pc := AppDone\<rparr>) w3"
  note defs = w1_def w2_def es_def w3_def w4_def app_init_def app_start_def set_client_def append_got_def app_attempt_def
    KVServer_Put_def KVServer_Get_def MakeKVServer_def app_args_def put_attempt_def append_put_def Let_def
  have "app_step tally untally 1 (app_init tally) w1"
    unfolding w1_def by (rule app_step.iterate) (simp_all add: app_init_def app_start_def)
  moreover have "app_step tally untally 1 w1 w2"
    by (rule app_step.get [of 0]) (simp_all add: app_get_def defs untally_tally)
  moreover have "app_step tally untally 1 w2 w3"
    unfolding w3_def by (rule app_step.attempt) (simp_all add: defs)
  moreover have "app_step tally untally 1 w3 w4"
    unfolding w4_def by (rule app_step.stop) (simp_all add: defs)
  ultimately have "app_run tally untally 1 4 w4"
    unfolding app_run_def by (auto simp: numeral_eq_Suc relcompp_apply)
  moreover have "\<forall>i < 1. ac_pc (clients w4 i) = AppDone" by (simp add: w4_def set_client_def)
  ultimately show ?thesis using CheckAppends_accepts [of tally untally 1 4 w4] untally_tally by auto
qed

end
