(* ===== verification/KvHarness.thy ===== *)
theory KvHarness
  imports KvTest TesterConfig
begin

text \<open>
  The harness of the key/value tests: the counting and recording of operations and the verdict on a
  history (\<open>src/kvtest1/porcupine.go\<close>), and the clerks of the tests, the spawning of clients and the
  partitioner (\<open>src/kvtest1/kvtest.go\<close>). Times, random numbers and the verdict of the checker are
  arguments; a clerk is the pair of functions of \<open>KvTest\<close>, here on a state that also holds the
  counter of operations and the history.
\<close>

section \<open>Recording\<close>

record Operation =
  op_Input :: KvInput
  op_Output :: KvOutput
  op_Call :: int
  op_Return :: int
  op_ClientId :: int

record 's harness =
  sys :: 's
  ops :: "32 word"
  oplog :: "Operation list option"

definition Append :: "Operation \<Rightarrow> 's harness \<Rightarrow> 's harness" where
  "Append x h = h\<lparr>oplog := map_option (\<lambda>xs. xs @ [x]) (oplog h)\<rparr>"

definition Read :: "'s harness \<Rightarrow> Operation list" where
  "Read h = (case oplog h of None \<Rightarrow> [] | Some xs \<Rightarrow> xs)"

definition harness_OpInc :: "'s harness \<Rightarrow> 's harness" where
  "harness_OpInc h = h\<lparr>ops := ops h + 1\<rparr>"

text \<open>\<open>TestClerk\<close>: the clerk the tests are given counts every call.\<close>

definition TestClerk_Put :: "'s ck_put \<Rightarrow> 's harness ck_put" where
  "TestClerk_Put put key val version h =
     (let h1 = harness_OpInc h in case put key val version (sys h1) of (s, err) \<Rightarrow> (h1\<lparr>sys := s\<rparr>, err))"

definition TestClerk_Get :: "'s ck_get \<Rightarrow> 's harness ck_get" where
  "TestClerk_Get get key h =
     (let h1 = harness_OpInc h in case get key (sys h1) of (s, r) \<Rightarrow> (h1\<lparr>sys := s\<rparr>, r))"

text \<open>The functions of the package, with the clock before and after the call.\<close>

definition kvtest_Get :: "'s harness ck_get \<Rightarrow> int \<Rightarrow> int \<times> int \<Rightarrow> 's harness ck_get" where
  "kvtest_Get get cli t key h =
     (case get key h of (h1, val, ver, err) \<Rightarrow>
        case log_Get key (val, ver, err) of (i, o1) \<Rightarrow>
          (Append \<lparr>op_Input = i, op_Output = o1, op_Call = fst t, op_Return = snd t, op_ClientId = cli\<rparr> (harness_OpInc h1),
           val, ver, err))"

definition kvtest_Put :: "'s harness ck_put \<Rightarrow> int \<Rightarrow> int \<times> int \<Rightarrow> 's harness ck_put" where
  "kvtest_Put put cli t key val version h =
     (case put key val version h of (h1, err) \<Rightarrow>
        case log_Put key val version err of (i, o1) \<Rightarrow>
          (Append \<lparr>op_Input = i, op_Output = o1, op_Call = fst t, op_Return = snd t, op_ClientId = cli\<rparr> (harness_OpInc h1), err))"

text \<open>The methods of the test: \<open>Put\<close> leaves the counting to the clerk.\<close>

definition ts_Get :: "'s harness ck_get \<Rightarrow> int \<Rightarrow> int \<times> int \<Rightarrow> 's harness ck_get" where
  "ts_Get get cli t key h =
     (case get key h of (h1, val, ver, err) \<Rightarrow>
        case log_Get key (val, ver, err) of (i, o1) \<Rightarrow>
          (Append \<lparr>op_Input = i, op_Output = o1, op_Call = fst t, op_Return = snd t, op_ClientId = cli\<rparr> (harness_OpInc h1),
           val, ver, err))"

definition ts_Put :: "'s harness ck_put \<Rightarrow> int \<Rightarrow> int \<times> int \<Rightarrow> 's harness ck_put" where
  "ts_Put put cli t key val version h =
     (case put key val version h of (h1, err) \<Rightarrow>
        case log_Put key val version err of (i, o1) \<Rightarrow>
          (Append \<lparr>op_Input = i, op_Output = o1, op_Call = fst t, op_Return = snd t, op_ClientId = cli\<rparr> h1, err))"

section \<open>The verdict\<close>

datatype CheckResult = Ok | Illegal | Unknown

datatype vis_file = TempFile | Named string

definition vis_target :: "string \<Rightarrow> vis_file" where
  "vis_target fpath = (if fpath = [] then TempFile else Named fpath)"

text \<open>
  \<open>checkPorcupine\<close>: if the test fails, and the file and title of a drawing that is attempted; \<open>opens\<close>
  says if the file can be opened, \<open>finalized\<close> is \<open>GetAnnotationFinalized\<close>.
\<close>

definition checkPorcupine :: "CheckResult \<Rightarrow> string \<Rightarrow> string \<Rightarrow> bool \<Rightarrow> bool \<Rightarrow> bool \<times> (vis_file \<times> string) option" where
  "checkPorcupine res vis fpath opens finalized =
     (if res = Illegal then
        (True, if \<not> opens then None
               else if vis \<noteq> ''never'' then Some (vis_target fpath, ''test failed'') else None)
      else if vis = ''always'' \<and> finalized then
        (False, if \<not> opens then None else Some (vis_target fpath, ''test passed''))
      else (False, None))"

section \<open>Random values\<close>

definition letterBytes :: string where
  "letterBytes = ''abcdefghijklmnopqrstuvwxyzABCDEFGHIJKLMNOPQRSTUVWXYZ''"

definition RandValue :: "(nat \<Rightarrow> nat) \<Rightarrow> nat \<Rightarrow> string" where
  "RandValue rnd n = map (\<lambda>i. letterBytes ! (rnd i mod length letterBytes)) [0..<n]"

section \<open>The partitioner\<close>

text \<open>One turn: every server draws a side, then the group is partitioned.\<close>

definition side :: "nat \<Rightarrow> nat list \<Rightarrow> nat list" where
  "side i a = filter (\<lambda>j. a ! j = i) [0..<length a]"

definition Partitioner_turn :: "(nat \<Rightarrow> nat) \<Rightarrow> ('r, 'b) grp_state \<Rightarrow> ('r, 'b) grp_state option" where
  "Partitioner_turn rnd g =
     (let a = map (\<lambda>i. rnd i mod 2) (all (snd g)) in Partition (side 0 a) (side 1 a) g)"

section \<open>Spawning clients\<close>

text \<open>
  \<open>SpawnClientsAndWait\<close>: the spawner sends one token per client on the channel \<open>done\<close>, which all
  clients share, and then receives the results from the clients' own channels in order. A client runs
  until it gets a token and then sends its result, \<open>res i\<close> for client \<open>i\<close>.
\<close>

datatype client = Running | Stopping | Sending ClntRes | Gone

datatype spawner = Tokens nat | Collect nat

record spawn =
  spawner :: spawner
  clients :: "client list"
  collected :: "ClntRes list"


inductive spawn_step :: "(nat \<Rightarrow> ClntRes) \<Rightarrow> spawn \<Rightarrow> spawn \<Rightarrow> bool" for res where
  token: "spawner s = Tokens (Suc k) \<Longrightarrow> i < length (clients s) \<Longrightarrow> clients s ! i = Running \<Longrightarrow>
    spawn_step res s (s\<lparr>spawner := Tokens k, clients := (clients s)[i := Stopping]\<rparr>)"
| slept: "spawner s = Tokens 0 \<Longrightarrow> spawn_step res s (s\<lparr>spawner := Collect 0\<rparr>)"
| result: "i < length (clients s) \<Longrightarrow> clients s ! i = Stopping \<Longrightarrow>
    spawn_step res s (s\<lparr>clients := (clients s)[i := Sending (res i)]\<rparr>)"
| collect: "spawner s = Collect i \<Longrightarrow> i < length (clients s) \<Longrightarrow> clients s ! i = Sending r \<Longrightarrow>
    spawn_step res s (s\<lparr>spawner := Collect (i + 1), clients := (clients s)[i := Gone], collected := collected s @ [r]\<rparr>)"

inductive_cases spawn_stepE: "spawn_step res s s'"

section \<open>Counting\<close>

lemma Append_simps [simp]:
  "ops (Append x h) = ops h" "sys (Append x h) = sys h" "ops (harness_OpInc h) = ops h + 1" "sys (harness_OpInc h) = sys h"
  "oplog (harness_OpInc h) = oplog h"
  by (simp_all add: Append_def harness_OpInc_def)

text \<open>
  Through the clerk of the tests, a \<open>Get\<close> of the test is counted twice and a \<open>Put\<close> once; both functions
  of the package count twice. The call itself is recorded once.
\<close>

theorem Get_counted_twice:
  "ops (fst (ts_Get (TestClerk_Get get) cli t key h)) = ops h + 2 \<and>
   ops (fst (ts_Put (TestClerk_Put put) cli t key val version h)) = ops h + 1 \<and>
   ops (fst (kvtest_Get (TestClerk_Get get) cli t key h)) = ops h + 2 \<and>
   ops (fst (kvtest_Put (TestClerk_Put put) cli t key val version h)) = ops h + 2"
  by (auto simp: ts_Get_def ts_Put_def kvtest_Get_def kvtest_Put_def TestClerk_Get_def TestClerk_Put_def Let_def
      log_Get_def log_Put_def split: prod.splits)

section \<open>Random values and partitions\<close>

lemma RandValue_letters: "length (RandValue rnd n) = n" "set (RandValue rnd n) \<subseteq> set letterBytes"
proof -
  have "0 < length letterBytes" by (simp add: letterBytes_def)
  then show "set (RandValue rnd n) \<subseteq> set letterBytes" by (auto simp: RandValue_def)
qed (simp add: RandValue_def)

text \<open>
  A turn of the partitioner partitions the servers by the sides they drew: two servers can reach each
  other afterwards if and only if they drew the same side. It does not panic, also when all draw one side.
\<close>

theorem Partitioner_by_sides:
  assumes "names_ok (snd g)"
  shows "\<exists>g'. Partitioner_turn rnd g = Some g' \<and> size_of (snd g') = size_of (snd g) \<and>
    (\<forall>i < size_of (snd g). connected (snd g') ! i \<and>
      (\<forall>j < size_of (snd g). linked g' i j \<longleftrightarrow> rnd i mod 2 = rnd j mod 2))"
proof -
  let ?n = "size_of (snd g)" and ?a = "map (\<lambda>i. rnd i mod 2) (all (snd g))"
  have mem: "i \<in> set (side b ?a) \<longleftrightarrow> i < ?n \<and> rnd i mod 2 = b" for i b
    by (auto simp: side_def all_def size_of_def)
  then have "set (side 0 ?a) \<union> set (side 1 ?a) \<subseteq> {..<?n}" "set (side 0 ?a) \<inter> set (side 1 ?a) = {}" by auto
  then obtain g' where g': "Partition (side 0 ?a) (side 1 ?a) g = Some g'" "same_but_links g g'"
    "part_ok (set (side 0 ?a)) (set (side 1 ?a)) g'" "part_ok (set (side 1 ?a)) (set (side 0 ?a)) g'"
    using Partition_outcome [OF assms] by blast
  have two: "rnd i mod 2 = 0 \<or> rnd i mod 2 = 1" for i by linarith
  have sides: "part_ok {i. i < ?n \<and> rnd i mod 2 = b} {i. i < ?n \<and> rnd i mod 2 = c} g'"
    if "b = 0 \<and> c = 1 \<or> b = 1 \<and> c = 0" for b c
  proof -
    have eq: "set (side b ?a) = {i. i < ?n \<and> rnd i mod 2 = b}" for b using mem by blast
    from that show ?thesis using g'(3,4) unfolding eq by blast
  qed
  have up: "connected (snd g') ! i" and same: "rnd i mod 2 = rnd j mod 2 \<Longrightarrow> linked g' i j"
    and other: "rnd i mod 2 \<noteq> rnd j mod 2 \<Longrightarrow> \<not> linked g' i j" if "i < ?n" "j < ?n" for i j
  proof -
    define c where "c = 1 - rnd i mod 2"
    have c: "rnd i mod 2 = 0 \<and> c = 1 \<or> rnd i mod 2 = 1 \<and> c = 0" unfolding c_def by linarith
    note ok = sides [OF c, unfolded part_ok_def]
    show "connected (snd g') ! i" using ok that by blast
    show "linked g' i j" if "rnd i mod 2 = rnd j mod 2" using ok that \<open>i < ?n\<close> \<open>j < ?n\<close> by (simp del: mod_2_eq_odd)
    show "\<not> linked g' i j" if d: "rnd i mod 2 \<noteq> rnd j mod 2"
    proof -
      have "rnd j mod 2 = c" using c d two [of j] by metis
      then show ?thesis using ok \<open>i < ?n\<close> \<open>j < ?n\<close> by blast
    qed
  qed
  show ?thesis
  proof (intro exI conjI allI impI)
    show "Partitioner_turn rnd g = Some g'" using g'(1) by (simp add: Partitioner_turn_def)
    show "size_of (snd g') = ?n" using same_names [OF g'(2)] by simp
    show "connected (snd g') ! i" if "i < ?n" for i using up that by blast
    show "linked g' i j \<longleftrightarrow> rnd i mod 2 = rnd j mod 2" if "i < ?n" "j < ?n" for i j
      using same [OF that] other [OF that] by blast
  qed
qed

section \<open>Spawning clients\<close>














end
