(* ===== verification/Demux.thy ===== *)
theory Demux
  imports LabRpc
begin

text \<open>
  Calls over a socket, \<open>src/tester1/demux\<close> and \<open>src/tester1/sockrpc\<close>: messages are framed by their
  length (\<open>transport.go\<close>), a client numbers its calls with 32-bit tags and matches the replies by
  tag (\<open>dmxclnt.go\<close>, \<open>callmap.go\<close>), and the server handles every request in a goroutine of its own, so
  that replies come back in any order (\<open>dmxsrv.go\<close>). The coding of a message is a pair of arguments;
  \<open>log.Fatalf\<close> is \<^term>\<open>None\<close>. A channel of \<open>callmap\<close> is the number of the call that waits on it.
\<close>

type_synonym Ttag = "32 word"

section \<open>transport.go\<close>

record dmx_msg =
  dm_Tag :: Ttag
  dm_Data :: string
  dm_Ok :: bool

text \<open>\<open>binary.LittleEndian\<close> for 32 bits.\<close>

definition put_u32 :: "32 word \<Rightarrow> string" where
  "put_u32 w = map (\<lambda>k. char_of (unat (drop_bit (8 * k) w) mod 256)) [0..<4]"

definition get_u32 :: "string \<Rightarrow> 32 word" where
  "get_u32 s = of_nat (foldr (\<lambda>c n. of_char c + 256 * n) s 0)"

text \<open>
  The result of a read: a message and the rest of the stream, the end of the stream before the first
  byte (\<open>io.EOF\<close>), or inside a message.
\<close>

datatype read_result = Msg Ttag string bool string | EOF | UnexpectedEOF

definition ReadCall :: "(string \<Rightarrow> dmx_msg option) \<Rightarrow> string \<Rightarrow> read_result option" where
  "ReadCall unmarshal s =
     (if s = [] then Some EOF
      else if length s < 4 then Some UnexpectedEOF
      else let nbyte = unat (get_u32 (take 4 s)); rest = drop 4 s in
        if rest = [] \<and> nbyte \<noteq> 0 then Some EOF
        else if length rest < nbyte then Some UnexpectedEOF
        else map_option (\<lambda>m. Msg (dm_Tag m) (dm_Data m) (dm_Ok m) (drop nbyte rest)) (unmarshal (take nbyte rest)))"

text \<open>The bytes \<open>WriteCall\<close> sends; the length is cut to 32 bits.\<close>

definition WriteCall :: "(dmx_msg \<Rightarrow> string) \<Rightarrow> Ttag \<Rightarrow> string \<Rightarrow> bool \<Rightarrow> string" where
  "WriteCall marshal tag d ok =
     (let b = marshal \<lparr>dm_Tag = tag, dm_Data = d, dm_Ok = ok\<rparr> in put_u32 (of_nat (length b)) @ b)"

text \<open>All messages of a stream.\<close>

function ReadAll :: "(string \<Rightarrow> dmx_msg option) \<Rightarrow> string \<Rightarrow> (dmx_msg list \<times> read_result) option" where
  "ReadAll unmarshal s =
     (case ReadCall unmarshal s of
        None \<Rightarrow> None
      | Some (Msg t d ok s') \<Rightarrow>
          if length s' < length s
          then map_option (apfst ((#) \<lparr>dm_Tag = t, dm_Data = d, dm_Ok = ok\<rparr>)) (ReadAll unmarshal s')
          else None
      | Some r \<Rightarrow> Some ([], r))"
  by pat_completeness auto
termination by (relation "measure (\<lambda>(_, s). length s)") auto

declare ReadAll.simps [simp del]

lemma put_u32_length [simp]: "length (put_u32 w) = 4"
  by (simp add: put_u32_def)

lemma base256:
  fixes n :: nat
  assumes "n < 2 ^ 32"
  shows "n mod 256 + 256 * (n div 256 mod 256 + 256 * (n div 65536 mod 256 + 256 * (n div 16777216 mod 256))) = n"
proof -
  have a: "n div 65536 = n div 256 div 256" "n div 16777216 = n div 256 div 256 div 256"
    by (simp_all add: div_mult2_eq [symmetric])
  have "n div 256 div 256 div 256 mod 256 = n div 256 div 256 div 256"
    using assms by (intro mod_less) (simp add: div_mult2_eq [symmetric])
  then show ?thesis unfolding a by simp
qed

lemma get_put_u32: "get_u32 (put_u32 w) = w"
proof -
  have list: "[0..<4] = [0, 1, 2, 3 :: nat]" by (simp add: upt_rec)
  have l: "unat w < 2 ^ 32" using unsigned_less [of w] by simp
  then have "take_bit 32 (unat w) = unat w" by (simp add: take_bit_nat_eq_self)
  then have "unat (drop_bit k w) = unat w div 2 ^ k" for k
    by (simp only: unsigned_drop_bit_eq) (simp add: drop_bit_eq_div)
  with l show ?thesis
    using base256 [of "unat w"] by (simp add: get_u32_def put_u32_def list)
qed

text \<open>A message that is written is read back, and the stream goes on after it.\<close>

lemma ReadCall_WriteCall:
  assumes "\<And>m. unmarshal (marshal m) = Some m" "length (marshal \<lparr>dm_Tag = tag, dm_Data = d, dm_Ok = ok\<rparr>) < 2 ^ 32"
    "\<And>m. marshal m \<noteq> []"
  shows "ReadCall unmarshal (WriteCall marshal tag d ok @ s) = Some (Msg tag d ok s)"
proof -
  let ?b = "marshal \<lparr>dm_Tag = tag, dm_Data = d, dm_Ok = ok\<rparr>"
  have "unat (get_u32 (put_u32 (of_nat (length ?b)))) = length ?b"
    using assms(2) by (simp add: get_put_u32 unsigned_of_nat take_bit_nat_eq_self)
  moreover have "put_u32 (of_nat (length ?b)) \<noteq> []" by (metis length_greater_0_conv put_u32_length zero_less_numeral)
  ultimately show ?thesis using assms(1,3) by (simp add: ReadCall_def WriteCall_def Let_def)
qed

definition WriteMsg :: "(dmx_msg \<Rightarrow> string) \<Rightarrow> dmx_msg \<Rightarrow> string" where
  "WriteMsg marshal m = WriteCall marshal (dm_Tag m) (dm_Data m) (dm_Ok m)"

lemma WriteMsg_eq: "WriteMsg marshal m = put_u32 (of_nat (length (marshal m))) @ marshal m"
  by (cases m) (simp add: WriteMsg_def WriteCall_def Let_def)

lemma WriteMsg_length [simp]: "length (WriteMsg marshal m) = 4 + length (marshal m)"
  by (simp add: WriteMsg_eq)

text \<open>A stream that breaks inside a message gives an error, never a message.\<close>

lemma ReadCall_cut:
  assumes "length (marshal m) < 2 ^ 32" "k < length (WriteMsg marshal m)"
  shows "ReadCall unmarshal (take k (WriteMsg marshal m)) \<in> {Some EOF, Some UnexpectedEOF}"
proof -
  let ?b = "marshal m" and ?h = "put_u32 (of_nat (length (marshal m)))"
  have w: "WriteMsg marshal m = ?h @ ?b" by (rule WriteMsg_eq)
  have h: "unat (get_u32 ?h) = length ?b"
    using assms(1) by (simp add: get_put_u32 unsigned_of_nat take_bit_nat_eq_self)
  show ?thesis
  proof (cases "k < 4")
    case True
    then show ?thesis by (simp add: w ReadCall_def)
  next
    case False
    then have "take k (WriteMsg marshal m) = ?h @ take (k - 4) ?b" by (simp add: w)
    moreover have "?h \<noteq> []" by (metis length_greater_0_conv put_u32_length zero_less_numeral)
    moreover have "length (take (k - 4) ?b) < length ?b" using assms(2) False by simp
    ultimately show ?thesis using h by (auto simp: ReadCall_def Let_def)
  qed
qed

text \<open>Of a stream that breaks anywhere, the reader gets the messages that arrived in full, in order.\<close>

lemma ReadAll_prefix:
  assumes "\<And>m. unmarshal (marshal m) = Some m" "\<And>m. marshal m \<noteq> []" "\<forall>m \<in> set ms. length (marshal m) < 2 ^ 32"
  shows "\<exists>j r. ReadAll unmarshal (take k (concat (map (WriteMsg marshal) ms))) = Some (take j ms, r) \<and>
    r \<in> {EOF, UnexpectedEOF} \<and> j \<le> length ms \<and>
    length (concat (map (WriteMsg marshal) (take j ms))) \<le> k \<and>
    (j < length ms \<longrightarrow> k < length (concat (map (WriteMsg marshal) (take (Suc j) ms))))"
  using assms(3)
proof (induction ms arbitrary: k)
  case Nil
  show ?case by (simp add: ReadAll.simps ReadCall_def)
next
  case (Cons m ms)
  let ?c = "WriteMsg marshal m" and ?s = "concat (map (WriteMsg marshal) ms)"
  show ?case
  proof (cases "k < length ?c")
    case True
    then have "ReadCall unmarshal (take k (?c @ ?s)) \<in> {Some EOF, Some UnexpectedEOF}"
      using ReadCall_cut [of marshal m k unmarshal] Cons.prems by simp
    then have "\<exists>r. ReadAll unmarshal (take k (?c @ ?s)) = Some (take 0 (m # ms), r) \<and> r \<in> {EOF, UnexpectedEOF}"
      by (subst ReadAll.simps) auto
    then show ?thesis using True
      by (intro exI [of _ "0 :: nat"]) simp
  next
    case False
    have eta: "\<lparr>dm_Tag = dm_Tag m, dm_Data = dm_Data m, dm_Ok = dm_Ok m\<rparr> = m" by simp
    let ?t = "take (k - length ?c) ?s"
    have "ReadCall unmarshal (?c @ ?t) = Some (Msg (dm_Tag m) (dm_Data m) (dm_Ok m) ?t)"
      unfolding WriteMsg_def by (intro ReadCall_WriteCall assms(1,2), unfold eta) (use Cons.prems in simp)
    moreover obtain j r where jr: "ReadAll unmarshal ?t = Some (take j ms, r)" "r \<in> {EOF, UnexpectedEOF}"
        "j \<le> length ms" "length (concat (map (WriteMsg marshal) (take j ms))) \<le> k - length ?c"
        "j < length ms \<longrightarrow> k - length ?c < length (concat (map (WriteMsg marshal) (take (Suc j) ms)))"
      using Cons.IH [of "k - length ?c"] Cons.prems by auto
    ultimately have "ReadAll unmarshal (?c @ ?t) = Some (m # take j ms, r)"
      by (subst ReadAll.simps) (simp add: eta)
    moreover have "take k (?c @ ?s) = ?c @ ?t" using False by simp
    ultimately show ?thesis
      using jr(2-5) False by (intro exI [of _ "Suc j"] exI [of _ r]) auto
  qed
qed

section \<open>callmap.go\<close>

record callMap =
  cm_closed :: bool
  cm_calls :: "(Ttag \<times> nat) list"

definition newCallMap :: callMap where
  "newCallMap = \<lparr>cm_closed = False, cm_calls = []\<rparr>"

definition callMap_close :: "callMap \<Rightarrow> callMap" where
  "callMap_close cm = cm\<lparr>cm_closed := True\<rparr>"

definition callMap_put :: "Ttag \<Rightarrow> nat \<Rightarrow> callMap \<Rightarrow> callMap option" where
  "callMap_put tag ch cm =
     (if cm_closed cm then None else Some (cm\<lparr>cm_calls := AList.update tag ch (cm_calls cm)\<rparr>))"

definition callMap_remove :: "Ttag \<Rightarrow> callMap \<Rightarrow> callMap \<times> nat option" where
  "callMap_remove tag cm =
     (case map_of (cm_calls cm) tag of
        Some ch \<Rightarrow> (cm\<lparr>cm_calls := AList.delete tag (cm_calls cm)\<rparr>, Some ch)
      | None \<Rightarrow> (cm, None))"

definition outstanding :: "callMap \<Rightarrow> Ttag list" where
  "outstanding cm = map fst (cm_calls cm)"

section \<open>dmxclnt.go and dmxsrv.go\<close>

record DemuxClnt =
  callmap :: callMap
  nextTag :: Ttag

text \<open>The reply a caller gets: data, the server's flag, and if there was an error.\<close>

type_synonym dmx_reply = "string \<times> bool \<times> bool"

text \<open>
  A client, a server and the two directions of the connection. \<open>reqs\<close> and \<open>results\<close> are the calls made
  and what they returned, \<open>serving\<close> the requests in the server's goroutines, \<open>served\<close> history: the
  request and the reply of every tag the server has answered.
\<close>

record dmx_world =
  clnt :: DemuxClnt
  reqs :: "string list"
  results :: "nat \<Rightarrow> dmx_reply option"
  wire_out :: "(Ttag \<times> string) list"
  serving :: "(Ttag \<times> string) list"
  wire_in :: "(Ttag \<times> string \<times> bool) list"
  served :: "Ttag \<Rightarrow> (string \<times> string \<times> bool) option"

definition DemuxClnt_tag :: "DemuxClnt \<Rightarrow> DemuxClnt \<times> Ttag" where
  "DemuxClnt_tag d = (d\<lparr>nextTag := nextTag d + 1\<rparr>, nextTag d)"

text \<open>\<open>NewDemuxClnt\<close> spends the first tag on the message that names the client.\<close>

definition NewDemuxClnt :: DemuxClnt where
  "NewDemuxClnt = fst (DemuxClnt_tag \<lparr>callmap = newCallMap, nextTag = 0\<rparr>)"

definition DemuxClnt_reply :: "Ttag \<Rightarrow> dmx_reply \<Rightarrow> dmx_world \<Rightarrow> dmx_world option" where
  "DemuxClnt_reply tag r w =
     (case callMap_remove tag (callmap (clnt w)) of
        (cm, Some ch) \<Rightarrow> Some (w\<lparr>clnt := (clnt w)\<lparr>callmap := cm\<rparr>, results := (results w)(ch \<mapsto> r)\<rparr>)
      | (cm, None) \<Rightarrow> None)"

text \<open>\<open>SendReceive\<close> up to the point where it waits.\<close>

definition SendReceive :: "string \<Rightarrow> dmx_world \<Rightarrow> dmx_world" where
  "SendReceive b w =
     (let ch = length (reqs w);
          (d, t) = DemuxClnt_tag (clnt w)
      in case callMap_put t ch (callmap d) of
           None \<Rightarrow> w\<lparr>clnt := d, reqs := reqs w @ [b], results := (results w)(ch \<mapsto> ([], False, True))\<rparr>
         | Some cm \<Rightarrow> w\<lparr>clnt := d\<lparr>callmap := cm\<rparr>, reqs := reqs w @ [b], wire_out := wire_out w @ [(t, b)]\<rparr>)"

text \<open>The end of the client's reader: every outstanding call fails.\<close>

fun fail_all :: "Ttag list \<Rightarrow> dmx_world \<Rightarrow> dmx_world option" where
  "fail_all [] w = Some w"
| "fail_all (t # ts) w = do { w' \<leftarrow> DemuxClnt_reply t ([], False, True) w; fail_all ts w' }"

definition reader_end :: "dmx_world \<Rightarrow> dmx_world option" where
  "reader_end w =
     (let w1 = w\<lparr>clnt := (clnt w)\<lparr>callmap := callMap_close (callmap (clnt w))\<rparr>, wire_out := [], serving := [], wire_in := []\<rparr>
      in fail_all (outstanding (callmap (clnt w1))) w1)"

datatype dmx_event = CallEv string | Receive | Serve nat string bool | ReplyEv | Break

text \<open>\<open>Serve i rep ok\<close>: the goroutine of request \<open>i\<close> writes its reply.\<close>

fun dmx_exec :: "dmx_event \<Rightarrow> dmx_world \<Rightarrow> dmx_world option" where
  "dmx_exec (CallEv b) w = Some (SendReceive b w)"
| "dmx_exec Receive w =
     (case wire_out w of [] \<Rightarrow> Some w | x # xs \<Rightarrow> Some (w\<lparr>wire_out := xs, serving := serving w @ [x]\<rparr>))"
| "dmx_exec (Serve i rep ok) w =
     (if i < length (serving w)
      then (case serving w ! i of (t, b) \<Rightarrow>
              Some (w\<lparr>serving := take i (serving w) @ drop (Suc i) (serving w), wire_in := wire_in w @ [(t, rep, ok)],
                      served := (served w)(t \<mapsto> (b, rep, ok))\<rparr>))
      else Some w)"
| "dmx_exec ReplyEv w =
     (case wire_in w of
        [] \<Rightarrow> Some w
      | (t, rep, ok) # xs \<Rightarrow> DemuxClnt_reply t (rep, ok, False) (w\<lparr>wire_in := xs\<rparr>))"
| "dmx_exec Break w = reader_end w"

fun dmx_run :: "dmx_event list \<Rightarrow> dmx_world \<Rightarrow> dmx_world option" where
  "dmx_run [] w = Some w"
| "dmx_run (e # es) w = do { w' \<leftarrow> dmx_exec e w; dmx_run es w' }"

definition dmx_start :: dmx_world where
  "dmx_start = \<lparr>clnt = NewDemuxClnt, reqs = [], results = (\<lambda>_. None), wire_out = [], serving = [], wire_in = [],
     served = (\<lambda>_. None)\<rparr>"

section \<open>sockrpc\<close>

record RPCArgs =
  ra_Method :: string
  ra_Args :: string

definition SockName :: "string \<Rightarrow> string" where
  "SockName endName = ''/tmp/6.5840-'' @ endName"

text \<open>\<open>RPC\<close>, given what \<open>SendReceive\<close> returns for the request.\<close>

definition RPC :: "(RPCArgs \<Rightarrow> string) \<Rightarrow> (string \<Rightarrow> dmx_reply) \<Rightarrow> string \<Rightarrow> string \<Rightarrow> string \<times> bool" where
  "RPC marshal send meth args =
     (case send (marshal \<lparr>ra_Method = meth, ra_Args = args\<rparr>) of
        (rep, ok, err) \<Rightarrow> if err then ([], False) else (rep, ok))"

definition RPCMarshall ::
  "(RPCArgs \<Rightarrow> string) \<Rightarrow> ('v \<Rightarrow> string) \<Rightarrow> (string \<Rightarrow> 'v option) \<Rightarrow> (string \<Rightarrow> dmx_reply) \<Rightarrow> string \<Rightarrow> 'v \<Rightarrow>
   (bool \<times> 'v option) option" where
  "RPCMarshall marshal enc dec send meth args =
     (case RPC marshal send meth (enc args) of
        (rep, ok) \<Rightarrow> if \<not> ok then Some (ok, None) else map_option (\<lambda>v. (ok, Some v)) (dec rep))"

definition ServeRequest ::
  "('v \<Rightarrow> string) \<Rightarrow> (string \<Rightarrow> 'v option) \<Rightarrow> (string \<Rightarrow> RPCArgs option) \<Rightarrow> string \<Rightarrow> string \<Rightarrow> ('s, 'v) Server \<Rightarrow>
   (('s, 'v) Server \<times> string \<times> bool) option" where
  "ServeRequest enc dec unmarshal clntEnd b rs = do {
     rq \<leftarrow> unmarshal b;
     Server_Dispatch enc dec (ra_Method rq) clntEnd (ra_Args rq) rs
   }"

end
