(* ===== verification/DemuxProps.thy ===== *)
theory DemuxProps
  imports Demux
begin

text \<open>
  Matching of replies to requests: an invariant of the runs of a demultiplexed connection, as long as
  the client makes fewer than $2^{32} - 1$ calls, so that no tag is used twice.
\<close>

definition tag_of :: "nat \<Rightarrow> Ttag" where
  "tag_of ch = of_nat (Suc ch)"

definition flight :: "dmx_world \<Rightarrow> Ttag list" where
  "flight w = map fst (wire_out w) @ map fst (serving w) @ map fst (wire_in w)"

definition pending :: "dmx_world \<Rightarrow> (Ttag \<times> nat) list" where
  "pending w = cm_calls (callmap (clnt w))"

definition inv_tags :: "dmx_world \<Rightarrow> bool" where
  "inv_tags w \<longleftrightarrow> nextTag (clnt w) = tag_of (length (reqs w)) \<and> distinct (map fst (pending w)) \<and>
     distinct (flight w) \<and> set (flight w) = fst ` set (pending w) \<and>
     (cm_closed (callmap (clnt w)) \<longrightarrow> pending w = [])"

definition inv_calls :: "dmx_world \<Rightarrow> bool" where
  "inv_calls w \<longleftrightarrow> set (pending w) = {(tag_of ch, ch) | ch. ch < length (reqs w) \<and> results w ch = None} \<and>
     (\<forall>ch. results w ch \<noteq> None \<longrightarrow> ch < length (reqs w))"

text \<open>What is known of call \<open>ch\<close>: its request is what it passed, and its reply the server's reply to it.\<close>

definition call_ok :: "dmx_world \<Rightarrow> nat \<Rightarrow> bool" where
  "call_ok w ch \<longleftrightarrow>
     (\<forall>b. (tag_of ch, b) \<in> set (wire_out w) \<union> set (serving w) \<longrightarrow> b = reqs w ! ch) \<and>
     (\<forall>rep ok. (tag_of ch, rep, ok) \<in> set (wire_in w) \<or> results w ch = Some (rep, ok, False) \<longrightarrow>
        served w (tag_of ch) = Some (reqs w ! ch, rep, ok))"

definition inv_data :: "dmx_world \<Rightarrow> bool" where
  "inv_data w \<longleftrightarrow> (\<forall>ch < length (reqs w). call_ok w ch)"

definition dmx_inv :: "dmx_world \<Rightarrow> bool" where
  "dmx_inv w \<longleftrightarrow> inv_tags w \<and> inv_calls w \<and> inv_data w"






lemma not_closed: "dmx_inv w \<Longrightarrow> t \<in> set (flight w) \<Longrightarrow> \<not> cm_closed (callmap (clnt w))"
  by (auto simp: dmx_inv_def inv_tags_def)

subsection \<open>Each event keeps the invariant\<close>












section \<open>Properties\<close>




text \<open>
  C28. The framing of the transport: whatever messages are written, if the byte stream breaks at any
  position the reader returns the messages that arrived in full, unchanged and in order, and then an
  error; it returns all of them when nothing is lost. The coding of a message, labgob's, decodes what
  it encoded and is never empty, and every coded message is shorter than $2^{32}$ bytes.
\<close>

theorem ReadCall_stream:
  assumes "\<And>m. unmarshal (marshal m) = Some m" "\<And>m. marshal m \<noteq> []" "\<forall>m \<in> set ms. length (marshal m) < 2 ^ 32"
  shows "\<exists>j r. ReadAll unmarshal (take k (concat (map (\<lambda>m. WriteCall marshal (dm_Tag m) (dm_Data m) (dm_Ok m)) ms))) =
      Some (take j ms, r) \<and> r \<in> {EOF, UnexpectedEOF} \<and> j \<le> length ms \<and>
    length (concat (map (\<lambda>m. WriteCall marshal (dm_Tag m) (dm_Data m) (dm_Ok m)) (take j ms))) \<le> k \<and>
    (j < length ms \<longrightarrow> k < length (concat (map (\<lambda>m. WriteCall marshal (dm_Tag m) (dm_Data m) (dm_Ok m)) (take (Suc j) ms))))"
  using ReadAll_prefix [OF assms] unfolding WriteMsg_def .

definition demo_marshal :: "dmx_msg \<Rightarrow> string" where
  "demo_marshal m = (if dm_Ok m then CHR ''t'' else CHR ''f'') # put_u32 (dm_Tag m) @ dm_Data m"

definition demo_unmarshal :: "string \<Rightarrow> dmx_msg option" where
  "demo_unmarshal s =
     (if length s < 5 then None
      else Some \<lparr>dm_Tag = get_u32 (take 4 (tl s)), dm_Data = drop 5 s, dm_Ok = (hd s = CHR ''t'')\<rparr>)"

lemma demo_codec: "demo_unmarshal (demo_marshal m) = Some m" "demo_marshal m \<noteq> []"
  by (cases m, simp add: demo_unmarshal_def demo_marshal_def get_put_u32) (simp add: demo_marshal_def)

definition demo_msgs :: "dmx_msg list" where
  "demo_msgs = [\<lparr>dm_Tag = 7, dm_Data = ''put'', dm_Ok = True\<rparr>, \<lparr>dm_Tag = 8, dm_Data = ''get'', dm_Ok = False\<rparr>]"

theorem ReadCall_stream_witness:
  "\<exists>r. ReadAll demo_unmarshal (take 20 (concat (map (\<lambda>m. WriteCall demo_marshal (dm_Tag m) (dm_Data m) (dm_Ok m)) demo_msgs))) =
      Some (take 1 demo_msgs, r) \<and> r \<in> {EOF, UnexpectedEOF}"
proof -
  have "\<forall>m \<in> set demo_msgs. length (demo_marshal m) < 2 ^ 32" by (simp add: demo_msgs_def demo_marshal_def)
  from ReadCall_stream [of demo_unmarshal demo_marshal, OF demo_codec this, of 20]
  obtain j r where *: "ReadAll demo_unmarshal (take 20 (concat (map (\<lambda>m. WriteCall demo_marshal (dm_Tag m) (dm_Data m) (dm_Ok m)) demo_msgs))) =
      Some (take j demo_msgs, r)" "r \<in> {EOF, UnexpectedEOF}" "j \<le> length demo_msgs"
      "length (concat (map (WriteMsg demo_marshal) (take j demo_msgs))) \<le> 20"
      "j < length demo_msgs \<longrightarrow> 20 < length (concat (map (WriteMsg demo_marshal) (take (Suc j) demo_msgs)))"
    unfolding WriteMsg_def by blast
  have "j = 0 \<or> j = 1 \<or> j = 2" using *(3) by (auto simp: demo_msgs_def)
  then have "j = 1" using *(4,5) by (auto simp: demo_msgs_def demo_marshal_def)
  with * show ?thesis by blast
qed

end
