(* ===== verification/Daemon.thy ===== *)
theory Daemon
  imports GoParse TesterConfig Demux
begin

text \<open>
  Servers as daemons: \<open>src/tester1/daemonclnt.go\<close> (the tester's side), \<open>daemonsrv.go\<close> (the process) and
  \<open>testsrv.go\<close>. The command line a daemon is started with, the handshake that hands it its stable
  storage, the forwarding of its calls through the tester's network, and the checkpoint taken before
  it is killed. A panic is \<^term>\<open>None\<close>. Processes, sockets and memory statistics are the operating
  system's.
\<close>

section \<open>The command line\<close>

definition options :: "bool \<Rightarrow> string list" where
  "options useRaftStateMachine = (if useRaftStateMachine then [''--raft-state-machine''] else [])"

definition runDaemon_args :: "string list \<Rightarrow> bool \<Rightarrow> Tgid \<Rightarrow> nat \<Rightarrow> string \<Rightarrow> string list \<Rightarrow> string list" where
  "runDaemon_args pargs useRSM g srv en es =
     pargs @ options useRSM @ [itoa g, itoa (int srv), itoa (int (length es)), en] @ es"

text \<open>The number of leading options; an empty argument panics.\<close>

fun skip_options :: "string list \<Rightarrow> nat option" where
  "skip_options [] = Some 0"
| "skip_options ([] # args) = None"
| "skip_options ((c # cs) # args) = (if c = CHR ''-'' then map_option Suc (skip_options args) else Some 0)"

record daemon_conf =
  dm_gid :: Tgid
  dm_sid :: int
  dm_testerEnd :: string
  dm_endNames :: "string list"
  dm_endName :: string

text \<open>
  \<open>InitDaemon\<close> up to its configuration: \<^term>\<open>Some None\<close> is a returned error. The arguments it is called
  with are those of the process, which \<open>flag.Parse\<close> has accepted.
\<close>

definition arg :: "string list \<Rightarrow> nat \<Rightarrow> string option" where
  "arg args i = (if i < length args then Some (args ! i) else None)"

definition InitDaemon_conf :: "string list \<Rightarrow> daemon_conf option option" where
  "InitDaemon_conf args = do {
     s \<leftarrow> skip_options args;
     a0 \<leftarrow> arg args s;
     case Atoi a0 of None \<Rightarrow> Some None | Some g \<Rightarrow> do {
       a1 \<leftarrow> arg args (s + 1);
       case Atoi a1 of None \<Rightarrow> Some None | Some sid \<Rightarrow> do {
         a2 \<leftarrow> arg args (s + 2);
         case Atoi a2 of None \<Rightarrow> Some None | Some nsrv \<Rightarrow> do {
           a3 \<leftarrow> arg args (s + 3);
           if nsrv < 0 \<or> int (s + 4) + nsrv > int (length args) then None
           else do {
             let es = take (nat nsrv) (drop (s + 4) args);
             e \<leftarrow> (if 0 \<le> sid \<and> sid < nsrv then Some (es ! nat sid) else None);
             Some (Some \<lparr>dm_gid = g, dm_sid = sid, dm_testerEnd = a3, dm_endNames = es, dm_endName = e\<rparr>)
           }
         }
       }
     }
   }"

section \<open>The handshake\<close>

text \<open>
  The daemon's main goroutine and the handlers of \<open>Init\<close> and \<open>InitWait\<close> meet on the unbuffered channel
  \<open>ch\<close>; the tester calls \<open>init\<close>, which also dials the daemon's socket until it listens, and then
  \<open>waitInit\<close>. \<open>MExit\<close> is reached if the last receive of \<open>InitDaemon\<close> gets a value.
\<close>

datatype 'p main_pc = MWait | MListen 'p | MMake 'p | MSignal 'p | MForever 'p | MExit

datatype tester_pc = TInit | TInitSent | TDial | TWait | TWaitSent | TReady

record 'p handshake =
  main :: "'p main_pc"
  tester :: tester_pc
  init_h :: "'p option"
  wait_h :: bool
  listening :: bool
  served_by :: "'p option"

definition hs_start :: "'p handshake" where
  "hs_start = \<lparr>main = MWait, tester = TInit, init_h = None, wait_h = False, listening = False, served_by = None\<rparr>"

inductive hstep :: "('r, 'b) Persister \<Rightarrow> ('r, 'b) Persister handshake \<Rightarrow> ('r, 'b) Persister handshake \<Rightarrow> bool" for sv where
  call_init: "tester s = TInit \<Longrightarrow> hstep sv s (s\<lparr>tester := TInitSent, init_h := Some (daemon_init sv)\<rparr>)"
| take_init: "main s = MWait \<Longrightarrow> init_h s = Some p \<Longrightarrow>
    hstep sv s (s\<lparr>main := MListen p, init_h := None, tester := TDial\<rparr>)"
| listen: "main s = MListen p \<Longrightarrow> hstep sv s (s\<lparr>main := MMake p, listening := True\<rparr>)"
| make: "main s = MMake p \<Longrightarrow> hstep sv s (s\<lparr>main := MSignal p, served_by := Some p\<rparr>)"
| dial: "tester s = TDial \<Longrightarrow> listening s \<Longrightarrow> hstep sv s (s\<lparr>tester := TWait\<rparr>)"
| call_wait: "tester s = TWait \<Longrightarrow> hstep sv s (s\<lparr>tester := TWaitSent, wait_h := True\<rparr>)"
| signal: "main s = MSignal p \<Longrightarrow> wait_h s \<Longrightarrow>
    hstep sv s (s\<lparr>main := MForever p, wait_h := False, tester := TReady\<rparr>)"
| stolen: "init_h s = Some p \<Longrightarrow> wait_h s \<Longrightarrow> hstep sv s (s\<lparr>init_h := None, wait_h := False, tester := TReady\<rparr>)"
| woken: "main s = MForever q \<Longrightarrow> init_h s = Some p \<Longrightarrow> hstep sv s (s\<lparr>main := MExit, init_h := None\<rparr>)"

inductive_cases hstepE: "hstep sv s s'"

section \<open>Forwarding\<close>

record ForwardArgs =
  fa_Method :: string
  fa_End :: string
  fa_Args :: string
  fa_Id :: "64 word"

text \<open>\<open>TesterRPC.Forward\<close>: an end the network does not know is fatal.\<close>

definition TesterRPC_Forward ::
  "(reqMsg \<Rightarrow> replyMsg option) \<Rightarrow> Network \<Rightarrow> ForwardArgs \<Rightarrow> (string \<times> bool) option" where
  "TesterRPC_Forward network rn args = do {
     e \<leftarrow> LookupEnd (fa_End args) rn;
     Some (Forward network e (fa_Method args) (fa_Args args))
   }"

text \<open>\<open>DaemonSrv.forward\<close>, given the call to the tester, which yields nothing when it fails.\<close>

definition ds_forward ::
  "(ForwardArgs \<Rightarrow> (string \<times> bool) option) \<Rightarrow> 64 word \<Rightarrow> string \<Rightarrow> string \<Rightarrow> string \<Rightarrow> string \<times> bool" where
  "ds_forward call i endn meth b =
     (case call \<lparr>fa_Method = meth, fa_End = endn, fa_Args = b, fa_Id = i\<rparr> of
        None \<Rightarrow> ([], False)
      | Some (rep, ok) \<Rightarrow> (rep, ok))"

text \<open>\<open>DaemonClnt.forward\<close>: the request goes to the daemon's own server.\<close>

definition dc_forward :: "(RPCArgs \<Rightarrow> string) \<Rightarrow> (string \<Rightarrow> dmx_reply) \<Rightarrow> string \<Rightarrow> string \<Rightarrow> string \<times> bool" where
  "dc_forward marshal send meth args = RPC marshal send meth args"

section \<open>A running daemon\<close>

text \<open>\<open>rpcs\<close> is the socket the server's calls come in on: closing it stops new connections only.\<close>

record ('r, 'b) DaemonSrv =
  ds_persister :: "('r, 'b) Persister"
  ds_rpcc_open :: bool
  ds_rpcs_open :: bool
  ds_id :: "64 word"

definition ds_CheckpointPersister :: "('r, 'b) DaemonSrv \<Rightarrow> ('r, 'b) DaemonSrv \<times> 'r list \<times> 'b list" where
  "ds_CheckpointPersister ds =
     (let ds1 = ds\<lparr>ds_rpcc_open := False, ds_rpcs_open := False\<rparr>; p = Checkpoint (ds_persister ds1)
      in (ds1, ReadRaftState p, ReadSnapshot p))"

definition ds_StateSize :: "('r, 'b) DaemonSrv \<Rightarrow> nat \<times> nat" where
  "ds_StateSize ds = (RaftStateSize (ds_persister ds), SnapshotSize (ds_persister ds))"

text \<open>What the process does: its server saves state and calls other servers, the tester checkpoints it.\<close>

datatype ('r, 'b) daemon_op = DSave "'r list" "'b list" | DCall string string string | DCheckpoint

text \<open>The calls that reach the tester and the checkpoints it receives are the output.\<close>

fun daemon_exec ::
  "('r, 'b) daemon_op \<Rightarrow> ('r, 'b) DaemonSrv \<Rightarrow> ('r, 'b) DaemonSrv \<times> ForwardArgs list \<times> ('r list \<times> 'b list) list" where
  "daemon_exec (DSave rs sn) ds = (ds\<lparr>ds_persister := Save rs sn (ds_persister ds)\<rparr>, [], [])"
| "daemon_exec (DCall endn meth b) ds =
     (let i = ds_id ds + 1; ds1 = ds\<lparr>ds_id := i\<rparr> in
      (ds1, if ds_rpcc_open ds1 then [\<lparr>fa_Method = meth, fa_End = endn, fa_Args = b, fa_Id = i\<rparr>] else [], []))"
| "daemon_exec DCheckpoint ds = (case ds_CheckpointPersister ds of (ds1, rs, sn) \<Rightarrow> (ds1, [], [(rs, sn)]))"

fun daemon_run ::
  "('r, 'b) daemon_op list \<Rightarrow> ('r, 'b) DaemonSrv \<Rightarrow> ('r, 'b) DaemonSrv \<times> ForwardArgs list \<times> ('r list \<times> 'b list) list" where
  "daemon_run [] ds = (ds, [], [])"
| "daemon_run (x # xs) ds =
     (case daemon_exec x ds of (ds1, o1, c1) \<Rightarrow>
        (case daemon_run xs ds1 of (ds2, o2, c2) \<Rightarrow> (ds2, o1 @ o2, c1 @ c2)))"

end
