(* ===== verification/RsmTest.thy ===== *)
theory RsmTest
  imports KvServer RaftTester TesterConfig
begin

text \<open>
  The test of the replicated state machine, \<open>src/kvraft1/rsm\<close>: the counter service (\<open>server.go\<close>), the
  proxy the tester calls it through (\<open>proxy.go\<close>) and the tester (\<open>test.go\<close>). \<open>Submit\<close> of \<open>rsm.go\<close> is
  as the repository has it: it refuses every request. The gob encoding of the counter is a pair of
  arguments; the answers of the servers, the counters read and the end of the waiting time are
  arguments of the tester's loops. \<open>Fatalf\<close> and a failed type assertion are \<^term>\<open>None\<close>.
\<close>

section \<open>server.go\<close>

text \<open>\<open>Dec\<close> stands for the requests \<open>DoOp\<close> does not know.\<close>

datatype rsm_req = Inc | Null | Dec

datatype rsm_rep = IncRep int | NullRep

record rsmSrv =
  srv_me :: nat
  counter :: int

definition newRSMSrv :: "nat \<Rightarrow> rsmSrv" where
  "newRSMSrv srv = \<lparr>srv_me = srv, counter = 0\<rparr>"

definition GetCounter :: "rsmSrv \<Rightarrow> int" where
  "GetCounter rs = counter rs"

fun rsm_DoOp :: "rsm_req \<Rightarrow> rsmSrv \<Rightarrow> (rsmSrv \<times> rsm_rep) option" where
  "rsm_DoOp Inc rs = (let rs = rs\<lparr>counter := counter rs + 1\<rparr> in Some (rs, IncRep (counter rs)))"
| "rsm_DoOp Null rs = Some (rs, NullRep)"
| "rsm_DoOp Dec rs = None"

definition rsm_Snapshot :: "(int \<Rightarrow> 'b list) \<Rightarrow> rsmSrv \<Rightarrow> 'b list" where
  "rsm_Snapshot senc rs = senc (counter rs)"

definition rsm_Restore :: "('b list \<Rightarrow> int option) \<Rightarrow> 'b list \<Rightarrow> rsmSrv \<Rightarrow> rsmSrv option" where
  "rsm_Restore sdec data rs = map_option (\<lambda>c. rs\<lparr>counter := c\<rparr>) (sdec data)"

section \<open>rsm.go and proxy.go\<close>

text \<open>\<open>other_raft\<close> is the flag \<open>UseRaftStateMachine\<close>; a peer that cannot be restored is a panic of \<open>raft.Make\<close>.\<close>

record ('c, 'b) RSM =
  rsm_me :: nat
  rsm_maxraftstate :: int
  rsm_rf :: "('c, 'b) Raft option"

definition MakeRSM ::
  "bool \<Rightarrow> nat \<Rightarrow> nat \<Rightarrow> ('c gobval, 'b) Persister \<Rightarrow> int \<Rightarrow> int \<Rightarrow> int \<Rightarrow> ('c, 'b) RSM option" where
  "MakeRSM other_raft n i p maxraftstate now r =
     (let rsm = \<lparr>rsm_me = i, rsm_maxraftstate = maxraftstate, rsm_rf = None\<rparr> in
      if \<not> other_raft then map_option (\<lambda>rf. rsm\<lparr>rsm_rf := Some rf\<rparr>) (raft_Make n i p now r) else Some rsm)"

definition rsm_Submit :: "rsm_req \<Rightarrow> Err \<times> rsm_rep option" where
  "rsm_Submit rq = (ErrWrongLeader, None)"

text \<open>A call that fails leaves the zero values in the reply.\<close>

definition RSMproxy_Submit :: "call_outcome \<Rightarrow> Err \<times> rsm_rep option \<Rightarrow> Err \<times> rsm_rep option" where
  "RSMproxy_Submit out answer = (if out = Fine then answer else (ErrNone, None))"

definition RSMproxy_GetCounter :: "call_outcome \<Rightarrow> rsmSrv \<Rightarrow> int" where
  "RSMproxy_GetCounter out rs = (if out = Fine then GetCounter rs else 0)"

section \<open>test.go\<close>

definition NSRV :: nat where
  "NSRV = 3"

text \<open>\<^term>\<open>None\<close> is the nil slice, which stands for all servers.\<close>

fun inPartition :: "nat \<Rightarrow> nat list option \<Rightarrow> bool" where
  "inPartition s None = True"
| "inPartition s (Some []) = False"
| "inPartition s (Some (i # p)) = (if s = i then True else inPartition s (Some p))"

text \<open>
  One turn of the loop of \<open>onePartition\<close>: who is connected, and what \<open>Submit\<close> answers (\<^term>\<open>None\<close> if
  there is no proxy); a server is asked at most once in a turn.
\<close>

record rsm_attempt =
  ra_connected :: "nat \<Rightarrow> bool"
  ra_submit :: "nat \<Rightarrow> rsm_req \<Rightarrow> (Err \<times> rsm_rep option) option"

definition ask_server :: "nat list option \<Rightarrow> rsm_req \<Rightarrow> rsm_attempt \<Rightarrow> int \<Rightarrow> rsm_rep option option" where
  "ask_server p rq a index =
     (if index \<noteq> -1 \<and> ra_connected a (nat index) then
        (if inPartition (nat index) p then
           (case ra_submit a (nat index) rq of
              Some (err, rep) \<Rightarrow> if err = OK then Some rep else None
            | None \<Rightarrow> None)
         else None)
      else None)"

fun try_from :: "nat list option \<Rightarrow> rsm_req \<Rightarrow> rsm_attempt \<Rightarrow> nat \<Rightarrow> int \<Rightarrow> (rsm_rep option \<times> int) option option" where
  "try_from p rq a 0 index = Some None"
| "try_from p rq a (Suc m) index =
     (if index \<ge> int NSRV then None
      else case ask_server p rq a index of
        Some rep \<Rightarrow> Some (Some (rep, index))
      | None \<Rightarrow> try_from p rq a m ((index + 1) mod int NSRV))"

text \<open>The leader of the last success and the number of operations counted are the tester's state.\<close>

record rsm_tester =
  leader :: int
  rt_ops :: nat

fun onePartition :: "nat list option \<Rightarrow> rsm_req \<Rightarrow> rsm_attempt list \<Rightarrow> rsm_tester \<Rightarrow> (rsm_tester \<times> rsm_rep option) option" where
  "onePartition p rq [] ts = Some (ts, None)"
| "onePartition p rq (a # as) ts = do {
     r \<leftarrow> try_from p rq a NSRV (leader ts);
     case r of
       Some (rep, index) \<Rightarrow> Some (ts\<lparr>leader := index, rt_ops := rt_ops ts + 1\<rparr>, rep)
     | None \<Rightarrow> onePartition p rq as ts
   }"

definition oneInc :: "rsm_attempt list \<Rightarrow> rsm_tester \<Rightarrow> (rsm_tester \<times> int) option" where
  "oneInc as ts = do {
     (ts', rep) \<leftarrow> onePartition None Inc as ts;
     case rep of None \<Rightarrow> Some (ts', 0) | Some (IncRep n) \<Rightarrow> Some (ts', n) | Some NullRep \<Rightarrow> None
   }"

definition oneNull :: "rsm_attempt list \<Rightarrow> rsm_tester \<Rightarrow> (rsm_tester \<times> unit) option" where
  "oneNull as ts = do {
     (ts', rep) \<leftarrow> onePartition None Null as ts;
     case rep of None \<Rightarrow> Some (ts', ()) | Some (IncRep n) \<Rightarrow> None | Some NullRep \<Rightarrow> Some (ts', ())
   }"

fun countValue :: "int \<Rightarrow> int list \<Rightarrow> nat" where
  "countValue v [] = 0"
| "countValue v (c # cs) = (if c = v then 1 else 0) + countValue v cs"

text \<open>The counters of all servers at the k-th look; the result is the time slept in milliseconds.\<close>

fun checkCounter_loop :: "nat \<Rightarrow> int \<Rightarrow> nat \<Rightarrow> (nat \<Rightarrow> int list) \<Rightarrow> nat \<Rightarrow> nat \<Rightarrow> nat \<Rightarrow> nat option" where
  "checkCounter_loop 0 v nsrv look k to slept = None"
| "checkCounter_loop (Suc m) v nsrv look k to slept =
     (if nsrv \<le> countValue v (look k) then Some slept
      else checkCounter_loop m v nsrv look (k + 1) (if to < 1000 then to * 2 else to) (slept + to))"

definition checkCounter :: "int \<Rightarrow> nat \<Rightarrow> (nat \<Rightarrow> int list) \<Rightarrow> nat option" where
  "checkCounter v nsrv look = checkCounter_loop 30 v nsrv look 0 10 0"

definition disconnectLeader :: "rsm_tester \<Rightarrow> ('r, 'b) grp_state \<Rightarrow> (('r, 'b) grp_state \<times> int) option" where
  "disconnectLeader ts g = do { g' \<leftarrow> DisconnectAll (nat (leader ts)) g; Some (g', leader ts) }"

definition rsm_restart ::
  "(nat \<Rightarrow> string) \<Rightarrow> (nat \<Rightarrow> bool \<times> nat) \<Rightarrow> nat list \<Rightarrow> ('r, 'b) grp_state \<Rightarrow> ('r, 'b) grp_state option" where
  "rsm_restart rs env idx g = do { g' \<leftarrow> StartSrvs rs env idx g; ConnectAll g' }"

section \<open>The counter service\<close>

text \<open>The operations a server executes, in order, and its replies.\<close>

fun DoOps :: "rsm_req list \<Rightarrow> rsmSrv \<Rightarrow> (rsmSrv \<times> rsm_rep list) option" where
  "DoOps [] rs = Some (rs, [])"
| "DoOps (r # reqs) rs = do {
     (rs1, rep) \<leftarrow> rsm_DoOp r rs;
     (rs2, reps) \<leftarrow> DoOps reqs rs1;
     Some (rs2, rep # reps)
   }"

fun inc_replies :: "rsm_req list \<Rightarrow> int \<Rightarrow> rsm_rep list" where
  "inc_replies [] c = []"
| "inc_replies (Inc # reqs) c = IncRep (c + 1) # inc_replies reqs (c + 1)"
| "inc_replies (r # reqs) c = NullRep # inc_replies reqs c"

lemma DoOps_count:
  "Dec \<notin> set reqs \<Longrightarrow> DoOps reqs rs =
     Some (rs\<lparr>counter := counter rs + int (count_list reqs Inc)\<rparr>, inc_replies reqs (counter rs))"
proof (induction reqs arbitrary: rs)
  case (Cons r reqs)
  then show ?case by (cases r) (simp_all add: algebra_simps)
qed simp

lemma inc_replies_append:
  "inc_replies (xs @ ys) c = inc_replies xs c @ inc_replies ys (c + int (count_list xs Inc))"
  by (induction xs c rule: inc_replies.induct) (simp_all add: algebra_simps)

text \<open>
  A server that is restored from a snapshot goes on as the server that took it: the state and the
  replies are those of one run of all the operations, and the counter is the number of increments.
\<close>

theorem snapshot_continues:
  assumes codec: "\<And>c. sdec (senc c) = Some c" and ops: "Dec \<notin> set (xs @ ys)"
  shows "(do {
      (rs1, reps1) \<leftarrow> DoOps xs (newRSMSrv i);
      rs2 \<leftarrow> rsm_Restore sdec (rsm_Snapshot senc rs1) (newRSMSrv j);
      (rs3, reps2) \<leftarrow> DoOps ys rs2;
      Some (GetCounter rs3, reps1 @ reps2)
    }) = Some (int (count_list (xs @ ys) Inc), inc_replies (xs @ ys) 0)"
  using ops by (simp add: DoOps_count newRSMSrv_def rsm_Restore_def rsm_Snapshot_def codec GetCounter_def inc_replies_append)

section \<open>The tester\<close>

lemma inPartition_iff: "inPartition s p \<longleftrightarrow> (case p of None \<Rightarrow> True | Some xs \<Rightarrow> s \<in> set xs)"
  by (induction s p rule: inPartition.induct) simp_all

lemma try_from_all:
  assumes "0 \<le> index" "index < 3"
  shows "(\<forall>k \<in> {0, 1, 2}. ask_server p rq a k = None) \<and> try_from p rq a NSRV index = Some None \<or>
    (\<exists>k \<in> {0, 1, 2}. \<exists>rep. ask_server p rq a k = Some rep \<and> try_from p rq a NSRV index = Some (Some (rep, k)))"
proof -
  have "index = 0 \<or> index = 1 \<or> index = 2" using assms by linarith
  then show ?thesis by (elim disjE) (auto simp: NSRV_def numeral_3_eq_3 split: option.splits)
qed

text \<open>
  \<open>onePartition\<close> asks every server, from the last leader on, and gives up only if none ever answered
  with OK; it returns the reply of the server it then takes for the leader. It never stops on an index
  out of range.
\<close>

theorem onePartition_asks_all:
  assumes "0 \<le> leader ts" "leader ts < 3"
  shows "(\<forall>a \<in> set as. \<forall>k \<in> {0, 1, 2}. ask_server p rq a k = None) \<and> onePartition p rq as ts = Some (ts, None) \<or>
    (\<exists>a \<in> set as. \<exists>k \<in> {0, 1, 2}. \<exists>rep. ask_server p rq a k = Some rep \<and>
       onePartition p rq as ts = Some (ts\<lparr>leader := k, rt_ops := rt_ops ts + 1\<rparr>, rep))"
proof (induction as)
  case (Cons a as)
  from try_from_all [OF assms, of p rq a] Cons show ?case
    by (elim disjE conjE bexE exE) (auto simp del: try_from.simps)
qed simp

text \<open>With \<open>Submit\<close> as it is, no increment is ever answered, over any connections and lost calls.\<close>

theorem unwritten_Submit_answers_nothing:
  assumes "\<forall>a \<in> set as. \<forall>k r. ra_submit a k r \<in> {None} \<union> {Some (RSMproxy_Submit out (rsm_Submit r)) | out. True}"
  shows "oneInc as ts = Some (ts, 0) \<or> oneInc as ts = None"
proof -
  have "err \<noteq> OK" if a: "a \<in> set as" and answer: "ra_submit a k r = Some (err, rep)" for a k r err rep
  proof -
    have "ra_submit a k r \<in> {None} \<union> {Some (RSMproxy_Submit out (rsm_Submit r)) | out. True}" using assms a by blast
    with answer obtain out where "(err, rep) = RSMproxy_Submit out (rsm_Submit r)" by auto
    then show ?thesis by (auto simp: RSMproxy_Submit_def rsm_Submit_def split: if_splits)
  qed
  then have "ask_server p r a k = None" if "a \<in> set as" for a p r k
    using that unfolding ask_server_def by (auto split: option.splits)
  then have t: "try_from p r a m k \<in> {None, Some None}" if "a \<in> set as" for a p r m k
    using that by (induction m arbitrary: k) auto
  have "onePartition None Inc as ts \<in> {None, Some (ts, None)}"
    using t
  proof (induction as)
    case (Cons a as)
    then have "onePartition None Inc as ts \<in> {None, Some (ts, None)}"
      and "try_from None Inc a NSRV (leader ts) = None \<or> try_from None Inc a NSRV (leader ts) = Some None" by simp_all
    then show ?case by (elim disjE) simp_all
  qed simp
  then show ?thesis by (auto simp: oneInc_def)
qed

lemma countValue_count: "countValue v cs = count_list cs v"
  by (induction cs) auto

lemma checkCounter_loop_Some:
  "checkCounter_loop m v nsrv look k to slept = Some t \<Longrightarrow>
     t \<le> slept + sleeps m to \<and> (\<exists>j < m. nsrv \<le> countValue v (look (k + j)))"
proof (induction m arbitrary: k to slept)
  case (Suc m)
  show ?case
  proof (cases "nsrv \<le> countValue v (look k)")
    case True
    then show ?thesis using Suc.prems by (auto intro: exI [of _ 0])
  next
    case False
    with Suc.prems Suc.IH [of "k + 1" "if to < 1000 then to * 2 else to" "slept + to"]
    obtain j where "t \<le> slept + to + sleeps m (if to < 1000 then to * 2 else to)" "j < m" "nsrv \<le> countValue v (look (k + 1 + j))"
      by auto
    then show ?thesis by (auto intro!: exI [of _ "Suc j"])
  qed
qed simp

lemma checkCounter_loop_None:
  "checkCounter_loop m v nsrv look k to slept = None \<Longrightarrow> j < m \<Longrightarrow> countValue v (look (k + j)) < nsrv"
proof (induction m arbitrary: k to slept j)
  case (Suc m)
  then have here: "countValue v (look k) < nsrv"
    and rest: "checkCounter_loop m v nsrv look (k + 1) (if to < 1000 then to * 2 else to) (slept + to) = None"
    by (auto split: if_splits)
  show ?case
  proof (cases j)
    case (Suc i)
    with Suc.IH [OF rest, of i] Suc.prems(2) show ?thesis by simp
  qed (use here in simp)
qed simp

text \<open>\<open>checkCounter\<close> fails the test exactly if in thirty looks too few servers had the value; it sleeps at most 30.71 seconds.\<close>

theorem checkCounter_exact:
  "(case checkCounter v nsrv look of
      None \<Rightarrow> \<forall>j < 30. count_list (look j) v < nsrv
    | Some t \<Rightarrow> t \<le> 30710 \<and> (\<exists>j < 30. nsrv \<le> count_list (look j) v))"
proof (cases "checkCounter v nsrv look")
  case None
  then show ?thesis using checkCounter_loop_None [of 30 v nsrv look 0 10 0] by (simp add: checkCounter_def countValue_count)
next
  case (Some t)
  then show ?thesis
    using checkCounter_loop_Some [of 30 v nsrv look 0 10 0 t] by (simp add: checkCounter_def countValue_count sleeps_30)
qed

end
