(* ===== verification/TesterAnnot.thy ===== *)
theory TesterAnnot
  imports GoLib
begin

text \<open>
  The annotations the tester records while a test runs (\<open>tester1/annotation.go\<close>): points, intervals
  and continuous annotations that last until the next one of the same tag, the begin of a check, and
  the picture of disconnected and crashed servers. Every function is one critical section of the
  annotation's or the framework's mutex; clock readings are the argument \<open>t\<close>. The pointer to the
  framework information is nil until \<open>AnnotateTest\<close> has run, and using it before panics.
  \<open>annotator.go\<close> forwards calls of server processes to these functions.
\<close>

section \<open>Data\<close>

text \<open>The fields of \<open>porcupine.Annotation\<close> the code sets; a point has the end 0.\<close>

record pannotation =
  an_Tag :: string
  an_Start :: int
  an_End :: int
  Description :: string
  Details :: string
  BackgroundColor :: string

record Continuous =
  co_start :: int
  co_desp :: string
  co_details :: string
  co_bgcolor :: string

record Annotation =
  annotations :: "pannotation list"
  continuous :: "(string \<times> Continuous) list"
  finalized :: bool

record CheckerBegin =
  ck_ts :: int
  ck_details :: string

record FrameworkInfo =
  fi_nservers :: nat
  fi_connected :: "bool list"
  fi_crashed :: "bool list"
  fi_ckbegin :: CheckerBegin

text \<open>The two global variables.\<close>

record tester_vars =
  annotation :: Annotation
  finfo :: "FrameworkInfo option"

definition COLOR_INFO :: string where "COLOR_INFO = ''#FAFAFA''"
definition COLOR_NEUTRAL :: string where "COLOR_NEUTRAL = ''#FFECB3''"
definition COLOR_SUCCESS :: string where "COLOR_SUCCESS = ''#C8E6C9''"
definition COLOR_FAILURE :: string where "COLOR_FAILURE = ''#FFCDD2''"
definition COLOR_FAULT :: string where "COLOR_FAULT = ''#B3E5FC''"
definition COLOR_USER :: string where "COLOR_USER = ''#FFF176''"
definition TAG_CHECKER :: string where "TAG_CHECKER = ''$ Checker''"
definition TAG_PARTITION :: string where "TAG_PARTITION = ''$ Failure''"
definition TAG_INFO :: string where "TAG_INFO = ''$ Test Info''"

definition mkAnnotation :: Annotation where
  "mkAnnotation = \<lparr>annotations = [], continuous = [], finalized = False\<rparr>"

definition mkFrameworkInfo :: "nat \<Rightarrow> FrameworkInfo" where
  "mkFrameworkInfo n = \<lparr>fi_nservers = n, fi_connected = replicate n True, fi_crashed = replicate n False,
     fi_ckbegin = \<lparr>ck_ts = 0, ck_details = []\<rparr>\<rparr>"

definition tester_init :: tester_vars where
  "tester_init = \<lparr>annotation = mkAnnotation, finfo = None\<rparr>"

section \<open>The methods of Annotation\<close>

definition annotatePointColor :: "int \<Rightarrow> string \<Rightarrow> string \<Rightarrow> string \<Rightarrow> string \<Rightarrow> Annotation \<Rightarrow> Annotation" where
  "annotatePointColor t tag desp details bgcolor an = an\<lparr>annotations := annotations an @
     [\<lparr>an_Tag = tag, an_Start = t, an_End = 0, Description = desp, Details = details, BackgroundColor = bgcolor\<rparr>]\<rparr>"

definition annotateIntervalColor ::
  "int \<Rightarrow> string \<Rightarrow> int \<Rightarrow> string \<Rightarrow> string \<Rightarrow> string \<Rightarrow> Annotation \<Rightarrow> Annotation" where
  "annotateIntervalColor t tag start desp details bgcolor an = an\<lparr>annotations := annotations an @
     [\<lparr>an_Tag = tag, an_Start = start, an_End = t, Description = desp, Details = details, BackgroundColor = bgcolor\<rparr>]\<rparr>"

text \<open>A continuous annotation, made concrete at time \<open>t\<close>.\<close>

definition concretize :: "int \<Rightarrow> string \<Rightarrow> Continuous \<Rightarrow> pannotation" where
  "concretize t tag c = \<lparr>an_Tag = tag, an_Start = co_start c, an_End = t, Description = co_desp c,
     Details = co_details c, BackgroundColor = co_bgcolor c\<rparr>"

definition annotateContinuousColor :: "int \<Rightarrow> string \<Rightarrow> string \<Rightarrow> string \<Rightarrow> string \<Rightarrow> Annotation \<Rightarrow> Annotation" where
  "annotateContinuousColor t tag desp details bgcolor an =
     (let new = \<lparr>co_start = t, co_desp = desp, co_details = details, co_bgcolor = bgcolor\<rparr> in
      case map_of (continuous an) tag of
        None \<Rightarrow> an\<lparr>continuous := AList.update tag new (continuous an)\<rparr>
      | Some cont \<Rightarrow> an\<lparr>annotations := annotations an @ [concretize t tag cont],
                       continuous := AList.update tag new (continuous an)\<rparr>)"

text \<open>
  The lookup of a missing tag yields Go's zero value, and the branch that notices it is empty: the
  method goes on.
\<close>

definition zero_Continuous :: Continuous where
  "zero_Continuous = \<lparr>co_start = 0, co_desp = [], co_details = [], co_bgcolor = []\<rparr>"

definition annotateContinuousEnd :: "int \<Rightarrow> string \<Rightarrow> Annotation \<Rightarrow> Annotation" where
  "annotateContinuousEnd t tag an =
     (let cont = (case map_of (continuous an) tag of None \<Rightarrow> zero_Continuous | Some c \<Rightarrow> c)
      in an\<lparr>annotations := annotations an @ [concretize t tag cont],
            continuous := AList.delete tag (continuous an)\<rparr>)"

text \<open>
  The range over the map visits the tags in an arbitrary order, given as the list \<open>order\<close> of the
  map's entries.
\<close>

definition an_finalize :: "int \<Rightarrow> (string \<times> Continuous) list \<Rightarrow> Annotation \<Rightarrow> Annotation \<times> pannotation list" where
  "an_finalize t order an =
     (an\<lparr>finalized := True\<rparr>, annotations an @ map (\<lambda>(tag, c). concretize t tag c) order)"

definition an_clear :: "Annotation \<Rightarrow> Annotation" where
  "an_clear an = an\<lparr>annotations := [], continuous := [], finalized := False\<rparr>"

definition isFinalized :: "Annotation \<Rightarrow> bool" where
  "isFinalized an = finalized an"

text \<open>
  \<open>cleanup\<close>: \<open>enabled\<close> is the environment variable VIS_ENABLE. The second result is what is drawn
  when the output file can be opened.
\<close>

definition info_point :: "int \<Rightarrow> string \<Rightarrow> pannotation" where
  "info_point t end_text = \<lparr>an_Tag = TAG_INFO, an_Start = t, an_End = 0, Description = end_text,
     Details = end_text, BackgroundColor = COLOR_INFO\<rparr>"

definition an_cleanup ::
  "string \<Rightarrow> bool \<Rightarrow> string \<Rightarrow> int \<Rightarrow> (string \<times> Continuous) list \<Rightarrow> Annotation \<Rightarrow> Annotation \<times> pannotation list option" where
  "an_cleanup enabled failed end_text t order an =
     (if enabled = ''never'' \<or> (\<not> failed \<and> enabled \<noteq> ''always'') \<or> isFinalized an
      then (an_clear an, None)
      else let (an', as) = an_finalize t order an in
        if as = [] then (an', None) else (an', Some (as @ [info_point t end_text])))"

section \<open>The public functions\<close>

definition on_annotation :: "(Annotation \<Rightarrow> Annotation) \<Rightarrow> tester_vars \<Rightarrow> tester_vars" where
  "on_annotation f v = v\<lparr>annotation := f (annotation v)\<rparr>"

definition FinalizeAnnotations ::
  "string \<Rightarrow> int \<Rightarrow> (string \<times> Continuous) list \<Rightarrow> tester_vars \<Rightarrow> tester_vars \<times> pannotation list" where
  "FinalizeAnnotations end_text t order v =
     (let (an, as) = an_finalize t order (annotation v)
      in (v\<lparr>annotation := an\<rparr>, as @ [info_point t end_text]))"

definition AnnotatePointColor :: "int \<Rightarrow> string \<Rightarrow> string \<Rightarrow> string \<Rightarrow> string \<Rightarrow> tester_vars \<Rightarrow> tester_vars" where
  "AnnotatePointColor t tag desp details bgcolor = on_annotation (annotatePointColor t tag desp details bgcolor)"

definition AnnotateIntervalColor ::
  "int \<Rightarrow> string \<Rightarrow> int \<Rightarrow> string \<Rightarrow> string \<Rightarrow> string \<Rightarrow> tester_vars \<Rightarrow> tester_vars" where
  "AnnotateIntervalColor t tag start desp details bgcolor =
     on_annotation (annotateIntervalColor t tag start desp details bgcolor)"

definition AnnotateContinuousColor :: "int \<Rightarrow> string \<Rightarrow> string \<Rightarrow> string \<Rightarrow> string \<Rightarrow> tester_vars \<Rightarrow> tester_vars" where
  "AnnotateContinuousColor t tag desp details bgcolor =
     on_annotation (annotateContinuousColor t tag desp details bgcolor)"

declare AnnotatePointColor_def [simp] AnnotateIntervalColor_def [simp] AnnotateContinuousColor_def [simp]

definition AnnotatePoint :: "int \<Rightarrow> string \<Rightarrow> string \<Rightarrow> string \<Rightarrow> tester_vars \<Rightarrow> tester_vars" where
  "AnnotatePoint t tag desp details = on_annotation (annotatePointColor t tag desp details COLOR_USER)"

definition AnnotateInterval :: "int \<Rightarrow> string \<Rightarrow> int \<Rightarrow> string \<Rightarrow> string \<Rightarrow> tester_vars \<Rightarrow> tester_vars" where
  "AnnotateInterval t tag start desp details =
     on_annotation (annotateIntervalColor t tag start desp details COLOR_USER)"

definition AnnotateContinuous :: "int \<Rightarrow> string \<Rightarrow> string \<Rightarrow> string \<Rightarrow> tester_vars \<Rightarrow> tester_vars" where
  "AnnotateContinuous t tag desp details =
     on_annotation (annotateContinuousColor t tag desp details COLOR_USER)"

definition AnnotateContinuousEnd :: "int \<Rightarrow> string \<Rightarrow> tester_vars \<Rightarrow> tester_vars" where
  "AnnotateContinuousEnd t tag = on_annotation (annotateContinuousEnd t tag)"

definition AnnotateInfo :: "int \<Rightarrow> string \<Rightarrow> string \<Rightarrow> tester_vars \<Rightarrow> tester_vars" where
  "AnnotateInfo t desp details = AnnotatePointColor t TAG_INFO desp details COLOR_INFO"

definition AnnotateInfoInterval :: "int \<Rightarrow> int \<Rightarrow> string \<Rightarrow> string \<Rightarrow> tester_vars \<Rightarrow> tester_vars" where
  "AnnotateInfoInterval t start desp details =
     AnnotateIntervalColor t TAG_INFO start desp details COLOR_INFO"

definition AnnotateTest :: "int \<Rightarrow> string \<Rightarrow> nat \<Rightarrow> tester_vars \<Rightarrow> tester_vars" where
  "AnnotateTest t desp n v =
     (let details = desp @ '' ('' @ itoa (int n) @ '' servers)''
      in AnnotateInfo t details details (on_annotation an_clear (v\<lparr>finfo := Some (mkFrameworkInfo n)\<rparr>)))"

definition AnnotateCheckerBegin :: "int \<Rightarrow> string \<Rightarrow> tester_vars \<Rightarrow> tester_vars option" where
  "AnnotateCheckerBegin t details v = do {
     fi \<leftarrow> finfo v;
     Some (v\<lparr>finfo := Some (fi\<lparr>fi_ckbegin := \<lparr>ck_ts = t, ck_details = details\<rparr>\<rparr>)\<rparr>)
   }"

text \<open>The last assignment of the source resets a copy of the begin, so that it has no effect.\<close>

definition AnnotateCheckerEnd :: "int \<Rightarrow> string \<Rightarrow> string \<Rightarrow> string \<Rightarrow> tester_vars \<Rightarrow> tester_vars option" where
  "AnnotateCheckerEnd t desp details color v = do {
     fi \<leftarrow> finfo v;
     let ckb = fi_ckbegin fi;
     Some (if ck_ts ckb = 0
           then AnnotatePointColor t TAG_CHECKER desp details color v
           else AnnotateIntervalColor t TAG_CHECKER (ck_ts ckb) desp (ck_details ckb @ '': '' @ details) color v)
   }"

definition AnnotateCheckerSuccess :: "int \<Rightarrow> string \<Rightarrow> string \<Rightarrow> tester_vars \<Rightarrow> tester_vars option" where
  "AnnotateCheckerSuccess t desp details = AnnotateCheckerEnd t desp details COLOR_SUCCESS"

definition AnnotateCheckerFailure :: "int \<Rightarrow> string \<Rightarrow> string \<Rightarrow> tester_vars \<Rightarrow> tester_vars option" where
  "AnnotateCheckerFailure t desp details = AnnotateCheckerEnd t desp details COLOR_FAILURE"

definition AnnotateCheckerNeutral :: "int \<Rightarrow> string \<Rightarrow> string \<Rightarrow> tester_vars \<Rightarrow> tester_vars option" where
  "AnnotateCheckerNeutral t desp details = AnnotateCheckerEnd t desp details COLOR_NEUTRAL"

definition SetAnnotationFinalized :: "tester_vars \<Rightarrow> tester_vars" where
  "SetAnnotationFinalized = on_annotation (\<lambda>an. an\<lparr>finalized := True\<rparr>)"

definition GetAnnotationFinalized :: "tester_vars \<Rightarrow> bool" where
  "GetAnnotationFinalized v = isFinalized (annotation v)"

definition AnnotateCheckerFailureBeforeExit ::
  "string \<Rightarrow> int \<Rightarrow> (string \<times> Continuous) list \<Rightarrow> string \<Rightarrow> string \<Rightarrow> tester_vars \<Rightarrow>
   (tester_vars \<times> pannotation list option) option" where
  "AnnotateCheckerFailureBeforeExit enabled t order desp details v = do {
     v1 \<leftarrow> AnnotateCheckerFailure t desp details v;
     let (an, drawn) = an_cleanup enabled True ''test failed'' t order (annotation v1);
     Some (v1\<lparr>annotation := an\<rparr>, drawn)
   }"

section \<open>Faults\<close>

text \<open>The verb \<open>%v\<close> for a slice of integers.\<close>

fun join_blanks :: "string list \<Rightarrow> string" where
  "join_blanks [] = []"
| "join_blanks [s] = s"
| "join_blanks (s # ss) = s @ '' '' @ join_blanks ss"

definition show_ints :: "int list \<Rightarrow> string" where
  "show_ints is = ''['' @ join_blanks (map itoa is) @ '']''"

text \<open>The loop over \<open>finfo.connected\<close>: the connected servers, the crashed ones, and the text so far.\<close>

fun fault_loop :: "nat \<Rightarrow> bool list \<Rightarrow> bool list \<Rightarrow> int list \<times> int list \<times> string \<Rightarrow> (int list \<times> int list \<times> string) option" where
  "fault_loop k [] crashed st = Some st"
| "fault_loop k (c # cs) crashed (conn, crashes, text) = do {
     dead \<leftarrow> go_index crashed (int k);
     fault_loop (Suc k) cs crashed
       (if dead then (conn, crashes @ [int k], text)
        else if c then (conn @ [int k], crashes, text)
        else (conn, crashes, text @ ''['' @ itoa (int k) @ ''] ''))
   }"

definition fault_text :: "bool list \<Rightarrow> bool list \<Rightarrow> string option" where
  "fault_text connected crashed = do {
     (conn, crashes, text) \<leftarrow> fault_loop 0 connected crashed ([], [], ''partition = '');
     let text1 = (if conn \<noteq> [] then text @ show_ints conn else text);
     Some (if crashes \<noteq> [] then text1 @ '' / crash = '' @ show_ints crashes else text1)
   }"

definition annotateFault :: "int \<Rightarrow> tester_vars \<Rightarrow> tester_vars option" where
  "annotateFault t v = do {
     fi \<leftarrow> finfo v;
     if fi_connected fi = replicate (fi_nservers fi) True \<and> fi_crashed fi = replicate (fi_nservers fi) False
     then Some (AnnotateContinuousEnd t TAG_PARTITION v)
     else do {
       text \<leftarrow> fault_text (fi_connected fi) (fi_crashed fi);
       Some (AnnotateContinuousColor t TAG_PARTITION text text COLOR_FAULT v)
     }
   }"

text \<open>\<open>copy\<close> overwrites as many elements as the shorter slice has.\<close>

definition go_copy :: "'a list \<Rightarrow> 'a list \<Rightarrow> 'a list" where
  "go_copy dst src = take (length dst) src @ drop (length src) dst"

definition AnnotateConnection :: "int \<Rightarrow> bool list \<Rightarrow> tester_vars \<Rightarrow> tester_vars option" where
  "AnnotateConnection t connection v = do {
     fi \<leftarrow> finfo v;
     if fi_connected fi = connection then Some v
     else annotateFault t (v\<lparr>finfo := Some (fi\<lparr>fi_connected := go_copy (fi_connected fi) connection\<rparr>)\<rparr>)
   }"

definition AnnotateTwoPartitions :: "int \<Rightarrow> int list \<Rightarrow> int list \<Rightarrow> tester_vars \<Rightarrow> tester_vars" where
  "AnnotateTwoPartitions t p1 p2 =
     (let text = ''partition = '' @ show_ints p1 @ '' '' @ show_ints p2
      in AnnotateContinuousColor t TAG_PARTITION text text COLOR_FAULT)"

definition AnnotateClearFailure :: "int \<Rightarrow> tester_vars \<Rightarrow> tester_vars option" where
  "AnnotateClearFailure t v = do {
     fi \<leftarrow> finfo v;
     let fi' = fi\<lparr>fi_crashed := map (\<lambda>_. False) (fi_crashed fi), fi_connected := map (\<lambda>_. True) (fi_connected fi)\<rparr>;
     Some (AnnotateContinuousEnd t TAG_PARTITION (v\<lparr>finfo := Some fi'\<rparr>))
   }"

text \<open>The loops of \<open>AnnotateShutdown\<close> and \<open>AnnotateRestart\<close>: the flag says if anything changed.\<close>

fun mark_loop :: "bool \<Rightarrow> int list \<Rightarrow> bool \<times> bool list \<Rightarrow> (bool \<times> bool list) option" where
  "mark_loop b [] st = Some st"
| "mark_loop b (i # is) (changed, crashed) = do {
     old \<leftarrow> go_index crashed i;
     crashed' \<leftarrow> go_store crashed i b;
     mark_loop b is (changed \<or> old \<noteq> b, crashed')
   }"

definition annotate_mark :: "bool \<Rightarrow> int \<Rightarrow> int list \<Rightarrow> tester_vars \<Rightarrow> tester_vars option" where
  "annotate_mark b t servers v = do {
     fi \<leftarrow> finfo v;
     (changed, crashed) \<leftarrow> mark_loop b servers (False, fi_crashed fi);
     let v1 = v\<lparr>finfo := Some (fi\<lparr>fi_crashed := crashed\<rparr>)\<rparr>;
     if changed then annotateFault t v1 else Some v1
   }"

definition AnnotateShutdown :: "int \<Rightarrow> int list \<Rightarrow> tester_vars \<Rightarrow> tester_vars option" where
  "AnnotateShutdown t servers v = annotate_mark True t servers v"

definition AnnotateRestart :: "int \<Rightarrow> int list \<Rightarrow> tester_vars \<Rightarrow> tester_vars option" where
  "AnnotateRestart t servers v = annotate_mark False t servers v"

definition AnnotateShutdownAll :: "int \<Rightarrow> tester_vars \<Rightarrow> tester_vars option" where
  "AnnotateShutdownAll t v = do {
     fi \<leftarrow> finfo v;
     AnnotateShutdown t (map int [0..<fi_nservers fi]) v
   }"

definition AnnotateRestartAll :: "int \<Rightarrow> tester_vars \<Rightarrow> tester_vars option" where
  "AnnotateRestartAll t v = do {
     fi \<leftarrow> finfo v;
     AnnotateRestart t (map int [0..<fi_nservers fi]) v
   }"

section \<open>Calls from server processes\<close>

text \<open>The handlers of \<open>annotator.go\<close>; the last one answers with the tester's clock.\<close>

definition PostAnnotatorPoint :: "int \<Rightarrow> string \<times> string \<times> string \<Rightarrow> tester_vars \<Rightarrow> tester_vars" where
  "PostAnnotatorPoint t args = (case args of (tag, desp, details) \<Rightarrow> AnnotatePoint t tag desp details)"

definition PostAnnotatorInfoInterval :: "int \<Rightarrow> int \<times> string \<times> string \<Rightarrow> tester_vars \<Rightarrow> tester_vars" where
  "PostAnnotatorInfoInterval t args = (case args of (start, desp, details) \<Rightarrow> AnnotateInfoInterval t start desp details)"

text \<open>The client's side: a call that is lost has no effect, and the timestamp is then 0.\<close>

definition GetAnnotatorTimestamp :: "bool \<Rightarrow> int \<Rightarrow> int" where
  "GetAnnotatorTimestamp ok t = (if ok then t else 0)"

end
