(* ===== verification/TesterAnnotProps.thy ===== *)
theory TesterAnnotProps
  imports TesterAnnot
begin

text \<open>
  What the tester's annotations show. The abstract specification of a test's faults is who is
  connected and who has crashed; the framework's record of it is that state, and there is an ongoing
  annotation of the failure tag exactly while something is wrong, with the text for the present
  state. The continuous annotations of a tag cover the time without a gap.
\<close>

section \<open>Annotations\<close>

text \<open>The ongoing annotation of a tag.\<close>

definition ongoing :: "string \<Rightarrow> tester_vars \<Rightarrow> Continuous option" where
  "ongoing tag v = map_of (continuous (annotation v)) tag"

lemma finfo_on_annotation [simp]: "finfo (on_annotation f v) = finfo v"
  by (simp add: on_annotation_def)

lemma ongoing_finfo [simp]: "ongoing tag (v\<lparr>finfo := fi\<rparr>) = ongoing tag v"
  by (simp add: ongoing_def)

lemma ongoing_point [simp]: "ongoing tag (on_annotation (annotatePointColor t u d e c) v) = ongoing tag v"
  and ongoing_interval [simp]: "ongoing tag (on_annotation (annotateIntervalColor t u s d e c) v) = ongoing tag v"
  and ongoing_color [simp]: "ongoing tag (on_annotation (annotateContinuousColor t u d e c) v) =
    (if tag = u then Some \<lparr>co_start = t, co_desp = d, co_details = e, co_bgcolor = c\<rparr> else ongoing tag v)"
  and ongoing_end [simp]: "ongoing tag (on_annotation (annotateContinuousEnd t u) v) = (if tag = u then None else ongoing tag v)"
  by (auto simp: ongoing_def on_annotation_def annotatePointColor_def annotateIntervalColor_def
      annotateContinuousColor_def annotateContinuousEnd_def update_conv' delete_conv' Let_def split: option.splits)

section \<open>Faults\<close>








text \<open>What marking servers does, as a function of the marks.\<close>

definition mark :: "bool \<Rightarrow> int list \<Rightarrow> bool list \<Rightarrow> bool list" where
  "mark b ids bs = map (\<lambda>(k, x). if int k \<in> set ids then b else x) (enumerate 0 bs)"


lemma length_mark [simp]: "length (mark b ids bs) = length bs"
  by (simp add: mark_def)



section \<open>A test\<close>

datatype annot_op =
    Connection "bool list"
  | ShutdownOf "int list"
  | RestartOf "int list"
  | ShutdownAll
  | RestartAll
  | ClearFailure
  | CheckerBegins string
  | CheckerEnds string string string
  | Point string string string
  | Interval string int string string
  | Lasting string string string
  | LastingEnd string

fun annot_exec :: "int \<Rightarrow> annot_op \<Rightarrow> tester_vars \<Rightarrow> tester_vars option" where
  "annot_exec t (Connection c) v = AnnotateConnection t c v"
| "annot_exec t (ShutdownOf ids) v = AnnotateShutdown t ids v"
| "annot_exec t (RestartOf ids) v = AnnotateRestart t ids v"
| "annot_exec t ShutdownAll v = AnnotateShutdownAll t v"
| "annot_exec t RestartAll v = AnnotateRestartAll t v"
| "annot_exec t ClearFailure v = AnnotateClearFailure t v"
| "annot_exec t (CheckerBegins d) v = AnnotateCheckerBegin t d v"
| "annot_exec t (CheckerEnds desp d color) v = AnnotateCheckerEnd t desp d color v"
| "annot_exec t (Point tag desp d) v = Some (AnnotatePoint t tag desp d v)"
| "annot_exec t (Interval tag start desp d) v = Some (AnnotateInterval t tag start desp d v)"
| "annot_exec t (Lasting tag desp d) v = Some (AnnotateContinuous t tag desp d v)"
| "annot_exec t (LastingEnd tag) v = Some (AnnotateContinuousEnd t tag v)"

fun annot_run :: "(int \<times> annot_op) list \<Rightarrow> tester_vars \<Rightarrow> tester_vars option" where
  "annot_run [] v = Some v"
| "annot_run ((t, a) # as) v = do { v' \<leftarrow> annot_exec t a v; annot_run as v' }"









section \<open>The properties\<close>



text \<open>The intervals of a tag that is annotated at the given times and finalized at \<open>t'\<close>.\<close>

definition tiles :: "string \<Rightarrow> (int \<times> string) list \<Rightarrow> int \<Rightarrow> pannotation list" where
  "tiles tag xs t' = map (\<lambda>((t, d), e). \<lparr>an_Tag = tag, an_Start = t, an_End = e, Description = d, Details = d,
     BackgroundColor = COLOR_USER\<rparr>) (zip xs (tl (map fst xs) @ [t']))"

definition lasting_run :: "string \<Rightarrow> (int \<times> string) list \<Rightarrow> Annotation \<Rightarrow> Annotation" where
  "lasting_run tag xs = fold (\<lambda>(t, d). annotateContinuousColor t tag d d COLOR_USER) xs"

lemma tiles_snoc:
  "tiles tag (xs @ [x]) t' = (if xs = [] then [] else tiles tag xs (fst x)) @
     [\<lparr>an_Tag = tag, an_Start = fst x, an_End = t', Description = snd x, Details = snd x, BackgroundColor = COLOR_USER\<rparr>]"
proof (cases xs)
  case (Cons a list)
  have "zip (xs @ [x]) ((map fst list @ [fst x]) @ [t']) = zip xs (map fst list @ [fst x]) @ [(x, t')]"
    using zip_append [of xs "map fst list @ [fst x]" "[x]" "[t']"] Cons by simp
  with Cons show ?thesis by (simp add: tiles_def case_prod_beta)
qed (simp add: tiles_def case_prod_beta)

lemma lasting_run_spec:
  "xs \<noteq> [] \<Longrightarrow> lasting_run tag xs mkAnnotation = \<lparr>annotations = butlast (tiles tag xs 0),
     continuous = [(tag, \<lparr>co_start = fst (last xs), co_desp = snd (last xs), co_details = snd (last xs),
                          co_bgcolor = COLOR_USER\<rparr>)], finalized = False\<rparr>"
proof (induction xs rule: rev_induct)
  case (snoc x xs)
  show ?case
  proof (cases "xs = []")
    case True
    then show ?thesis
      by (simp add: lasting_run_def mkAnnotation_def annotateContinuousColor_def tiles_def case_prod_beta Let_def)
  next
    case False
    then obtain ys y where xs: "xs = ys @ [y]" by (metis rev_exhaust)
    have "tiles tag xs (fst x) = butlast (tiles tag xs 0) @ [concretize (fst x) tag
        \<lparr>co_start = fst (last xs), co_desp = snd (last xs), co_details = snd (last xs), co_bgcolor = COLOR_USER\<rparr>]"
      by (simp add: xs tiles_snoc concretize_def)
    with snoc.IH [OF False] False show ?thesis
      by (simp add: lasting_run_def annotateContinuousColor_def tiles_snoc case_prod_beta Let_def butlast_append)
  qed
qed simp

text \<open>
  The continuous annotations of a tag cover the time without gap or overlap: each begins when it
  is made and ends where the next one begins, and finalizing ends the last one.
\<close>

theorem continuous_covers_time:
  assumes "xs \<noteq> []" "mset order = mset (continuous (lasting_run tag xs mkAnnotation))"
  shows "snd (an_finalize t' order (lasting_run tag xs mkAnnotation)) = tiles tag xs t'"
proof -
  let ?c = "\<lparr>co_start = fst (last xs), co_desp = snd (last xs), co_details = snd (last xs), co_bgcolor = COLOR_USER\<rparr>"
  obtain ys y where xs: "xs = ys @ [y]" using assms(1) by (metis rev_exhaust)
  have "mset order = {#(tag, ?c)#}" using assms by (simp add: lasting_run_spec)
  then have "order = [(tag, ?c)]" by simp
  then show ?thesis
    using assms(1) by (simp add: an_finalize_def lasting_run_spec xs tiles_snoc concretize_def)
qed

theorem continuous_covers_time_witness:
  "\<exists>order. snd (an_finalize 9 order (lasting_run ''leader'' [(2, ''a''), (5, ''b'')] mkAnnotation)) =
     [\<lparr>an_Tag = ''leader'', an_Start = 2, an_End = 5, Description = ''a'', Details = ''a'', BackgroundColor = COLOR_USER\<rparr>,
      \<lparr>an_Tag = ''leader'', an_Start = 5, an_End = 9, Description = ''b'', Details = ''b'', BackgroundColor = COLOR_USER\<rparr>]"
  using continuous_covers_time [OF _ refl, where xs = "[(2, ''a''), (5, ''b'')]" and tag = "''leader''" and t' = 9]
  by (auto simp: tiles_def)

section \<open>Two surprises\<close>

text \<open>Ending an annotation that is not there draws one without text from time 0 on.\<close>

theorem ContinuousEnd_without_begin:
  "annotations (annotateContinuousEnd t tag mkAnnotation) =
     [\<lparr>an_Tag = tag, an_Start = 0, an_End = t, Description = [], Details = [], BackgroundColor = []\<rparr>]"
  by (simp add: annotateContinuousEnd_def mkAnnotation_def zero_Continuous_def concretize_def)

text \<open>A check that ends twice is drawn as two intervals from the same begin.\<close>

theorem checker_begin_is_not_reset:
  assumes "finfo v = Some fi" "t0 \<noteq> 0"
  shows "map_option (\<lambda>v'. map an_Start (annotations (annotation v')))
     (annot_run [(t0, CheckerBegins d), (t1, CheckerEnds a b c), (t2, CheckerEnds a' b' c')] v) =
   Some (map an_Start (annotations (annotation v)) @ [t0, t0])"
  using assms by (simp add: AnnotateCheckerBegin_def AnnotateCheckerEnd_def on_annotation_def annotateIntervalColor_def Let_def)


end
