(* ===== verification/Spec2Isabelle.thy ===== *)
theory Spec2Isabelle
  imports RaftDriverProps KvProps ShardTestProps MrTest MrTiming LabRpcProps LabGob KvAppend KvHarness DemuxProps DaemonProps RsmTest TesterAnnotProps
begin

text \<open>
  A verification library for the distributed-systems labs under \<open>src/\<close>: MapReduce, a versioned
  key/value server with a lock on top of it, Raft with log compaction, the configurations of a sharded
  store, and the test harness these are run in (a simulated network, gob checks, groups of servers and
  clients, calls over sockets, and the checks of the test suites).

  \<^bold>\<open>Conventions.\<close> Go's \<open>int\<close> is \<^typ>\<open>int\<close> (or \<^typ>\<open>nat\<close> for indices that are never negative); sized
  integers are words where they can wrap (key/value versions, call tags, network counters). A panic
  and \<open>log.Fatalf\<close> are \<^term>\<open>None\<close>. Every critical section of a mutex is one definition from the state
  before to the state after it. Clocks, random numbers, random names and the choices of the scheduler
  and the network are arguments, so that a theorem holds for all of them. \<open>Prelude\<close> holds the reading of
  slices and the shared lemmas, \<open>GoLib\<close> what is used of Go's library (decimal printing, FNV-1a, lines),
  \<open>GoParse\<close> the reading of numbers.

  \<^bold>\<open>Raft\<close> (\<open>src/raft1\<close>). \<open>RaftLog\<close>: \<open>raftlog.go\<close>. \<open>Conflict\<close>: \<open>checkAppend\<close> and \<open>backoffNextIndex\<close>
  of \<open>conflict.go\<close>. \<open>RaftRpc\<close>: the messages. \<open>Persister\<close>: \<open>tester1/persister.go\<close> and the interface
  \<open>stable_storage\<close>. \<open>RaftNode\<close>: one peer, that is \<open>raft.go\<close>, \<open>handlers.go\<close>, \<open>election.go\<close>,
  \<open>replication.go\<close>, \<open>apply.go\<close> and \<open>callPeer\<close>. \<open>RaftInv\<close>, \<open>RaftOps\<close>, \<open>RaftApply\<close>: what every critical
  section keeps and does, restarts from stable storage, and the order of delivery. \<open>RaftCluster\<close>: a
  cluster as a step relation whose steps are the critical sections of the goroutines the code starts,
  the handlers, crashes and restarts. \<open>RaftVoting\<close>, \<open>RaftElection\<close>: votes per term and election safety.
  \<open>RaftSched\<close>: an executable scheduler for concrete runs. \<open>RaftProps\<close>: the properties of elections,
  handlers and single peers. \<open>RaftHistory\<close>: full logs, leaders' logs and acknowledgements as a history,
  the events that extend it, and why committed prefixes agree. \<open>RaftCompact\<close>: the compacted log refines
  the full log, operation by operation. \<open>RaftSafety\<close>, \<open>RaftEvents\<close>, \<open>RaftAgreement\<close>: every reachable
  cluster has such a history, critical section by critical section. \<open>RaftAgreementProps\<close>: log matching,
  leader completeness and state machine safety. Election safety and what rests on it hold when a vote
  goroutine asks for its vote in the term of its own election; the code does not enforce this, and a
  run with two leaders in one term is exhibited.

  \<^bold>\<open>The Raft test service\<close> (\<open>raft1/server.go\<close>, \<open>proxy.go\<close>, \<open>test.go\<close>). \<open>RaftTester\<close>,
  \<open>RaftTesterProps\<close>: the service applies what the apply loop sends, and the tester's check of the logs
  finds exactly the disagreements. \<open>RaftDriver\<close>, \<open>RaftDriverProps\<close>: how the tests drive a cluster
  (\<open>one\<close>, \<open>wait\<close>, killing and restarting servers); every reachable cluster passes the checks of its
  applied commands and of its leaders, also while it goes on between the questions.

  \<^bold>\<open>Key/value server\<close> (\<open>src/kvsrv1\<close>, \<open>src/models1\<close>, \<open>src/kvtest1\<close>). \<open>KvServer\<close>: server and sequential
  specification, the first refines the second. \<open>KvClerk\<close>: the retrying clerk over a lossy network, what
  each result means. \<open>KvLock\<close>: the lock, cut at its calls; mutual exclusion. \<open>KvTest\<close>, \<open>KvAppend\<close>: the
  clients and checks of the tests; the append check accepts every run. \<open>KvHarness\<close>: recording and
  counting of operations, the verdict on a history, the partitioner, and the spawning of clients over
  channels, which returns with every result. \<open>KvProps\<close>: the properties.

  \<^bold>\<open>Replicated state machine\<close> (\<open>src/kvraft1/rsm\<close>). \<open>RsmTest\<close>: the service of the tests (\<open>server.go\<close>),
  whose snapshots restore its counter, \<open>Submit\<close> as the repository has it, which refuses every request,
  and the tester's search for a server that takes one (\<open>test.go\<close>).

  \<^bold>\<open>Shard configurations\<close> (\<open>src/shardkv1/shardcfg\<close>). \<open>ShardCfg\<close>, \<open>ShardProps\<close>: joining, leaving and
  rebalancing; the rebalancing loop is a partial function in the option monad and is shown to return.
  \<open>ShardTest\<close>, \<open>ShardTestProps\<close>: how the tests (\<open>shardkv1/test.go\<close>) make groups and drive a controller
  to join and leave them, for any controller that keeps the configuration it is given.

  \<^bold>\<open>MapReduce\<close> (\<open>src/mr\<close>, \<open>src/mrapps\<close>, \<open>src/main/mrsequential.go\<close>). \<open>MrCoordinator\<close>, \<open>MrWorker\<close>,
  \<open>MrJson\<close>, \<open>MrApps\<close>: coordinator, worker, file format, applications. \<open>MrCorrect\<close>, \<open>MrJob\<close>,
  \<open>MrProps\<close>: a job ends and its output is that of the sequential program. The interfaces \<open>kv_codec\<close>,
  \<open>key_sorter\<close>, \<open>temp_namer\<close> and \<open>mr_job\<close> say what the job needs of its surroundings. The worker's loop
  carries fuel; one iteration per task and a last one are shown to be enough. \<open>MrTest\<close>: how the tests
  judge a job (\<open>util.go\<close>), with \<open>line_sorter\<close> as the interface of \<open>sort\<close>; every job passes.
  \<open>MrTiming\<close>: the applications that measure the workers through files count exactly.

  \<^bold>\<open>Network and encoding\<close> (\<open>src/labrpc\<close>, \<open>src/labgob\<close>). \<open>LabRpc\<close>, \<open>LabRpcInv\<close>, \<open>LabRpcProps\<close>: the
  simulated network; handlers run at most once, in one order, and replies are their own. \<open>LabGob\<close>: the
  checks on types and values; the recursion over the graph of types carries fuel, and the number of
  types plus one is shown to be enough.

  \<^bold>\<open>Tester\<close> (\<open>src/tester1\<close>). \<open>TesterGroup\<close>, \<open>TesterGroupProps\<close>: groups of servers, connecting,
  partitioning, stopping and starting them (\<open>group.go\<close>, \<open>srv.go\<close>). \<open>TesterClnts\<close>: clients
  (\<open>clnts.go\<close>), with an abstract policy of whom a client can reach that the operations refine.
  \<open>TesterProps\<close>: what these do to requests in the simulated network. \<open>TesterConfig\<close>: \<open>config.go\<close>.
  \<open>TesterAnnot\<close>, \<open>TesterAnnotProps\<close>: the annotations of a test (\<open>annotation.go\<close>); the faults they show
  refine the abstract state of who is connected and who has crashed.
  \<open>Demux\<close>, \<open>DemuxProps\<close>: framing, call tags and matching of replies over a socket
  (\<open>demux\<close>, \<open>sockrpc\<close>). \<open>Daemon\<close>, \<open>DaemonProps\<close>: servers in processes of their own (\<open>daemonclnt.go\<close>,
  \<open>daemonsrv.go\<close>, \<open>testsrv.go\<close>): the command line is read back, the handshake never gets stuck, calls
  between daemons are calls in the simulated network, and a checkpoint is the last of a daemon.

  \<^bold>\<open>Not modelled.\<close> \<open>kvraft1/client.go\<close>, \<open>kvraft1/server.go\<close> and \<open>shardkv1\<close> (client, controller, shard
  groups) are skeletons whose bodies are still to be written, so there is no behaviour to model; of
  \<open>rsm.go\<close> the part that reads Raft's channel is missing too. The main programs only pass their arguments on. Starting and killing processes, sockets, files other than
  MapReduce's, printing, timing limits and memory statistics are calls to the operating system. The
  porcupine checker and its drawing of a history are a third-party package: its verdict is an argument.
\<close>

end
